(* ===== verification/Prelude.thy ===== *)
theory Prelude
  imports Complex_Main "HOL-Library.Product_Lexorder"
begin

text \<open>
  Shared vocabulary of the development: Python exceptions as values, effects as
  explicit state passing with an exception result, the list operations that the
  SQL statements and the Python code of the repository use (order-preserving
  de-duplication, row lookup by key, conditional row update, ORDER BY with
  LIMIT 1).
\<close>

named_theorems eff_simps \<open>unfolding of the effect combinators\<close>
named_theorems wf_rules \<open>operations that keep the database constraints\<close>
named_theorems frame_simps \<open>parts of the state that an operation leaves alone\<close>

section \<open>Exceptions and effects\<close>

text \<open>The exceptions that the modelled code raises or catches by name.\<close>

datatype exn =
    HTTPException int string
  | ValueError
  | KeyError
  | TypeError
  | AttributeError
  | OverflowError
  | IntegrityError
  | StaleDataError
  | MultipleResultsFound
  | CrudError string
  | CroniterError
  | ResponseError string
  | ConnectionError
  | RecursionError
  | CancelledError

type_synonym ('s, 'a) eff = "'s \<Rightarrow> (exn + 'a) \<times> 's"

definition ret :: "'a \<Rightarrow> ('s, 'a) eff" where
  "ret x s = (Inr x, s)"

definition throw :: "exn \<Rightarrow> ('s, 'a) eff" where
  "throw e s = (Inl e, s)"

definition andthen :: "('s, 'a) eff \<Rightarrow> ('a \<Rightarrow> ('s, 'b) eff) \<Rightarrow> ('s, 'b) eff" where
  "andthen m f s = (case m s of (Inl e, s') \<Rightarrow> (Inl e, s') | (Inr x, s') \<Rightarrow> f x s')"

text \<open>A \<^verbatim>\<open>for\<close> loop over a list whose body may raise: it stops at the first exception.\<close>

fun for_each :: "'a list \<Rightarrow> ('a \<Rightarrow> ('s, unit) eff) \<Rightarrow> ('s, unit) eff" where
  "for_each [] body = ret ()"
| "for_each (x # xs) body = andthen (body x) (\<lambda>_. for_each xs body)"

lemma ret_eq [simp]: "ret x s = (Inr y, t) \<longleftrightarrow> x = y \<and> s = t"
  by (auto simp: ret_def)

lemma ret_not_raise [simp]: "ret x s \<noteq> (Inl e, t)"
  by (simp add: ret_def)

lemma throw_not_value [simp]: "throw e s \<noteq> (Inr y, t)"
  by (simp add: throw_def)

lemma andthen_value:
  "andthen m f s = (Inr y, t) \<longleftrightarrow> (\<exists>x u. m s = (Inr x, u) \<and> f x u = (Inr y, t))"
  by (auto simp: andthen_def split: prod.splits sum.splits)

lemma andthen_raise:
  "andthen m f s = (Inl e, t) \<longleftrightarrow>
     m s = (Inl e, t) \<or> (\<exists>x u. m s = (Inr x, u) \<and> f x u = (Inl e, t))"
  by (auto simp: andthen_def split: prod.splits sum.splits)

lemmas andthen_iff [eff_simps] = andthen_value andthen_raise

lemma for_each_append:
  "for_each (xs @ ys) body s = andthen (for_each xs body) (\<lambda>_. for_each ys body) s"
  by (induction xs arbitrary: s)
    (auto simp: andthen_def ret_def split: prod.splits sum.splits)

text \<open>
  An effect respects a preorder on states when every outcome, exceptions
  included, leads to a state above the initial one. The combinators respect
  what their parts respect.
\<close>

definition keeps :: "('s \<Rightarrow> 's \<Rightarrow> bool) \<Rightarrow> ('s, 'a) eff \<Rightarrow> bool" where
  "keeps R m \<longleftrightarrow> (\<forall>s. R s (snd (m s)))"

lemma keepsI: "(\<And>s. R s (snd (m s))) \<Longrightarrow> keeps R m"
  by (simp add: keeps_def)

lemma keeps_snd: "keeps R m \<Longrightarrow> R s (snd (m s))"
  by (simp only: keeps_def)

lemma keepsD: "keeps R m \<Longrightarrow> m s = (x, s') \<Longrightarrow> R s s'"
  by (metis keeps_def snd_conv)

locale eff_preorder =
  fixes R :: "'s \<Rightarrow> 's \<Rightarrow> bool"
  assumes R_refl: "R s s"
    and R_trans: "R s t \<Longrightarrow> R t u \<Longrightarrow> R s u"
begin

lemma keeps_ret: "keeps R (ret x)"
  by (simp add: keeps_def ret_def R_refl)

lemma keeps_throw: "keeps R (throw e)"
  by (simp add: keeps_def throw_def R_refl)

lemma keeps_andthen:
  assumes "keeps R m" and "\<And>x. keeps R (f x)"
  shows "keeps R (andthen m f)"
proof (rule keepsI)
  fix s
  obtain y t where m: "m s = (y, t)" by (cases "m s")
  have "R s t" using assms(1) m by (rule keepsD)
  moreover have "R t (snd (f x t))" for x using assms(2) by (simp add: keeps_def)
  ultimately show "R s (snd (andthen m f s))"
    using m R_trans by (cases y) (auto simp: andthen_def)
qed

lemma keeps_for_each: "(\<And>x. x \<in> set xs \<Longrightarrow> keeps R (body x)) \<Longrightarrow> keeps R (for_each xs body)"
  by (induction xs) (auto intro: keeps_ret keeps_andthen)

end

text \<open>Every value that an effect returns, from any state, has a property.\<close>

definition gives :: "('a \<Rightarrow> bool) \<Rightarrow> ('s, 'a) eff \<Rightarrow> bool" where
  "gives P m \<longleftrightarrow> (\<forall>s x s'. m s = (Inr x, s') \<longrightarrow> P x)"

lemma givesD: "gives P m \<Longrightarrow> m s = (Inr x, s') \<Longrightarrow> P x"
  by (auto simp: gives_def)

lemma gives_ret: "P x \<Longrightarrow> gives P (ret x)"
  by (simp add: gives_def)

lemma gives_throw: "gives P (throw e)"
  by (simp add: gives_def)

lemma gives_bind: "(\<And>x. gives P (f x)) \<Longrightarrow> gives P (andthen m f)"
  by (auto simp: gives_def andthen_value)

lemma gives_if: "(c \<Longrightarrow> gives P a) \<Longrightarrow> (\<not> c \<Longrightarrow> gives P b) \<Longrightarrow> gives P (if c then a else b)"
  by simp

section \<open>Lists as tables\<close>

text \<open>\<^verbatim>\<open>list(dict.fromkeys(xs))\<close>: drop repetitions, keep the first occurrence.\<close>

fun fromkeys :: "'a list \<Rightarrow> 'a list" where
  "fromkeys [] = []"
| "fromkeys (x # xs) = x # filter (\<lambda>y. y \<noteq> x) (fromkeys xs)"

lemma set_fromkeys [simp]: "set (fromkeys xs) = set xs"
  by (induction xs) auto

lemma distinct_fromkeys [simp]: "distinct (fromkeys xs)"
  by (induction xs) auto

lemma fromkeys_id: "distinct xs \<Longrightarrow> fromkeys xs = xs"
  by (induction xs) (auto simp: filter_id_conv)

lemma fromkeys_eq_Nil [simp]: "fromkeys xs = [] \<longleftrightarrow> xs = []"
  by (cases xs) auto

text \<open>Row lookup by a key column (\<^verbatim>\<open>session.get\<close>).\<close>

definition get_by :: "('a \<Rightarrow> 'k) \<Rightarrow> 'k \<Rightarrow> 'a list \<Rightarrow> 'a option" where
  "get_by key k xs = List.find (\<lambda>x. key x = k) xs"

lemma get_by_Nil [simp]: "get_by key k [] = None"
  by (simp add: get_by_def)

lemma get_by_Cons [simp]:
  "get_by key k (x # xs) = (if key x = k then Some x else get_by key k xs)"
  by (simp add: get_by_def)

lemma get_by_SomeD: "get_by key k xs = Some x \<Longrightarrow> x \<in> set xs \<and> key x = k"
  by (induction xs) (auto split: if_splits)

lemma get_by_None_iff: "get_by key k xs = None \<longleftrightarrow> k \<notin> key ` set xs"
  by (induction xs) auto

lemma get_by_distinct:
  "distinct (map key xs) \<Longrightarrow> get_by key k xs = Some x \<longleftrightarrow> x \<in> set xs \<and> key x = k"
  by (induction xs) (auto simp: image_iff)

lemma get_by_append:
  "get_by key k (xs @ ys) = (case get_by key k xs of Some x \<Rightarrow> Some x | None \<Rightarrow> get_by key k ys)"
  by (induction xs) auto

text \<open>\<^verbatim>\<open>UPDATE ... WHERE p SET f\<close> over a table.\<close>

definition update_where :: "('a \<Rightarrow> bool) \<Rightarrow> ('a \<Rightarrow> 'a) \<Rightarrow> 'a list \<Rightarrow> 'a list" where
  "update_where p f xs = map (\<lambda>x. if p x then f x else x) xs"

lemma update_where_Nil [simp]: "update_where p f [] = []"
  by (simp add: update_where_def)

lemma update_where_Cons [simp]:
  "update_where p f (x # xs) = (if p x then f x else x) # update_where p f xs"
  by (simp add: update_where_def)

lemma update_where_append [simp]:
  "update_where p f (xs @ ys) = update_where p f xs @ update_where p f ys"
  by (simp add: update_where_def)

lemma map_update_where:
  "(\<And>x. p x \<Longrightarrow> g (f x) = g x) \<Longrightarrow> map g (update_where p f xs) = map g xs"
  by (simp add: update_where_def)

lemma update_where_none: "(\<And>x. x \<in> set xs \<Longrightarrow> \<not> p x) \<Longrightarrow> update_where p f xs = xs"
  by (induction xs) auto

lemma in_update_where:
  "y \<in> set (update_where p f xs) \<longleftrightarrow>
     (\<exists>x \<in> set xs. y = (if p x then f x else x))"
  by (auto simp: update_where_def)

lemma get_by_update_where:
  assumes "\<And>x. p x \<Longrightarrow> key (f x) = key x"
  shows "get_by key k (update_where p f xs) =
           map_option (\<lambda>x. if p x then f x else x) (get_by key k xs)"
  using assms by (induction xs) auto

text \<open>\<^verbatim>\<open>ORDER BY key LIMIT 1\<close> read with \<^verbatim>\<open>scalar_one_or_none\<close>.\<close>

definition first_by :: "('a \<Rightarrow> 'k :: linorder) \<Rightarrow> 'a list \<Rightarrow> 'a option" where
  "first_by key xs = (case sort_key key xs of [] \<Rightarrow> None | x # _ \<Rightarrow> Some x)"

lemma first_by_None_iff [simp]: "first_by key xs = None \<longleftrightarrow> xs = []"
proof -
  have "sort_key key xs = [] \<longleftrightarrow> xs = []"
    by (metis length_0_conv length_sort)
  then show ?thesis by (auto simp: first_by_def split: list.splits)
qed

lemma first_by_SomeD:
  assumes "first_by key xs = Some x"
  shows "x \<in> set xs" and "y \<in> set xs \<Longrightarrow> key x \<le> key y"
proof -
  from assms obtain zs where zs: "sort_key key xs = x # zs"
    by (auto simp: first_by_def split: list.splits)
  then have st: "set (x # zs) = set xs"
    by (metis set_sort)
  then show "x \<in> set xs" by auto
  have "sorted (map key (x # zs))"
    by (metis sorted_sort_key zs)
  then show "key x \<le> key y" if "y \<in> set xs"
    using that st by auto
qed

text \<open>\<^verbatim>\<open>scalar_one_or_none\<close> without a LIMIT: more than one row raises.\<close>

fun scalar_one_or_none :: "'a list \<Rightarrow> exn + 'a option" where
  "scalar_one_or_none [] = Inr None"
| "scalar_one_or_none [x] = Inr (Some x)"
| "scalar_one_or_none (x # y # zs) = Inl MultipleResultsFound"

end
