(* ===== verification/Py_Strings.thy ===== *)
theory Py_Strings
  imports Prelude
begin

text \<open>
  The string and integer conversions of Python that the code uses, for ASCII
  text: \<^verbatim>\<open>str.isdigit\<close>, \<^verbatim>\<open>str(int)\<close>, \<^verbatim>\<open>int(str)\<close>, \<^verbatim>\<open>str.lower\<close>.
  Non-ASCII digits and letters are outside the model.
\<close>

definition is_dig :: "char \<Rightarrow> bool" where
  "is_dig c \<longleftrightarrow> 48 \<le> (of_char c :: nat) \<and> (of_char c :: nat) \<le> 57"

definition dig_val :: "char \<Rightarrow> nat" where
  "dig_val c = of_char c - 48"

definition dig_char :: "nat \<Rightarrow> char" where
  "dig_char n = char_of (48 + n)"

text \<open>\<^verbatim>\<open>s.isdigit()\<close>: non-empty and digits only.\<close>

definition isdigit :: "string \<Rightarrow> bool" where
  "isdigit s \<longleftrightarrow> s \<noteq> [] \<and> list_all is_dig s"

text \<open>\<^verbatim>\<open>str(n)\<close> of an integer.\<close>

fun nat_str :: "nat \<Rightarrow> string" where
  "nat_str n = (if n < 10 then [dig_char n] else nat_str (n div 10) @ [dig_char (n mod 10)])"

declare nat_str.simps [simp del]

definition int_str :: "int \<Rightarrow> string" where
  "int_str i = (if i < 0 then CHR ''-'' # nat_str (nat (- i)) else nat_str (nat i))"

text \<open>
  \<^verbatim>\<open>int(s)\<close>: surrounding whitespace, one sign, digits with single underscores
  between them; anything else raises \<^verbatim>\<open>ValueError\<close> (\<^term>\<open>None\<close> here).
\<close>

definition is_space :: "char \<Rightarrow> bool" where
  "is_space c \<longleftrightarrow> (let n = (of_char c :: nat) in n = 32 \<or> (9 \<le> n \<and> n \<le> 13) \<or> (28 \<le> n \<and> n \<le> 31))"

definition py_strip :: "string \<Rightarrow> string" where
  "py_strip s = rev (dropWhile is_space (rev (dropWhile is_space s)))"

fun udigits :: "bool \<Rightarrow> nat \<Rightarrow> string \<Rightarrow> nat option" where
  "udigits b a [] = (if b then Some a else None)"
| "udigits b a (c # cs) =
     (if is_dig c then udigits True (10 * a + dig_val c) cs
      else if c = CHR ''_'' \<and> b then udigits False a cs
      else None)"

definition py_int :: "string \<Rightarrow> int option" where
  "py_int s =
     (case py_strip s of
        [] \<Rightarrow> None
      | c # cs \<Rightarrow>
          if c = CHR ''-'' then map_option (\<lambda>n. - int n) (udigits False 0 cs)
          else if c = CHR ''+'' then map_option int (udigits False 0 cs)
          else map_option int (udigits False 0 (c # cs)))"

text \<open>\<^verbatim>\<open>s.lower()\<close>.\<close>

definition lower_char :: "char \<Rightarrow> char" where
  "lower_char c = (let n = (of_char c :: nat) in if 65 \<le> n \<and> n \<le> 90 then char_of (n + 32) else c)"

definition lower :: "string \<Rightarrow> string" where
  "lower s = map lower_char s"

section \<open>Lemmas\<close>

lemma dig_char_dig: "n < 10 \<Longrightarrow> is_dig (dig_char n)"
  by (simp add: is_dig_def dig_char_def)

lemma dig_val_char: "n < 10 \<Longrightarrow> dig_val (dig_char n) = n"
  by (simp add: dig_val_def dig_char_def)

lemma is_dig_not_space: "is_dig c \<Longrightarrow> \<not> is_space c"
  by (auto simp: is_dig_def is_space_def Let_def)

lemma is_dig_not_sign: "is_dig c \<Longrightarrow> c \<noteq> CHR ''-'' \<and> c \<noteq> CHR ''+'' \<and> c \<noteq> CHR ''_''"
  by (auto simp: is_dig_def)

lemma minus_not_space: "\<not> is_space (CHR ''-'')"
  by (simp add: is_space_def)

lemma nat_str_digits: "list_all is_dig (nat_str n)"
proof (induction n rule: nat_str.induct)
  case (1 n)
  then show ?case
    by (subst nat_str.simps) (auto simp: dig_char_dig)
qed

lemma nat_str_nonempty: "nat_str n \<noteq> []"
  by (subst nat_str.simps) simp

lemma isdigit_nat_str: "isdigit (nat_str n)"
  by (simp add: isdigit_def nat_str_digits nat_str_nonempty)

lemma py_strip_nonspace:
  assumes "s \<noteq> []" and "\<not> is_space (hd s)" and "\<not> is_space (last s)"
  shows "py_strip s = s"
proof -
  have "dropWhile is_space s = s" and "dropWhile is_space (rev s) = rev s"
    using assms by (simp_all add: dropWhile_eq_self_iff hd_rev)
  then show ?thesis by (simp add: py_strip_def)
qed

text \<open>The value of a digit string, and what \<^const>\<open>udigits\<close> adds to it.\<close>

fun dec_val :: "nat \<Rightarrow> string \<Rightarrow> nat" where
  "dec_val a [] = a"
| "dec_val a (c # cs) = dec_val (10 * a + dig_val c) cs"

lemma udigits_dec: "list_all is_dig s \<Longrightarrow> b \<or> s \<noteq> [] \<Longrightarrow> udigits b a s = Some (dec_val a s)"
  by (induction s arbitrary: a b) auto

lemma dec_val_append: "dec_val a (s @ t) = dec_val (dec_val a s) t"
  by (induction s arbitrary: a) auto

lemma dec_val_nat_str: "dec_val 0 (nat_str n) = n"
proof (induction n rule: nat_str.induct)
  case (1 n)
  then show ?case
    by (subst nat_str.simps) (auto simp: dec_val_append dig_val_char)
qed

lemma py_int_isdigit: "isdigit s \<Longrightarrow> py_int s = Some (int (dec_val 0 s))"
proof -
  assume d: "isdigit s"
  then have ne: "s \<noteq> []" and all: "list_all is_dig s"
    by (simp_all add: isdigit_def)
  then have "is_dig (hd s)" and "is_dig (last s)"
    by (auto simp: list_all_iff)
  then have st: "py_strip s = s"
    using ne by (auto intro: py_strip_nonspace dest: is_dig_not_space)
  have "udigits False 0 s = Some (dec_val 0 s)"
    using all ne by (simp add: udigits_dec)
  then show ?thesis
    using st ne \<open>is_dig (hd s)\<close> is_dig_not_sign[of "hd s"]
    by (cases s) (auto simp: py_int_def)
qed

lemma py_int_int_str: "py_int (int_str i) = Some i"
proof (cases "i < 0")
  case True
  let ?t = "nat_str (nat (- i))"
  have "is_dig (last ?t)"
    using nat_str_digits[of "nat (- i)"] nat_str_nonempty[of "nat (- i)"] by (auto simp: list_all_iff)
  then have "py_strip (CHR ''-'' # ?t) = CHR ''-'' # ?t"
    using nat_str_nonempty[of "nat (- i)"]
    by (intro py_strip_nonspace) (auto simp: minus_not_space dest: is_dig_not_space)
  moreover have "udigits False 0 ?t = Some (nat (- i))"
    by (simp add: udigits_dec nat_str_digits nat_str_nonempty dec_val_nat_str)
  ultimately show ?thesis
    using True by (simp add: int_str_def py_int_def)
next
  case False
  then show ?thesis
    by (simp add: int_str_def py_int_isdigit isdigit_nat_str dec_val_nat_str)
qed

lemma int_str_inject [simp]: "int_str i = int_str j \<longleftrightarrow> i = j"
  by (metis option.inject py_int_int_str)

end
