(* ===== verification/Redis_Queue.thy ===== *)
theory Redis_Queue
  imports Models
begin

text \<open>
  \<^verbatim>\<open>backend/common/redis_queue.py\<close>: the dispatch stream, the delayed set and the
  cancel channel. The Redis server is not part of the repository: its commands
  are a parameter, the record \<open>redis_api\<close> over an opaque server state \<open>'r\<close>.
  What the code relies on is the locale \<open>redis_server\<close> (documented behaviour
  of commands that succeed); a command that raises promises nothing. The theory
  \<open>Memory_Redis\<close> gives an in-memory server with every command the code uses and
  interprets the locale on it.
\<close>

section \<open>The commands of the server\<close>

type_synonym fields = "(string \<times> string) list"
type_synonym message = "string \<times> fields"

record 'r redis_api =
  XADD :: "string \<Rightarrow> fields \<Rightarrow> ('r, string) eff"
  XLEN :: "string \<Rightarrow> ('r, int) eff"
  XACK :: "string \<Rightarrow> string \<Rightarrow> string \<Rightarrow> ('r, unit) eff"
  XDEL :: "string \<Rightarrow> string \<Rightarrow> ('r, unit) eff"
  XGROUP_CREATE :: "string \<Rightarrow> string \<Rightarrow> ('r, unit) eff"
  XPENDING :: "string \<Rightarrow> string \<Rightarrow> ('r, int) eff"
  XREADGROUP :: "string \<Rightarrow> string \<Rightarrow> string \<Rightarrow> int \<Rightarrow> ('r, message list) eff"
  XAUTOCLAIM :: "string \<Rightarrow> string \<Rightarrow> string \<Rightarrow> int \<Rightarrow> int \<Rightarrow> ('r, message list) eff"
  ZADD :: "string \<Rightarrow> string \<Rightarrow> time \<Rightarrow> ('r, unit) eff"
  ZRANGEBYSCORE :: "string \<Rightarrow> time \<Rightarrow> ('r, string list) eff"
  ZREM :: "string \<Rightarrow> string \<Rightarrow> ('r, unit) eff"
  ZCARD :: "string \<Rightarrow> ('r, int) eff"
  PUBLISH :: "string \<Rightarrow> string \<Rightarrow> ('r, unit) eff"

section \<open>redis_queue.py\<close>

definition is_response_error :: "exn \<Rightarrow> bool" where
  "is_response_error e = (case e of ResponseError _ \<Rightarrow> True | _ \<Rightarrow> False)"

text \<open>\<^verbatim>\<open>"BUSYGROUP" not in str(exc)\<close> decides whether the error is re-raised.\<close>

fun is_prefix_of :: "string \<Rightarrow> string \<Rightarrow> bool" where
  "is_prefix_of [] t = True"
| "is_prefix_of (c # s) [] = False"
| "is_prefix_of (c # s) (e # t) = (c = e \<and> is_prefix_of s t)"

fun substring_of :: "string \<Rightarrow> string \<Rightarrow> bool" where
  "substring_of s [] = (s = [])"
| "substring_of s (c # t) = (is_prefix_of s (c # t) \<or> substring_of s t)"

definition ensure_group :: "'r redis_api \<Rightarrow> settings \<Rightarrow> ('r, unit) eff" where
  "ensure_group api cfg r =
     (case XGROUP_CREATE api (stream_key cfg) (consumer_group cfg) r of
        (Inl (ResponseError msg), r') \<Rightarrow>
          if substring_of ''BUSYGROUP'' msg then (Inr (), r') else (Inl (ResponseError msg), r')
      | res \<Rightarrow> res)"

text \<open>
  \<^verbatim>\<open>update_queue_gauges\<close>: the two gauge values; a \<^verbatim>\<open>ResponseError\<close> counts as 0,
  any other exception propagates.
\<close>

definition gauge :: "('r, int) eff \<Rightarrow> ('r, int) eff" where
  "gauge cmd r =
     (case cmd r of
        (Inl e, r') \<Rightarrow> if is_response_error e then (Inr 0, r') else (Inl e, r')
      | res \<Rightarrow> res)"

definition update_queue_gauges :: "'r redis_api \<Rightarrow> settings \<Rightarrow> ('r, int \<times> int) eff" where
  "update_queue_gauges api cfg =
     andthen (gauge (XLEN api (stream_key cfg))) (\<lambda>n.
     andthen (gauge (ZCARD api (delayed_set_key cfg))) (\<lambda>m. ret (n, m)))"

definition enqueue_run :: "'r redis_api \<Rightarrow> settings \<Rightarrow> int \<Rightarrow> ('r, string) eff" where
  "enqueue_run api cfg run_id =
     andthen (XADD api (stream_key cfg) [(''run_id'', int_str run_id)]) (\<lambda>message_id.
     andthen (update_queue_gauges api cfg) (\<lambda>_. ret message_id))"

definition publish_cancel :: "'r redis_api \<Rightarrow> settings \<Rightarrow> int \<Rightarrow> ('r, unit) eff" where
  "publish_cancel api cfg run_id = PUBLISH api (cancel_channel cfg) (int_str run_id)"

definition schedule_delayed :: "'r redis_api \<Rightarrow> settings \<Rightarrow> int \<Rightarrow> time \<Rightarrow> ('r, unit) eff" where
  "schedule_delayed api cfg run_id ready_at_epoch =
     andthen (ZADD api (delayed_set_key cfg) (int_str run_id) ready_at_epoch) (\<lambda>_.
     andthen (update_queue_gauges api cfg) (\<lambda>_. ret ()))"

text \<open>
  The Lua script: every due member is removed from the set and added to the
  stream, in the order in which the range query returned them.
\<close>

definition PROMOTE_LUA :: "'r redis_api \<Rightarrow> string \<Rightarrow> string \<Rightarrow> time \<Rightarrow> ('r, int) eff" where
  "PROMOTE_LUA api key1 key2 arg1 =
     andthen (ZRANGEBYSCORE api key1 arg1) (\<lambda>due.
     andthen (for_each due (\<lambda>member.
                andthen (ZREM api key1 member) (\<lambda>_.
                andthen (XADD api key2 [(''run_id'', member)]) (\<lambda>_. ret ())))) (\<lambda>_.
     ret (int (length due))))"

definition promote_due_delayed :: "'r redis_api \<Rightarrow> settings \<Rightarrow> time \<Rightarrow> ('r, int) eff" where
  "promote_due_delayed api cfg now_epoch =
     andthen (PROMOTE_LUA api (delayed_set_key cfg) (stream_key cfg) now_epoch) (\<lambda>count.
     andthen (update_queue_gauges api cfg) (\<lambda>_. ret count))"

definition pending_count :: "'r redis_api \<Rightarrow> settings \<Rightarrow> ('r, int) eff" where
  "pending_count api cfg = gauge (XPENDING api (stream_key cfg) (consumer_group cfg))"

text \<open>The same operations on the asynchronous client of the worker.\<close>

definition ensure_group_async :: "'r redis_api \<Rightarrow> settings \<Rightarrow> ('r, unit) eff" where
  "ensure_group_async api cfg r =
     (case XGROUP_CREATE api (stream_key cfg) (consumer_group cfg) r of
        (Inl (ResponseError msg), r') \<Rightarrow>
          if substring_of ''BUSYGROUP'' msg then (Inr (), r') else (Inl (ResponseError msg), r')
      | res \<Rightarrow> res)"

definition update_queue_gauges_async :: "'r redis_api \<Rightarrow> settings \<Rightarrow> ('r, int \<times> int) eff" where
  "update_queue_gauges_async api cfg =
     andthen (gauge (XLEN api (stream_key cfg))) (\<lambda>n.
     andthen (gauge (ZCARD api (delayed_set_key cfg))) (\<lambda>m. ret (n, m)))"

definition enqueue_run_async :: "'r redis_api \<Rightarrow> settings \<Rightarrow> int \<Rightarrow> ('r, string) eff" where
  "enqueue_run_async api cfg run_id =
     andthen (XADD api (stream_key cfg) [(''run_id'', int_str run_id)]) (\<lambda>message_id.
     andthen (update_queue_gauges_async api cfg) (\<lambda>_. ret message_id))"

definition schedule_delayed_async ::
  "'r redis_api \<Rightarrow> settings \<Rightarrow> int \<Rightarrow> time \<Rightarrow> ('r, unit) eff" where
  "schedule_delayed_async api cfg run_id ready_at_epoch =
     andthen (ZADD api (delayed_set_key cfg) (int_str run_id) ready_at_epoch) (\<lambda>_.
     andthen (update_queue_gauges_async api cfg) (\<lambda>_. ret ()))"

lemma async_same:
  "update_queue_gauges_async = update_queue_gauges"
  "enqueue_run_async = enqueue_run"
  "schedule_delayed_async = schedule_delayed"
  by (simp_all add: fun_eq_iff update_queue_gauges_async_def update_queue_gauges_def
        enqueue_run_async_def enqueue_run_def schedule_delayed_async_def schedule_delayed_def)

section \<open>What the code relies on\<close>

text \<open>
  Observers: the entries of a stream in order, and the scores of a sorted set.
  Successful XADD appends an entry under a fresh identifier, successful ZADD
  sets a score, ZRANGEBYSCORE lists the members up to a score, ZREM removes a
  member, XDEL removes an entry; the reading commands change nothing.
\<close>

locale redis_server =
  fixes api :: "'r redis_api"
    and rinv :: "'r \<Rightarrow> bool"
    and stream :: "'r \<Rightarrow> string \<Rightarrow> message list"
    and zset :: "'r \<Rightarrow> string \<Rightarrow> string \<Rightarrow> time option"
  assumes xadd: "rinv r \<Longrightarrow> XADD api k f r = (Inr m, r') \<Longrightarrow>
      rinv r' \<and> stream r' = (stream r)(k := stream r k @ [(m, f)]) \<and> zset r' = zset r \<and>
      m \<notin> fst ` set (stream r k)"
    and xdel: "rinv r \<Longrightarrow> XDEL api k m r = (Inr u, r') \<Longrightarrow>
      rinv r' \<and> stream r' = (stream r)(k := filter (\<lambda>e. fst e \<noteq> m) (stream r k)) \<and>
      zset r' = zset r"
    and zadd: "rinv r \<Longrightarrow> ZADD api k mem s r = (Inr u, r') \<Longrightarrow>
      rinv r' \<and> stream r' = stream r \<and> zset r' = (zset r)(k := (zset r k)(mem \<mapsto> s))"
    and zrem: "rinv r \<Longrightarrow> ZREM api k mem r = (Inr u, r') \<Longrightarrow>
      rinv r' \<and> stream r' = stream r \<and> zset r' = (zset r)(k := (zset r k)(mem := None))"
    and zrange: "rinv r \<Longrightarrow> ZRANGEBYSCORE api k t r = (Inr ms, r') \<Longrightarrow>
      rinv r' \<and> stream r' = stream r \<and> zset r' = zset r \<and> distinct ms \<and>
      set ms = {mem. \<exists>s. zset r k mem = Some s \<and> s \<le> t} \<and>
      sorted (map (\<lambda>mem. the (zset r k mem)) ms)"
    and xlen: "rinv r \<Longrightarrow> XLEN api k r = (x, r') \<Longrightarrow>
      rinv r' \<and> stream r' = stream r \<and> zset r' = zset r"
    and zcard: "rinv r \<Longrightarrow> ZCARD api k r = (x, r') \<Longrightarrow>
      rinv r' \<and> stream r' = stream r \<and> zset r' = zset r"
    and xpending: "rinv r \<Longrightarrow> XPENDING api k g r = (x, r') \<Longrightarrow>
      rinv r' \<and> stream r' = stream r \<and> zset r' = zset r"
    and publish: "rinv r \<Longrightarrow> PUBLISH api c v r = (Inr w, r') \<Longrightarrow>
      rinv r' \<and> stream r' = stream r \<and> zset r' = zset r"
    and xack: "rinv r \<Longrightarrow> XACK api k g m r = (Inr u, r') \<Longrightarrow>
      rinv r' \<and> stream r' = stream r \<and> zset r' = zset r"
begin

lemma gauge_obs:
  assumes "\<And>x r'. cmd r = (x, r') \<Longrightarrow> rinv r' \<and> stream r' = stream r \<and> zset r' = zset r"
    and "gauge cmd r = (y, r')"
  shows "rinv r' \<and> stream r' = stream r \<and> zset r' = zset r"
  using assms by (cases "cmd r") (auto simp: gauge_def split: sum.splits if_splits)

lemma gauges_obs:
  assumes i: "rinv r" and g: "update_queue_gauges api cfg r = (y, r')"
  shows "rinv r' \<and> stream r' = stream r \<and> zset r' = zset r"
proof -
  obtain x1 r1 where 1: "gauge (XLEN api (stream_key cfg)) r = (x1, r1)"
    by (cases "gauge (XLEN api (stream_key cfg)) r")
  have o1: "rinv r1 \<and> stream r1 = stream r \<and> zset r1 = zset r"
    by (rule gauge_obs[OF _ 1]) (rule xlen[OF i])
  obtain x2 r2 where 2: "gauge (ZCARD api (delayed_set_key cfg)) r1 = (x2, r2)"
    by (cases "gauge (ZCARD api (delayed_set_key cfg)) r1")
  have o2: "rinv r2 \<and> stream r2 = stream r1 \<and> zset r2 = zset r1"
    by (rule gauge_obs[OF _ 2]) (rule zcard, use o1 in auto)
  show ?thesis
    using g 1 2 o1 o2
    by (cases x1; cases x2) (auto simp: update_queue_gauges_def andthen_def ret_def)
qed

lemma enqueue_run_ok:
  assumes i: "rinv r" and e: "enqueue_run api cfg i r = (Inr m, r')"
  shows "rinv r'" and "zset r' = zset r" and
    "stream r' = (stream r)(stream_key cfg := stream r (stream_key cfg) @ [(m, [(''run_id'', int_str i)])])"
proof -
  obtain r1 y where 1: "XADD api (stream_key cfg) [(''run_id'', int_str i)] r = (Inr m, r1)"
    and 2: "update_queue_gauges api cfg r1 = (Inr y, r')"
    using e by (auto simp: enqueue_run_def andthen_value)
  from xadd[OF i 1] gauges_obs[OF _ 2]
  show "rinv r'" "zset r' = zset r"
    "stream r' = (stream r)(stream_key cfg := stream r (stream_key cfg) @ [(m, [(''run_id'', int_str i)])])"
    by auto
qed

lemma schedule_delayed_ok:
  assumes i: "rinv r" and e: "schedule_delayed api cfg i t r = (Inr u, r')"
  shows "rinv r'" and "stream r' = stream r" and
    "zset r' = (zset r)(delayed_set_key cfg := (zset r (delayed_set_key cfg))(int_str i \<mapsto> t))"
proof -
  obtain r1 v y where 1: "ZADD api (delayed_set_key cfg) (int_str i) t r = (Inr v, r1)"
    and 2: "update_queue_gauges api cfg r1 = (Inr y, r')"
    using e by (auto simp: schedule_delayed_def andthen_value)
  from zadd[OF i 1] gauges_obs[OF _ 2]
  show "rinv r'" "stream r' = stream r"
    "zset r' = (zset r)(delayed_set_key cfg := (zset r (delayed_set_key cfg))(int_str i \<mapsto> t))"
    by auto
qed

text \<open>A loop of enqueues appends one entry per run, in the order of the list.\<close>

lemma enqueue_all_ok:
  assumes "rinv r" and "for_each is (\<lambda>i. andthen (enqueue_run api cfg i) (\<lambda>_. ret ())) r = (Inr u, r')"
  shows "rinv r' \<and> zset r' = zset r \<and>
    (\<exists>es. stream r' = (stream r)(stream_key cfg := stream r (stream_key cfg) @ es) \<and>
          map snd es = map (\<lambda>i. [(''run_id'', int_str i)]) is)"
  using assms
proof (induction "is" arbitrary: r)
  case Nil
  then show ?case by (auto intro: exI[of _ "[]"])
next
  case (Cons i "is")
  then obtain m r1 where e: "enqueue_run api cfg i r = (Inr m, r1)"
    and rest: "for_each is (\<lambda>i. andthen (enqueue_run api cfg i) (\<lambda>_. ret ())) r1 = (Inr u, r')"
    by (auto simp: andthen_value)
  note E = enqueue_run_ok[OF Cons.prems(1) e]
  from Cons.IH[OF E(1) rest] obtain es where
    "rinv r'" "zset r' = zset r1"
    "stream r' = (stream r1)(stream_key cfg := stream r1 (stream_key cfg) @ es)"
    "map snd es = map (\<lambda>i. [(''run_id'', int_str i)]) is"
    by blast
  with E show ?case
    by (auto intro!: exI[of _ "(m, [(''run_id'', int_str i)]) # es"])
qed

text \<open>The script moves exactly the due members from the set to the stream.\<close>

lemma promote_loop:
  assumes "rinv r" and
    "for_each due (\<lambda>member. andthen (ZREM api k1 member) (\<lambda>_.
        andthen (XADD api k2 [(''run_id'', member)]) (\<lambda>_. ret ()))) r = (Inr u, r')"
  shows "rinv r' \<and> zset r' = (zset r)(k1 := zset r k1 |` (- set due)) \<and>
    (\<exists>es. stream r' = (stream r)(k2 := stream r k2 @ es) \<and>
          map snd es = map (\<lambda>member. [(''run_id'', member)]) due)"
  using assms
proof (induction due arbitrary: r)
  case Nil
  then show ?case by (auto intro: exI[of _ "[]"])
next
  case (Cons a due)
  let ?body = "\<lambda>member. andthen (ZREM api k1 member) (\<lambda>_.
        andthen (XADD api k2 [(''run_id'', member)]) (\<lambda>_. ret ()))"
  from Cons.prems(2) obtain v r1 m r2 where 1: "ZREM api k1 a r = (Inr v, r1)"
    and 2: "XADD api k2 [(''run_id'', a)] r1 = (Inr m, r2)"
    and rest: "for_each due ?body r2 = (Inr u, r')"
    by (auto simp: andthen_value)
  note Z = zrem[OF Cons.prems(1) 1] and X = xadd[OF _ 2]
  from Z X Cons.IH[OF _ rest] obtain es where
    i: "rinv r'" and z: "zset r' = (zset r2)(k1 := zset r2 k1 |` (- set due))" and
    s: "stream r' = (stream r2)(k2 := stream r2 k2 @ es)" and
    es: "map snd es = map (\<lambda>member. [(''run_id'', member)]) due"
    by blast
  have "zset r' = (zset r)(k1 := zset r k1 |` (- set (a # due)))"
    using z Z X by (auto simp: fun_eq_iff restrict_map_def)
  moreover have "stream r' = (stream r)(k2 := stream r k2 @ ((m, [(''run_id'', a)]) # es))"
    using s Z X by (auto simp: fun_eq_iff)
  moreover have "map snd ((m, [(''run_id'', a)]) # es) = map (\<lambda>member. [(''run_id'', member)]) (a # due)"
    using es by simp
  ultimately show ?case using i by blast
qed

lemma promote_due_ok:
  assumes i: "rinv r" and p: "promote_due_delayed api cfg t r = (Inr n, r')"
  shows "\<exists>due es. distinct due \<and> n = int (length due) \<and>
      set due = {mem. \<exists>s. zset r (delayed_set_key cfg) mem = Some s \<and> s \<le> t} \<and>
      sorted (map (\<lambda>mem. the (zset r (delayed_set_key cfg) mem)) due) \<and>
      rinv r' \<and>
      zset r' = (zset r)(delayed_set_key cfg := zset r (delayed_set_key cfg) |` (- set due)) \<and>
      stream r' = (stream r)(stream_key cfg := stream r (stream_key cfg) @ es) \<and>
      map snd es = map (\<lambda>member. [(''run_id'', member)]) due"
proof -
  let ?body = "\<lambda>member. andthen (ZREM api (delayed_set_key cfg) member) (\<lambda>_.
        andthen (XADD api (stream_key cfg) [(''run_id'', member)]) (\<lambda>_. ret ()))"
  from p obtain due r1 u r2 y where
    1: "ZRANGEBYSCORE api (delayed_set_key cfg) t r = (Inr due, r1)" and
    2: "for_each due ?body r1 = (Inr u, r2)" and
    3: "update_queue_gauges api cfg r2 = (Inr y, r')" and n: "n = int (length due)"
    by (auto simp: promote_due_delayed_def PROMOTE_LUA_def andthen_value)
  note Z = zrange[OF i 1]
  from Z promote_loop[OF _ 2] obtain es where
    L: "rinv r2" "zset r2 = (zset r1)(delayed_set_key cfg := zset r1 (delayed_set_key cfg) |` (- set due))"
      "stream r2 = (stream r1)(stream_key cfg := stream r1 (stream_key cfg) @ es)"
      "map snd es = map (\<lambda>member. [(''run_id'', member)]) due"
    by blast
  from gauges_obs[OF L(1) 3] Z L n show ?thesis
    by (intro exI[of _ due] exI[of _ es]) simp
qed

end

end
