(* ===== verification/Memory_Redis.thy ===== *)
theory Memory_Redis
  imports Redis_Queue
begin

text \<open>
  An in-memory server for the commands of \<open>redis_api\<close>: streams with consumer
  groups (last delivered identifier and pending entries list), sorted sets and
  a log of published messages. It interprets \<open>redis_server\<close>, so the laws that
  the theorems assume of Redis can hold together, and closed examples run on it.
\<close>

record group_state =
  last_delivered :: nat
  pel :: "(nat \<times> string \<times> time) list"

record mem_redis =
  m_next :: nat
  m_now :: time
  m_streams :: "string \<Rightarrow> (nat \<times> fields) list"
  m_zsets :: "string \<Rightarrow> (string \<times> time) list"
  m_groups :: "string \<times> string \<Rightarrow> group_state option"
  m_published :: "(string \<times> string) list"

definition mem_empty :: mem_redis where
  "mem_empty = \<lparr>m_next = 1, m_now = 0, m_streams = (\<lambda>_. []), m_zsets = (\<lambda>_. []),
     m_groups = (\<lambda>_. None), m_published = []\<rparr>"

definition mem_xadd :: "string \<Rightarrow> fields \<Rightarrow> (mem_redis, string) eff" where
  "mem_xadd k f r = (Inr (nat_str (m_next r)),
     r\<lparr>m_next := Suc (m_next r), m_streams := (m_streams r)(k := m_streams r k @ [(m_next r, f)])\<rparr>)"

definition mem_xdel :: "string \<Rightarrow> string \<Rightarrow> (mem_redis, unit) eff" where
  "mem_xdel k m r = (Inr (),
     r\<lparr>m_streams := (m_streams r)(k := filter (\<lambda>e. nat_str (fst e) \<noteq> m) (m_streams r k))\<rparr>)"

definition mem_xlen :: "string \<Rightarrow> (mem_redis, int) eff" where
  "mem_xlen k r = (Inr (int (length (m_streams r k))), r)"

definition on_group ::
  "string \<Rightarrow> string \<Rightarrow> (group_state \<Rightarrow> 'a \<times> group_state) \<Rightarrow> (mem_redis, 'a) eff" where
  "on_group k g f r =
     (case m_groups r (k, g) of
        None \<Rightarrow> (Inl (ResponseError ''NOGROUP''), r)
      | Some gs \<Rightarrow> (case f gs of (x, gs') \<Rightarrow> (Inr x, r\<lparr>m_groups := (m_groups r)((k, g) \<mapsto> gs')\<rparr>)))"

definition mem_xgroup_create :: "string \<Rightarrow> string \<Rightarrow> (mem_redis, unit) eff" where
  "mem_xgroup_create k g r =
     (case m_groups r (k, g) of
        Some _ \<Rightarrow> (Inl (ResponseError ''BUSYGROUP Consumer Group name already exists''), r)
      | None \<Rightarrow> (Inr (), r\<lparr>m_groups := (m_groups r)((k, g) \<mapsto> \<lparr>last_delivered = 0, pel = []\<rparr>)\<rparr>))"

definition mem_xack :: "string \<Rightarrow> string \<Rightarrow> string \<Rightarrow> (mem_redis, unit) eff" where
  "mem_xack k g m = on_group k g (\<lambda>gs. ((), gs\<lparr>pel := filter (\<lambda>e. nat_str (fst e) \<noteq> m) (pel gs)\<rparr>))"

definition mem_xpending :: "string \<Rightarrow> string \<Rightarrow> (mem_redis, int) eff" where
  "mem_xpending k g = on_group k g (\<lambda>gs. (int (length (pel gs)), gs))"

definition mem_xreadgroup :: "string \<Rightarrow> string \<Rightarrow> string \<Rightarrow> int \<Rightarrow> (mem_redis, message list) eff" where
  "mem_xreadgroup k g c n r =
     on_group k g (\<lambda>gs.
       let new = take (nat n) (filter (\<lambda>e. last_delivered gs < fst e) (m_streams r k))
       in (map (\<lambda>e. (nat_str (fst e), snd e)) new,
           \<lparr>last_delivered = (if new = [] then last_delivered gs else fst (last new)),
            pel = pel gs @ map (\<lambda>e. (fst e, c, m_now r)) new\<rparr>)) r"

definition mem_xautoclaim ::
  "string \<Rightarrow> string \<Rightarrow> string \<Rightarrow> int \<Rightarrow> int \<Rightarrow> (mem_redis, message list) eff" where
  "mem_xautoclaim k g c idle n r =
     on_group k g (\<lambda>gs.
       let stale = take (nat n) (filter (\<lambda>(i, _, t). idle * 1000 \<le> m_now r - t) (pel gs));
           ids = map fst stale
       in (map (\<lambda>e. (nat_str (fst e), snd e)) (filter (\<lambda>e. fst e \<in> set ids) (m_streams r k)),
           gs\<lparr>pel := map (\<lambda>(i, c', t). if i \<in> set ids then (i, c, m_now r) else (i, c', t)) (pel gs)\<rparr>)) r"

definition mem_zadd :: "string \<Rightarrow> string \<Rightarrow> time \<Rightarrow> (mem_redis, unit) eff" where
  "mem_zadd k mem s r = (Inr (),
     r\<lparr>m_zsets := (m_zsets r)(k := (mem, s) # filter (\<lambda>e. fst e \<noteq> mem) (m_zsets r k))\<rparr>)"

definition mem_zrem :: "string \<Rightarrow> string \<Rightarrow> (mem_redis, unit) eff" where
  "mem_zrem k mem r = (Inr (),
     r\<lparr>m_zsets := (m_zsets r)(k := filter (\<lambda>e. fst e \<noteq> mem) (m_zsets r k))\<rparr>)"

definition mem_zrange :: "string \<Rightarrow> time \<Rightarrow> (mem_redis, string list) eff" where
  "mem_zrange k t r = (Inr (map fst (filter (\<lambda>e. snd e \<le> t) (sort_key snd (m_zsets r k)))), r)"

definition mem_zcard :: "string \<Rightarrow> (mem_redis, int) eff" where
  "mem_zcard k r = (Inr (int (length (m_zsets r k))), r)"

definition mem_publish :: "string \<Rightarrow> string \<Rightarrow> (mem_redis, unit) eff" where
  "mem_publish c v r = (Inr (), r\<lparr>m_published := m_published r @ [(c, v)]\<rparr>)"

definition mem_api :: "mem_redis redis_api" where
  "mem_api = \<lparr>XADD = mem_xadd, XLEN = mem_xlen, XACK = mem_xack, XDEL = mem_xdel,
     XGROUP_CREATE = mem_xgroup_create, XPENDING = mem_xpending, XREADGROUP = mem_xreadgroup,
     XAUTOCLAIM = mem_xautoclaim, ZADD = mem_zadd, ZRANGEBYSCORE = mem_zrange, ZREM = mem_zrem,
     ZCARD = mem_zcard, PUBLISH = mem_publish\<rparr>"

definition mem_stream :: "mem_redis \<Rightarrow> string \<Rightarrow> message list" where
  "mem_stream r k = map (\<lambda>e. (nat_str (fst e), snd e)) (m_streams r k)"

definition mem_zset :: "mem_redis \<Rightarrow> string \<Rightarrow> string \<Rightarrow> time option" where
  "mem_zset r k = map_of (m_zsets r k)"

definition mem_inv :: "mem_redis \<Rightarrow> bool" where
  "mem_inv r \<longleftrightarrow> (\<forall>k. \<forall>e \<in> set (m_streams r k). fst e < m_next r) \<and>
                 (\<forall>k. distinct (map fst (m_streams r k))) \<and>
                 (\<forall>k. distinct (map fst (m_zsets r k)))"

section \<open>The server satisfies the laws\<close>

lemma nat_str_inject [simp]: "nat_str m = nat_str n \<longleftrightarrow> m = n"
  by (metis dec_val_nat_str)

lemmas mem_obs = mem_stream_def mem_zset_def mem_inv_def mem_api_def

lemma mem_zrange_sorted:
  assumes d: "distinct (map fst xs)"
  shows "sorted (map (\<lambda>m. the (map_of xs m)) (map fst (filter (\<lambda>e. snd e \<le> t) (sort_key snd xs))))"
proof -
  have "map (\<lambda>e. the (map_of xs (fst e))) (filter (\<lambda>e. snd e \<le> t) (sort_key snd xs)) =
        map snd (filter (\<lambda>e. snd e \<le> t) (sort_key snd xs))"
    by (rule map_cong) (use d in \<open>auto simp: map_of_is_SomeI\<close>)
  moreover have "sorted (map snd (filter (\<lambda>e. snd e \<le> t) (sort_key snd xs)))"
    by (simp add: sorted_filter)
  ultimately show ?thesis by (simp only: map_map o_def)
qed

lemma distinct_sort_keys: "distinct (map fst xs) \<Longrightarrow> distinct (map fst (sort_key f xs))"
  by (metis distinct_map distinct_sort set_sort)

lemma mem_zrange_law:
  assumes "mem_inv r" and z: "ZRANGEBYSCORE mem_api k t r = (Inr ms, r')"
  shows "mem_inv r' \<and> mem_stream r' = mem_stream r \<and> mem_zset r' = mem_zset r \<and> distinct ms \<and>
      set ms = {mem. \<exists>s. mem_zset r k mem = Some s \<and> s \<le> t} \<and>
      sorted (map (\<lambda>mem. the (mem_zset r k mem)) ms)"
proof -
  let ?xs = "m_zsets r k"
  have d: "distinct (map fst ?xs)" using assms(1) by (simp add: mem_inv_def)
  have ms: "ms = map fst (filter (\<lambda>e. snd e \<le> t) (sort_key snd ?xs))" and r: "r' = r"
    using z by (auto simp: mem_api_def mem_zrange_def)
  have "distinct ms"
    unfolding ms by (rule distinct_map_filter) (rule distinct_sort_keys[OF d])
  moreover have "set ms = {mem. \<exists>s. map_of ?xs mem = Some s \<and> s \<le> t}"
    unfolding ms using d by (force simp: map_of_is_SomeI image_iff dest: map_of_SomeD)
  moreover have "sorted (map (\<lambda>mem. the (map_of ?xs mem)) ms)"
    unfolding ms by (rule mem_zrange_sorted[OF d])
  ultimately show ?thesis using assms(1) r by (simp add: mem_zset_def)
qed

lemma map_of_filter_neq: "map_of (filter (\<lambda>e. fst e \<noteq> m) xs) = (map_of xs)(m := None)"
  by (induction xs) (auto simp: fun_eq_iff)

interpretation mem: redis_server mem_api mem_inv mem_stream mem_zset
proof (unfold_locales, goal_cases)
  case (1 r k f m r')
  then have m: "m = nat_str (m_next r)" and r': "r' = snd (mem_xadd k f r)"
    by (auto simp: mem_api_def mem_xadd_def)
  have "m \<notin> fst ` set (mem_stream r k)"
    using 1(1) by (force simp: m mem_stream_def mem_inv_def)
  moreover have "mem_inv r'"
    using 1(1) by (fastforce simp: r' mem_xadd_def mem_inv_def less_SucI)
  ultimately show ?case
    by (auto simp: r' m mem_xadd_def mem_stream_def mem_zset_def fun_eq_iff)
next
  case (2 r k m u r')
  then have r': "r' = snd (mem_xdel k m r)" by (simp add: mem_api_def)
  have "mem_inv r'"
    using 2(1) by (auto simp: r' mem_xdel_def mem_inv_def distinct_map_filter dest!: spec[where x = k])
  then show ?case
    by (simp add: r' mem_xdel_def mem_stream_def mem_zset_def fun_eq_iff filter_map o_def)
next
  case (3 r k mem s u r')
  then show ?case
    by (fastforce simp: mem_obs mem_zadd_def fun_eq_iff map_of_filter_neq distinct_map_filter)
next
  case (4 r k mem u r')
  then show ?case
    by (fastforce simp: mem_obs mem_zrem_def fun_eq_iff map_of_filter_neq distinct_map_filter)
next
  case (5 r k t ms r')
  then show ?case by (rule mem_zrange_law)
next
  case (6 r k x r')
  then show ?case by (fastforce simp: mem_obs mem_xlen_def)
next
  case (7 r k x r')
  then show ?case by (fastforce simp: mem_obs mem_zcard_def)
next
  case (8 r k g x r')
  then show ?case
    by (fastforce simp: mem_obs mem_xpending_def on_group_def fun_eq_iff split: option.splits)
next
  case (9 r c v w r')
  then show ?case by (fastforce simp: mem_obs mem_publish_def)
next
  case (10 r k g m u r')
  then show ?case
    by (fastforce simp: mem_obs mem_xack_def on_group_def fun_eq_iff split: option.splits)
qed

end
