(* ===== verification/Sample.thy ===== *)
theory Sample
  imports Memory_Redis
begin

text \<open>
  A small database and an empty in-memory server, shared by the closed examples
  that show the hypotheses of the theorems to be satisfiable: one user with two
  jobs, the second depending on the first, and runs in several states.
\<close>

definition mk_user :: "int \<Rightarrow> string \<Rightarrow> string option \<Rightarrow> user" where
  "mk_user i name mail = \<lparr>u_id = i, u_username = name, u_email = mail, u_password_hash = ''x'',
     u_is_active = True, u_created_at = 0, u_updated_at = 0\<rparr>"

definition mk_job :: "int \<Rightarrow> int \<Rightarrow> string \<Rightarrow> string \<Rightarrow> string option \<Rightarrow> int \<Rightarrow> job" where
  "mk_job i owner name stype sexpr retries = \<lparr>j_id = i, j_owner_user_id = Some owner, j_name = name,
     j_description = None, j_category = None, j_task_type = ''shell'',
     j_task_spec = [(''command'', JStr ''echo'')], j_schedule_type = stype, j_schedule_expr = sexpr,
     j_timezone = ''UTC'', j_enabled = True, j_max_retries = retries, j_retry_backoff_sec = 30,
     j_timeout_sec = 300, j_last_scheduled_for = None, j_created_at = 0, j_updated_at = 0\<rparr>"

definition mk_run :: "int \<Rightarrow> int \<Rightarrow> trigger_type \<Rightarrow> run_status \<Rightarrow> time \<Rightarrow> job_run" where
  "mk_run i j trg st t = \<lparr>r_id = i, r_job_id = j, r_trigger_type = trg, r_status = st, r_attempt = 1,
     r_scheduled_for = None, r_started_at = None, r_finished_at = None, r_exit_code = None,
     r_result = None, r_error = None, r_worker_id = None, r_created_at = t\<rparr>"

definition mk_dep :: "int \<Rightarrow> int \<Rightarrow> int \<Rightarrow> job_dependency" where
  "mk_dep i j p = \<lparr>d_id = i, d_job_id = j, d_depends_on_job_id = p\<rparr>"

definition sample_db :: db where
  "sample_db = \<lparr>users = [mk_user 1 ''alice'' None],
     jobs = [mk_job 1 1 ''extract'' ''manual'' None 2, mk_job 2 1 ''load'' ''manual'' None 0],
     deps = [mk_dep 1 2 1],
     runs = [mk_run 1 1 MANUAL QUEUED 0, mk_run 2 2 MANUAL PENDING 0],
     logs = [], users_seq = 2, jobs_seq = 3, deps_seq = 2, runs_seq = 3, logs_seq = 1\<rparr>"

lemmas sample_defs = sample_db_def mk_user_def mk_job_def mk_run_def mk_dep_def

lemmas wf_all_defs = wf_db_def wf_users_def wf_jobs_def wf_deps_def wf_runs_def wf_logs_def
  keyed_def run_ticks_def

lemma sample_wf: "wf_db sample_db"
  by (simp add: sample_defs wf_all_defs)

lemma sample_run_1 [simp]: "get_run_row sample_db 1 = Some (mk_run 1 1 MANUAL QUEUED 0)"
  by (simp add: get_run_row_def sample_defs)

lemma sample_job_1 [simp]:
  "get_job_row sample_db 1 = Some (mk_job 1 1 ''extract'' ''manual'' None 2)"
  by (simp add: get_job_row_def sample_defs)

lemma mem_empty_inv: "mem_inv mem_empty"
  by (simp add: mem_inv_def mem_empty_def)


end
