(* ===== verification/Dispatch.thy ===== *)
theory Dispatch
  imports Sample
begin

text \<open>
  \<^verbatim>\<open>backend/common/dispatch.py\<close>, over a world made of the committed database and
  the Redis server.
\<close>

record 'r world =
  w_db :: db
  w_redis :: 'r

text \<open>A database transaction or a Redis command as an effect on the world.\<close>

definition on_db :: "(db, 'a) eff \<Rightarrow> ('r world, 'a) eff" where
  "on_db m w = (case m (w_db w) of (x, d) \<Rightarrow> (x, w\<lparr>w_db := d\<rparr>))"

definition on_redis :: "('r, 'a) eff \<Rightarrow> ('r world, 'a) eff" where
  "on_redis m w = (case m (w_redis w) of (x, r) \<Rightarrow> (x, w\<lparr>w_redis := r\<rparr>))"

lemma on_db_iff [eff_simps]:
  "on_db m w = (x, w') \<longleftrightarrow> (\<exists>d. m (w_db w) = (x, d) \<and> w' = w\<lparr>w_db := d\<rparr>)"
  by (auto simp: on_db_def split: prod.splits)

lemma on_redis_iff [eff_simps]:
  "on_redis m w = (x, w') \<longleftrightarrow> (\<exists>r. m (w_redis w) = (x, r) \<and> w' = w\<lparr>w_redis := r\<rparr>)"
  by (auto simp: on_redis_def split: prod.splits)

definition create_run ::
  "time \<Rightarrow> int \<Rightarrow> trigger_type \<Rightarrow> time option \<Rightarrow> int \<Rightarrow> run_status \<Rightarrow> (db, job_run) eff" where
  "create_run now job_id trigger scheduled_for attempt status =
     insert_run now job_id trigger status attempt scheduled_for"

definition publish :: "'r redis_api \<Rightarrow> settings \<Rightarrow> job_run \<Rightarrow> ('r, unit) eff" where
  "publish api cfg run = andthen (enqueue_run api cfg (r_id run)) (\<lambda>_. ret ())"

definition create_and_publish ::
  "'r redis_api \<Rightarrow> settings \<Rightarrow> time \<Rightarrow> int \<Rightarrow> trigger_type \<Rightarrow> int \<Rightarrow> ('r world, job_run) eff" where
  "create_and_publish api cfg now job_id trigger attempt =
     andthen (on_db (create_run now job_id trigger None attempt QUEUED)) (\<lambda>run.
     andthen (on_redis (publish api cfg run)) (\<lambda>_. ret run))"

end
