(* ===== verification/Store.thy ===== *)
theory Store
  imports Dispatch
begin

text \<open>
  \<^verbatim>\<open>backend/worker/store.py\<close>: the transactions of the worker. Each function is
  one transaction (\<^verbatim>\<open>session_scope\<close>): it maps the committed database to the
  committed database, and an exception leaves it unchanged. The reading of the
  clock (\<^verbatim>\<open>_now()\<close>) is an argument.
\<close>

section \<open>Operations\<close>

definition ACTIVE :: "run_status list" where
  "ACTIVE = [PENDING, QUEUED, RUNNING]"

record claimed =
  c_run_id :: int
  c_job_id :: int
  c_attempt :: int
  c_task_type :: string
  c_task_spec :: json_dict
  c_timeout_sec :: int
  c_max_retries :: int
  c_retry_backoff_sec :: int
  c_job_name :: string

definition claim_set :: "time \<Rightarrow> string \<Rightarrow> job_run \<Rightarrow> job_run" where
  "claim_set now worker_id r =
     r\<lparr>r_status := RUNNING, r_started_at := Some now, r_worker_id := Some worker_id\<rparr>"

definition claim_allowed :: "bool \<Rightarrow> run_status list" where
  "claim_allowed allow_running = (if allow_running then ACTIVE else [PENDING, QUEUED])"

definition claim_run ::
  "time \<Rightarrow> int \<Rightarrow> string \<Rightarrow> bool \<Rightarrow> db \<Rightarrow> claimed option \<times> db" where
  "claim_run now run_id worker_id allow_running d =
     (let hit = (\<lambda>r. r_id r = run_id \<and> r_status r \<in> set (claim_allowed allow_running))
      in if filter hit (runs d) = [] then (None, d)
         else let d' = update_runs hit (claim_set now worker_id) d in
           (case get_run_row d' run_id of
              None \<Rightarrow> (None, d')
            | Some run \<Rightarrow>
                (case get_job_row d' (r_job_id run) of
                   None \<Rightarrow> (None, d')
                 | Some job \<Rightarrow>
                     (Some \<lparr>c_run_id = r_id run, c_job_id = r_job_id run,
                            c_attempt = r_attempt run, c_task_type = j_task_type job,
                            c_task_spec = j_task_spec job, c_timeout_sec = j_timeout_sec job,
                            c_max_retries = j_max_retries job,
                            c_retry_backoff_sec = j_retry_backoff_sec job,
                            c_job_name = j_name job\<rparr>, d'))))"

text \<open>\<^verbatim>\<open>ts k\<close> is the clock reading for the row with identifier \<open>k\<close>.\<close>

fun log_rows :: "(int \<Rightarrow> time) \<Rightarrow> int \<Rightarrow> int \<Rightarrow> (log_stream \<times> string) list \<Rightarrow> job_run_log list" where
  "log_rows ts sq run_id [] = []"
| "log_rows ts sq run_id ((s, line) # es) =
     \<lparr>l_id = sq, l_run_id = run_id, l_ts = ts sq, l_stream = s, l_line = line\<rparr>
       # log_rows ts (sq + 1) run_id es"

definition append_logs ::
  "(int \<Rightarrow> time) \<Rightarrow> int \<Rightarrow> (log_stream \<times> string) list \<Rightarrow> (db, unit) eff" where
  "append_logs ts run_id entries d =
     (if entries = [] then (Inr (), d)
      else if run_id \<notin> r_id ` set (runs d) then (Inl IntegrityError, d)
      else (Inr (), d\<lparr>logs := logs d @ log_rows ts (logs_seq d) run_id entries,
                      logs_seq := logs_seq d + int (length entries)\<rparr>))"

definition cancel_set :: "time \<Rightarrow> job_run \<Rightarrow> job_run" where
  "cancel_set now r =
     r\<lparr>r_status := CANCELED, r_finished_at := Some now, r_error := Some ''canceled by user''\<rparr>"

definition store_cancel_run :: "time \<Rightarrow> int \<Rightarrow> db \<Rightarrow> bool \<times> db" where
  "store_cancel_run now run_id d =
     (let hit = (\<lambda>r. r_id r = run_id \<and> r_status r \<in> set ACTIVE)
      in (filter hit (runs d) \<noteq> [], update_runs hit (cancel_set now) d))"

definition is_run_canceled :: "int \<Rightarrow> db \<Rightarrow> bool" where
  "is_run_canceled run_id d \<longleftrightarrow>
     filter (\<lambda>r. r_id r = run_id \<and> r_status r = CANCELED) (runs d) \<noteq> []"

definition finish_set ::
  "time \<Rightarrow> run_status \<Rightarrow> int option \<Rightarrow> json_dict option \<Rightarrow> string option \<Rightarrow> job_run \<Rightarrow> job_run" where
  "finish_set now status exit_code result error r =
     r\<lparr>r_status := status, r_finished_at := Some now, r_exit_code := exit_code,
       r_result := result, r_error := error\<rparr>"

definition finish_run ::
  "time \<Rightarrow> int \<Rightarrow> run_status \<Rightarrow> int option \<Rightarrow> json_dict option \<Rightarrow> string option \<Rightarrow> db \<Rightarrow> db" where
  "finish_run now run_id status exit_code result error d =
     update_runs (\<lambda>r. r_id r = run_id \<and> r_status r \<noteq> CANCELED)
       (finish_set now status exit_code result error) d"

definition create_retry_run :: "time \<Rightarrow> int \<Rightarrow> int \<Rightarrow> (db, int) eff" where
  "create_retry_run now job_id attempt d =
     (case insert_run now job_id RETRY QUEUED attempt None d of
        (Inl e, d') \<Rightarrow> (Inl e, d')
      | (Inr run, d') \<Rightarrow> (Inr (r_id run), d'))"

definition has_dispatched_run :: "db \<Rightarrow> int \<Rightarrow> bool" where
  "has_dispatched_run d job_id \<longleftrightarrow>
     filter (\<lambda>r. r_job_id r = job_id \<and> r_status r \<in> {QUEUED, RUNNING}) (runs d) \<noteq> []"

definition pending_run :: "db \<Rightarrow> int \<Rightarrow> job_run option" where
  "pending_run d job_id =
     first_by (\<lambda>r. (r_created_at r, r_id r))
       (filter (\<lambda>r. r_job_id r = job_id \<and> r_status r = PENDING) (runs d))"

definition dependency_ids :: "db \<Rightarrow> int \<Rightarrow> int list" where
  "dependency_ids d job_id =
     map d_depends_on_job_id (filter (\<lambda>x. d_job_id x = job_id) (deps d))"

definition all_dependencies_succeeded :: "db \<Rightarrow> int \<Rightarrow> bool" where
  "all_dependencies_succeeded d job_id =
     (let dep_ids = fromkeys (dependency_ids d job_id)
      in if dep_ids = [] then True
         else let succeeded = map r_job_id
                    (filter (\<lambda>r. r_job_id r \<in> set dep_ids \<and> r_status r = SUCCEEDED) (runs d))
              in set dep_ids = set succeeded)"

definition dependent_ids :: "db \<Rightarrow> int \<Rightarrow> int list" where
  "dependent_ids d job_id =
     map d_job_id (filter (\<lambda>x. d_depends_on_job_id x = job_id) (deps d))"

definition dependent_ready :: "db \<Rightarrow> int \<Rightarrow> bool" where
  "dependent_ready d dep_job_id =
     (case get_job_row d dep_job_id of
        None \<Rightarrow> False
      | Some job \<Rightarrow>
          if \<not> j_enabled job \<and> pending_run d dep_job_id = None then False
          else if has_dispatched_run d dep_job_id then False
          else all_dependencies_succeeded d dep_job_id)"

definition dependents_ready :: "int \<Rightarrow> db \<Rightarrow> int list" where
  "dependents_ready job_id d = filter (dependent_ready d) (fromkeys (dependent_ids d job_id))"

text \<open>
  \<^verbatim>\<open>create_dependency_run\<close> reads first and writes afterwards; the write that
  promotes a pending run is the ORM's update by primary key.
\<close>

definition promote_pending :: "int \<Rightarrow> db \<Rightarrow> db" where
  "promote_pending run_id = update_runs (\<lambda>r. r_id r = run_id) (\<lambda>r. r\<lparr>r_status := QUEUED\<rparr>)"

definition create_dependency_run :: "time \<Rightarrow> int \<Rightarrow> (db, int option) eff" where
  "create_dependency_run now job_id d =
     (if has_dispatched_run d job_id then (Inr None, d)
      else case pending_run d job_id of
             Some pending \<Rightarrow> (Inr (Some (r_id pending)), promote_pending (r_id pending) d)
           | None \<Rightarrow>
               (case insert_run now job_id DEPENDENCY QUEUED 1 None d of
                  (Inl e, d') \<Rightarrow> (Inl e, d')
                | (Inr run, d') \<Rightarrow> (Inr (Some (r_id run)), d')))"

section \<open>The contract shared by the transactions on runs\<close>

text \<open>
  Every transaction of the system keeps the declared constraints; never reuses
  the identifier of a run; leaves a canceled run exactly as it is (or deletes
  it with its job); never takes a terminal run back to an active status; and
  never takes a started run back to pending or queued.
\<close>

abbreviation is_terminal :: "run_status \<Rightarrow> bool" where
  "is_terminal s \<equiv> s \<in> set TERMINAL"

abbreviation is_waiting :: "run_status \<Rightarrow> bool" where
  "is_waiting s \<equiv> s \<in> {PENDING, QUEUED}"

definition row_ok :: "job_run \<Rightarrow> job_run \<Rightarrow> bool" where
  "row_ok r r' \<longleftrightarrow> (r_status r = CANCELED \<longrightarrow> r' = r) \<and>
     (is_terminal (r_status r) \<longrightarrow> is_terminal (r_status r')) \<and>
     (\<not> is_waiting (r_status r) \<longrightarrow> \<not> is_waiting (r_status r'))"

definition run_ok :: "db \<Rightarrow> db \<Rightarrow> bool" where
  "run_ok d d' \<longleftrightarrow> wf_db d' \<and> runs_seq d \<le> runs_seq d' \<and>
     (\<forall>i < runs_seq d. get_run_row d i = None \<longrightarrow> get_run_row d' i = None) \<and>
     (\<forall>i r r'. get_run_row d i = Some r \<longrightarrow> get_run_row d' i = Some r' \<longrightarrow> row_ok r r')"

lemma run_id_bound: "wf_db d \<Longrightarrow> get_run_row d i = Some r \<Longrightarrow> i < runs_seq d"
  by (fastforce dest: get_run_row_SomeD simp: wf_db_def wf_runs_def keyed_def list_all_iff)

lemma row_ok_refl [simp]: "row_ok r r"
  by (simp add: row_ok_def)

lemma row_ok_trans: "row_ok r r' \<Longrightarrow> row_ok r' r'' \<Longrightarrow> row_ok r r''"
  by (auto simp: row_ok_def)

lemma run_ok_refl: "wf_db d \<Longrightarrow> run_ok d d"
  by (simp add: run_ok_def)

lemma run_ok_trans:
  assumes w: "wf_db d" and 1: "run_ok d d'" and 2: "run_ok d' d''"
  shows "run_ok d d''"
proof -
  have le: "runs_seq d \<le> runs_seq d'" "runs_seq d' \<le> runs_seq d''" and w'': "wf_db d''"
    using 1 2 by (auto simp: run_ok_def)
  have "get_run_row d'' i = None" if "i < runs_seq d" "get_run_row d i = None" for i
    using that 1 2 le by (auto simp: run_ok_def)
  moreover have "row_ok r r''" if r: "get_run_row d i = Some r" and r'': "get_run_row d'' i = Some r''"
    for i r r''
  proof -
    have "i < runs_seq d'" using run_id_bound[OF w r] le by linarith
    then obtain r' where r': "get_run_row d' i = Some r'"
      using 2 r'' by (cases "get_run_row d' i") (auto simp: run_ok_def)
    then have "row_ok r r'" and "row_ok r' r''"
      using 1 2 r r'' by (auto simp: run_ok_def)
    then show ?thesis by (rule row_ok_trans)
  qed
  ultimately show ?thesis using le w'' by (simp add: run_ok_def)
qed

lemma run_ok_update:
  assumes w: "wf_db d" and k: "keeps_keys g"
    and ok: "\<And>r. r \<in> set (runs d) \<Longrightarrow> p r \<Longrightarrow> row_ok r (g r)"
  shows "run_ok d (update_runs p g d)"
  unfolding run_ok_def
  using w k ok by (auto simp: get_run_row_update wf_update_runs dest: get_run_row_SomeD)

lemma run_ok_insert:
  assumes w: "wf_db d"
  shows "run_ok d (snd (insert_run now jid trg st att sf d))"
proof (cases "insert_run now jid trg st att sf d")
  case (Pair x d')
  show ?thesis
  proof (cases x)
    case (Inl e)
    then show ?thesis using Pair insert_run_Inl w by (fastforce simp: run_ok_refl)
  next
    case (Inr r)
    then show ?thesis
      using w Pair wf_insert_run[OF w Pair] get_run_row_insert[OF w Pair[unfolded Inr]]
        insert_run_Inr(2)[OF Pair[unfolded Inr]] run_id_bound[OF w, of "runs_seq d"]
      by (auto simp: run_ok_def)
  qed
qed

locale run_op =
  fixes f :: "db \<Rightarrow> db"
  assumes op_ok: "wf_db d \<Longrightarrow> run_ok d (f d)"
begin

lemma op_wf: "wf_db d \<Longrightarrow> wf_db (f d)"
  using op_ok by (simp add: run_ok_def)

lemma op_canceled:
  "wf_db d \<Longrightarrow> get_run_row d i = Some r \<Longrightarrow> r_status r = CANCELED \<Longrightarrow>
   get_run_row (f d) i = Some r \<or> get_run_row (f d) i = None"
  using op_ok[of d] by (cases "get_run_row (f d) i") (auto simp: run_ok_def row_ok_def)

lemma op_terminal:
  "wf_db d \<Longrightarrow> get_run_row d i = Some r \<Longrightarrow> is_terminal (r_status r) \<Longrightarrow>
   get_run_row (f d) i = Some r' \<Longrightarrow> is_terminal (r_status r')"
  using op_ok[of d] by (auto simp: run_ok_def row_ok_def)

lemma op_started:
  "wf_db d \<Longrightarrow> get_run_row d i = Some r \<Longrightarrow> \<not> is_waiting (r_status r) \<Longrightarrow>
   get_run_row (f d) i = Some r' \<Longrightarrow> \<not> is_waiting (r_status r')"
  using op_ok[of d] by (auto simp: run_ok_def row_ok_def)

text \<open>Iterating the transaction keeps the contract.\<close>

lemma op_funpow: "wf_db d \<Longrightarrow> run_ok d ((f ^^ n) d)"
proof (induction n)
  case 0
  then show ?case by (simp add: run_ok_refl)
next
  case (Suc n)
  then have ih: "run_ok d ((f ^^ n) d)" by simp
  then have "wf_db ((f ^^ n) d)" by (simp add: run_ok_def)
  then have "run_ok ((f ^^ n) d) (f ((f ^^ n) d))" by (rule op_ok)
  with ih Suc.prems show ?case by (auto intro: run_ok_trans)
qed

end

lemma run_op_comp: "run_op f \<Longrightarrow> run_op g \<Longrightarrow> run_op (\<lambda>d. g (f d))"
  unfolding run_op_def by (meson run_ok_def run_ok_trans)

lemma keeps_keys_sets [simp]:
  "keeps_keys (claim_set now w)" "keeps_keys (cancel_set now)"
  "keeps_keys (finish_set now st ec res err)" "keeps_keys (\<lambda>r. r\<lparr>r_status := s\<rparr>)"
  by (auto simp: claim_set_def cancel_set_def finish_set_def)

section \<open>Claiming\<close>

lemmas status_lists = claim_allowed_def ACTIVE_def TERMINAL_def

lemma filter_by_id:
  assumes "wf_db d"
  shows "filter (\<lambda>r. r_id r = i \<and> P r) (runs d) = [] \<longleftrightarrow>
           (\<forall>r. get_run_row d i = Some r \<longrightarrow> \<not> P r)"
  by (auto simp: filter_empty_conv get_run_row_iff[OF assms])

lemma snd_claim_run:
  "snd (claim_run now i w b d) =
     update_runs (\<lambda>r. r_id r = i \<and> r_status r \<in> set (claim_allowed b)) (claim_set now w) d"
proof (cases "filter (\<lambda>r. r_id r = i \<and> r_status r \<in> set (claim_allowed b)) (runs d) = []")
  case True
  then have "update_where (\<lambda>r. r_id r = i \<and> r_status r \<in> set (claim_allowed b)) (claim_set now w) (runs d)
      = runs d"
    by (intro update_where_none) (auto simp: filter_empty_conv)
  then show ?thesis by (simp add: claim_run_def Let_def True update_runs_def)
next
  case False
  then show ?thesis by (simp add: claim_run_def Let_def split: option.splits)
qed

lemma run_ok_claim: "wf_db d \<Longrightarrow> run_ok d (snd (claim_run now i w b d))"
  unfolding snd_claim_run
  by (rule run_ok_update) (auto simp: row_ok_def claim_set_def status_lists split: if_splits)

interpretation claim_op: run_op "\<lambda>d. snd (claim_run now i w b d)" for now i w b
  by unfold_locales (rule run_ok_claim)

definition claimed_of :: "job_run \<Rightarrow> job \<Rightarrow> claimed" where
  "claimed_of r job =
     \<lparr>c_run_id = r_id r, c_job_id = r_job_id r, c_attempt = r_attempt r,
      c_task_type = j_task_type job, c_task_spec = j_task_spec job,
      c_timeout_sec = j_timeout_sec job, c_max_retries = j_max_retries job,
      c_retry_backoff_sec = j_retry_backoff_sec job, c_job_name = j_name job\<rparr>"

lemma claim_run_refused:
  assumes "wf_db d" and "\<And>r. get_run_row d i = Some r \<Longrightarrow> r_status r \<notin> set (claim_allowed b)"
  shows "claim_run now i w b d = (None, d)"
  using assms by (auto simp: claim_run_def filter_by_id)

lemma claim_run_granted:
  assumes w: "wf_db d" and r: "get_run_row d i = Some r" "r_status r \<in> set (claim_allowed b)"
  obtains job where "get_job_row d (r_job_id r) = Some job"
    and "fst (claim_run now i w b d) = Some (claimed_of r job)"
    and "get_run_row (snd (claim_run now i w b d)) i = Some (claim_set now w r)"
proof -
  let ?hit = "\<lambda>r. r_id r = i \<and> r_status r \<in> set (claim_allowed b)"
  obtain job where job: "get_job_row d (r_job_id r) = Some job"
    using wf_db_run_job[OF w] get_run_row_SomeD[OF r(1)] by blast
  have row: "get_run_row (update_runs ?hit (claim_set now w) d) i = Some (claim_set now w r)"
    using r get_run_row_SomeD[OF r(1)] by (simp add: get_run_row_update)
  have "filter ?hit (runs d) \<noteq> []"
    using w r by (simp add: filter_by_id)
  then have "fst (claim_run now i w b d) = Some (claimed_of r job)"
    using row job
    by (simp add: claim_run_def claimed_of_def claim_set_def)
  with job row show thesis by (intro that) (simp_all add: snd_claim_run)
qed

lemma claim_run_cases:
  assumes w: "wf_db d"
  shows "claim_run now i w' b d =
    (case get_run_row d i of
       None \<Rightarrow> (None, d)
     | Some r \<Rightarrow> if r_status r \<in> set (claim_allowed b)
                then (Some (claimed_of r (the (get_job_row d (r_job_id r)))),
                      update_runs (\<lambda>q. r_id q = i \<and> r_status q \<in> set (claim_allowed b)) (claim_set now w') d)
                else (None, d))"
proof (cases "get_run_row d i")
  case None
  have "claim_run now i w' b d = (None, d)"
    by (rule claim_run_refused[OF w]) (simp add: None)
  then show ?thesis using None by simp
next
  case (Some r)
  show ?thesis
  proof (cases "r_status r \<in> set (claim_allowed b)")
    case True
    obtain job where "get_job_row d (r_job_id r) = Some job"
      and "fst (claim_run now i w' b d) = Some (claimed_of r job)"
      by (rule claim_run_granted[OF w Some True, of now w'])
    then show ?thesis using Some True snd_claim_run[of now i w' b d] by (simp add: prod_eq_iff)
  next
    case False
    have "claim_run now i w' b d = (None, d)"
      by (rule claim_run_refused[OF w]) (use False Some in simp)
    then show ?thesis using False Some by simp
  qed
qed

lemma claim_run_not_waiting:
  assumes w: "wf_db d" and c: "claim_run now i wk False d = (Some c, d')"
  shows "\<exists>r. get_run_row d' i = Some r \<and> \<not> is_waiting (r_status r)"
proof -
  have "\<exists>r. get_run_row d i = Some r \<and> r_status r \<in> set (claim_allowed False)"
    using c claim_run_refused[OF w, of i False] by fastforce
  then obtain r where r: "get_run_row d i = Some r" "r_status r \<in> set (claim_allowed False)"
    by blast
  have d': "d' = snd (claim_run now i wk False d)" using c by simp
  from claim_run_granted[OF w r, of now wk]
  have "get_run_row d' i = Some (claim_set now wk r)" unfolding d' .
  then show ?thesis by (simp add: claim_set_def)
qed

section \<open>The other transactions keep the contract\<close>

lemma run_ok_cancel: "wf_db d \<Longrightarrow> run_ok d (snd (store_cancel_run now i d))"
  unfolding store_cancel_run_def Let_def snd_conv
  by (rule run_ok_update) (auto simp: row_ok_def cancel_set_def status_lists)

interpretation cancel_op: run_op "\<lambda>d. snd (store_cancel_run now i d)" for now i
  by unfold_locales (rule run_ok_cancel)

lemma run_ok_finish:
  "is_terminal st \<Longrightarrow> wf_db d \<Longrightarrow> run_ok d (finish_run now i st ec res err d)"
  unfolding finish_run_def
  by (rule run_ok_update) (auto simp: row_ok_def finish_set_def status_lists)

interpretation finish_ok_op: run_op "finish_run now i SUCCEEDED ec res err" for now i ec res err
  by unfold_locales (simp add: run_ok_finish TERMINAL_def)

interpretation finish_failed_op: run_op "finish_run now i FAILED ec res err" for now i ec res err
  by unfold_locales (simp add: run_ok_finish TERMINAL_def)

interpretation finish_timeout_op: run_op "finish_run now i TIMED_OUT ec res err" for now i ec res err
  by unfold_locales (simp add: run_ok_finish TERMINAL_def)

lemma run_ok_retry: "wf_db d \<Longrightarrow> run_ok d (snd (create_retry_run now j att d))"
  using run_ok_insert[of d now j RETRY QUEUED att None]
  by (auto simp: create_retry_run_def split: prod.splits sum.splits)

interpretation retry_op: run_op "\<lambda>d. snd (create_retry_run now j att d)" for now j att
  by unfold_locales (rule run_ok_retry)

lemma pending_run_SomeD:
  "pending_run d j = Some r \<Longrightarrow> r \<in> set (runs d) \<and> r_job_id r = j \<and> r_status r = PENDING"
  unfolding pending_run_def by (drule first_by_SomeD(1)) simp

lemma run_ok_dependency: "wf_db d \<Longrightarrow> run_ok d (snd (create_dependency_run now j d))"
proof -
  assume w: "wf_db d"
  have "run_ok d (promote_pending (r_id r) d)" if r: "pending_run d j = Some r" for r
    unfolding promote_pending_def
  proof (rule run_ok_update[OF w])
    fix q assume "q \<in> set (runs d)" "r_id q = r_id r"
    then have "q = r"
      using pending_run_SomeD[OF r] get_run_row_iff[OF w] by (metis option.inject)
    then show "row_ok q (q\<lparr>r_status := QUEUED\<rparr>)"
      using pending_run_SomeD[OF r] by (simp add: row_ok_def TERMINAL_def)
  qed simp
  then show ?thesis
    using w run_ok_refl[OF w] run_ok_insert[OF w, of now j DEPENDENCY QUEUED 1 None]
    by (auto simp: create_dependency_run_def split: option.splits prod.splits sum.splits)
qed

interpretation dependency_op: run_op "\<lambda>d. snd (create_dependency_run now j d)" for now j
  by unfold_locales (rule run_ok_dependency)

section \<open>Runs that have been started\<close>

text \<open>A started run has left pending and queued for good (or has been deleted).\<close>

definition started :: "db \<Rightarrow> int \<Rightarrow> bool" where
  "started d i \<longleftrightarrow> i < runs_seq d \<and> (\<forall>r. get_run_row d i = Some r \<longrightarrow> \<not> is_waiting (r_status r))"

lemma started_run_ok: "started d i \<Longrightarrow> run_ok d d' \<Longrightarrow> started d' i"
  unfolding started_def run_ok_def row_ok_def
  by (metis (no_types, lifting) not_None_eq order_less_le_trans)

lemma claim_run_started:
  "wf_db d \<Longrightarrow> started d i \<Longrightarrow> claim_run now i w False d = (None, d)"
  by (rule claim_run_refused) (auto simp: started_def claim_allowed_def)

lemma claim_grant_started:
  assumes w: "wf_db d" and c: "claim_run now i wk False d = (Some c, d')"
  shows "started d' i"
proof -
  obtain r where r: "get_run_row d' i = Some r" "\<not> is_waiting (r_status r)"
    using claim_run_not_waiting[OF assms] by blast
  have "wf_db d'" using run_ok_claim[OF w, of now i wk False] c by (simp add: run_ok_def)
  with r show ?thesis using run_id_bound by (auto simp: started_def)
qed

section \<open>Dependencies\<close>

lemma all_dependencies_iff:
  "all_dependencies_succeeded d j \<longleftrightarrow>
     (\<forall>p \<in> set (dependency_ids d j). \<exists>r \<in> set (runs d). r_job_id r = p \<and> r_status r = SUCCEEDED)"
proof -
  let ?A = "set (dependency_ids d j)"
  let ?S = "r_job_id ` {r \<in> set (runs d). r_job_id r \<in> ?A \<and> r_status r = SUCCEEDED}"
  have "all_dependencies_succeeded d j \<longleftrightarrow> ?A = ?S"
    by (auto simp: all_dependencies_succeeded_def Let_def)
  also have "\<dots> \<longleftrightarrow> ?A \<subseteq> ?S" by auto
  finally show ?thesis by (auto simp: subset_iff image_iff)
qed

lemma has_dispatched_iff:
  "has_dispatched_run d j \<longleftrightarrow> (\<exists>r \<in> set (runs d). r_job_id r = j \<and> r_status r \<in> {QUEUED, RUNNING})"
  by (auto simp: has_dispatched_run_def filter_empty_conv)

lemma pending_run_None_iff:
  "pending_run d j = None \<longleftrightarrow> \<not> (\<exists>r \<in> set (runs d). r_job_id r = j \<and> r_status r = PENDING)"
  by (auto simp: pending_run_def filter_empty_conv)

lemma in_dependents_ready:
  "k \<in> set (dependents_ready j d) \<longleftrightarrow> k \<in> set (dependent_ids d j) \<and> dependent_ready d k"
  by (auto simp: dependents_ready_def)

section \<open>Logs\<close>

definition add_logs :: "(int \<Rightarrow> time) \<Rightarrow> int \<Rightarrow> (log_stream \<times> string) list \<Rightarrow> db \<Rightarrow> db" where
  "add_logs ts i es d = d\<lparr>logs := logs d @ log_rows ts (logs_seq d) i es,
                          logs_seq := logs_seq d + int (length es)\<rparr>"

text \<open>The log of a run, as the pairs of stream and line.\<close>

definition run_lines :: "db \<Rightarrow> int \<Rightarrow> (log_stream \<times> string) list" where
  "run_lines d i = map (\<lambda>l. (l_stream l, l_line l)) (filter (\<lambda>l. l_run_id l = i) (logs d))"

lemma log_rows_append:
  "log_rows ts sq i (es @ fs) = log_rows ts sq i es @ log_rows ts (sq + int (length es)) i fs"
  by (induction es arbitrary: sq) (auto simp: algebra_simps)

lemma add_logs_append: "add_logs ts i (es @ fs) d = add_logs ts i fs (add_logs ts i es d)"
  by (simp add: add_logs_def log_rows_append algebra_simps)

lemma add_logs_frame [simp]:
  "users (add_logs ts i es d) = users d" "jobs (add_logs ts i es d) = jobs d"
  "deps (add_logs ts i es d) = deps d" "runs (add_logs ts i es d) = runs d"
  "users_seq (add_logs ts i es d) = users_seq d" "jobs_seq (add_logs ts i es d) = jobs_seq d"
  "deps_seq (add_logs ts i es d) = deps_seq d" "runs_seq (add_logs ts i es d) = runs_seq d"
  by (simp_all add: add_logs_def)

lemma add_logs_Nil [simp]: "add_logs ts i [] d = d"
  by (simp add: add_logs_def)

lemma log_rows_lines:
  "map (\<lambda>l. (l_stream l, l_line l)) (filter (\<lambda>l. l_run_id l = k) (log_rows ts sq i es)) =
     (if k = i then es else [])"
  by (induction es arbitrary: sq) auto

lemma run_lines_add_logs: "run_lines (add_logs ts i es d) k = run_lines d k @ (if k = i then es else [])"
  by (simp add: run_lines_def add_logs_def log_rows_lines)

lemma log_rows_ids: "map l_id (log_rows ts sq i es) = map (\<lambda>n. sq + int n) [0..<length es]"
proof (induction es arbitrary: sq)
  case (Cons e es)
  have "map (\<lambda>n. sq + int n) [0..<Suc (length es)] = sq # map (\<lambda>n. sq + 1 + int n) [0..<length es]"
    by (simp add: upt_conv_Cons map_Suc_upt[symmetric] o_def del: upt_Suc)
  then show ?case using Cons by (cases e) simp
qed simp

lemma log_rows_run: "l \<in> set (log_rows ts sq i es) \<Longrightarrow> l_run_id l = i"
  by (induction es arbitrary: sq) auto

lemma wf_add_logs [wf_rules]:
  assumes w: "wf_db d" and i: "i \<in> r_id ` set (runs d)"
  shows "wf_db (add_logs ts i es d)"
proof -
  have ids: "l_id ` set (log_rows ts (logs_seq d) i es) = (\<lambda>n. logs_seq d + int n) ` {0..<length es}"
    by (metis log_rows_ids list.set_map set_upt)
  have lt: "\<forall>l \<in> set (logs d). l_id l < logs_seq d"
    using w by (auto simp: wf_db_def wf_logs_def keyed_def list_all_iff)
  have "keyed l_id (logs_seq d + int (length es)) (logs d @ log_rows ts (logs_seq d) i es)"
  proof -
    have "distinct (map l_id (log_rows ts (logs_seq d) i es))"
      unfolding log_rows_ids by (simp add: distinct_map inj_on_def)
    moreover have "l_id ` set (logs d) \<inter> l_id ` set (log_rows ts (logs_seq d) i es) = {}"
      unfolding ids using lt by fastforce
    moreover have "\<forall>l \<in> set (log_rows ts (logs_seq d) i es). l_id l < logs_seq d + int (length es)"
    proof
      fix l assume "l \<in> set (log_rows ts (logs_seq d) i es)"
      then have "l_id l \<in> (\<lambda>n. logs_seq d + int n) ` {0..<length es}"
        unfolding ids[symmetric] by (rule imageI)
      then show "l_id l < logs_seq d + int (length es)" by auto
    qed
    ultimately show ?thesis
      using w lt by (fastforce simp: wf_db_def wf_logs_def keyed_def list_all_iff)
  qed
  then show ?thesis
    using w i log_rows_run by (fastforce simp: wf_db_def wf_logs_def add_logs_def)
qed

lemma get_run_row_add_logs [simp]: "get_run_row (add_logs ts k es d) i = get_run_row d i"
  by (simp add: get_run_row_def)

lemma append_logs_eq:
  "append_logs ts i es d =
     (if es = [] then (Inr (), d)
      else if i \<notin> r_id ` set (runs d) then (Inl IntegrityError, d) else (Inr (), add_logs ts i es d))"
  by (simp add: append_logs_def add_logs_def)

lemma run_ok_append_logs: "wf_db d \<Longrightarrow> run_ok d (snd (append_logs ts i es d))"
  by (auto simp: append_logs_eq run_ok_def wf_add_logs)

interpretation logs_op: run_op "\<lambda>d. snd (append_logs ts i es d)" for ts i es
  by unfold_locales (rule run_ok_append_logs)

section \<open>Effect of creating a dependency run\<close>

lemma has_dispatched_rows:
  "wf_db d \<Longrightarrow> has_dispatched_run d j \<longleftrightarrow>
     (\<exists>i r. get_run_row d i = Some r \<and> r_job_id r = j \<and> r_status r \<in> {QUEUED, RUNNING})"
  by (auto simp: has_dispatched_iff get_run_row_iff)

lemma promote_pending_row:
  "get_run_row (promote_pending i d) k =
     (if k = i then map_option (\<lambda>r. r\<lparr>r_status := QUEUED\<rparr>) (get_run_row d k) else get_run_row d k)"
proof -
  have "r_id r = k" if "get_run_row d k = Some r" for r
    using get_run_row_SomeD[OF that] by simp
  then show ?thesis
    by (cases "get_run_row d k") (auto simp: promote_pending_def get_run_row_update)
qed

lemma promote_pending_frame [simp]: "jobs (promote_pending i d) = jobs d"
  by (simp add: promote_pending_def)

lemma create_dependency_effect:
  assumes w: "wf_db d" and nd: "\<not> has_dispatched_run d j" and job: "j \<in> j_id ` set (jobs d)"
  obtains i d' r where "create_dependency_run now j d = (Inr (Some i), d')"
    and "get_run_row d' i = Some r" and "r_job_id r = j" and "r_status r = QUEUED"
    and "\<And>k. k \<noteq> i \<Longrightarrow> get_run_row d' k = get_run_row d k"
    and "\<And>q. get_run_row d i = Some q \<Longrightarrow> r_job_id q = j \<and> r_status q = PENDING"
    and "jobs d' = jobs d"
proof (cases "pending_run d j")
  case (Some p)
  have p: "get_run_row d (r_id p) = Some p" "r_job_id p = j" "r_status p = PENDING"
    using pending_run_SomeD[OF Some] by (auto simp: get_run_row_iff[OF w])
  show thesis
  proof (rule that)
    show "create_dependency_run now j d = (Inr (Some (r_id p)), promote_pending (r_id p) d)"
      using Some nd by (simp add: create_dependency_run_def)
    show "get_run_row (promote_pending (r_id p) d) (r_id p) = Some (p\<lparr>r_status := QUEUED\<rparr>)"
      using p by (simp add: promote_pending_row)
  qed (use p in \<open>auto simp: promote_pending_row\<close>)
next
  case None
  obtain r d' where ins: "insert_run now j DEPENDENCY QUEUED 1 None d = (Inr r, d')"
    using insert_run_untimed[OF job] by blast
  note I = insert_run_Inr[OF ins] and G = get_run_row_insert[OF w ins]
  have rid: "r_id r = runs_seq d" "r_job_id r = j" "r_status r = QUEUED"
    by (simp_all add: I(1))
  show thesis
  proof (rule that)
    show "create_dependency_run now j d = (Inr (Some (runs_seq d)), d')"
      using None nd ins rid by (simp add: create_dependency_run_def)
    show "get_run_row d' (runs_seq d) = Some r" using G by simp
    show "r_job_id q = j \<and> r_status q = PENDING" if "get_run_row d (runs_seq d) = Some q" for q
      using run_id_bound[OF w that] by simp
  qed (use rid I(2) G in auto)
qed


section \<open>Properties of the transactions\<close>

text \<open>
  What a claim does, on every branch. A run in an allowed status moves
  to running with the claimer's name and time, every other run stays as it is,
  and the payload is the run's and its job's data; otherwise (missing run, or
  another status) the answer is \<^verbatim>\<open>None\<close> and nothing changes.
\<close>

lemma claim_run_spec:
  assumes "wf_db d"
  shows "(\<forall>r. get_run_row d i = Some r \<longrightarrow> r_status r \<in> set (claim_allowed b) \<longrightarrow>
            (\<exists>job d'. get_job_row d (r_job_id r) = Some job \<and>
               claim_run now i wk b d = (Some (claimed_of r job), d') \<and>
               get_run_row d' i = Some (claim_set now wk r) \<and>
               (\<forall>k. k \<noteq> i \<longrightarrow> get_run_row d' k = get_run_row d k))) \<and>
         ((\<forall>r. get_run_row d i = Some r \<longrightarrow> r_status r \<notin> set (claim_allowed b)) \<longrightarrow>
            claim_run now i wk b d = (None, d))"
proof (intro conjI allI impI)
  fix r assume r: "get_run_row d i = Some r" "r_status r \<in> set (claim_allowed b)"
  obtain job where job: "get_job_row d (r_job_id r) = Some job"
      "fst (claim_run now i wk b d) = Some (claimed_of r job)"
      "get_run_row (snd (claim_run now i wk b d)) i = Some (claim_set now wk r)"
    by (rule claim_run_granted[OF assms r, where now = now and w = wk])
  have "get_run_row (snd (claim_run now i wk b d)) k = get_run_row d k" if "k \<noteq> i" for k
    using that get_run_row_SomeD[of d k]
    by (cases "get_run_row d k") (auto simp: snd_claim_run get_run_row_update)
  with job show "\<exists>job d'. get_job_row d (r_job_id r) = Some job \<and>
      claim_run now i wk b d = (Some (claimed_of r job), d') \<and>
      get_run_row d' i = Some (claim_set now wk r) \<and> (\<forall>k. k \<noteq> i \<longrightarrow> get_run_row d' k = get_run_row d k)"
    by (intro exI[of _ job] exI[of _ "snd (claim_run now i wk b d)"]) (simp add: prod_eq_iff)
qed (rule claim_run_refused[OF assms], simp)

text \<open>
  Claim C33: the fan-out set. A job is reported ready after \<open>j\<close> succeeded exactly
  when it depends on \<open>j\<close>, is enabled or has a pending run waiting, has no queued
  or running run, and every job it depends on has some succeeded run. No job is
  reported twice.
\<close>

theorem dependents_ready_exact:
  assumes "wf_db d"
  shows "distinct (dependents_ready j d) \<and>
    (k \<in> set (dependents_ready j d) \<longleftrightarrow>
      (\<exists>x \<in> set (deps d). d_depends_on_job_id x = j \<and> d_job_id x = k) \<and>
      (\<exists>job \<in> set (jobs d). j_id job = k \<and>
         (j_enabled job \<or> (\<exists>r \<in> set (runs d). r_job_id r = k \<and> r_status r = PENDING))) \<and>
      \<not> (\<exists>r \<in> set (runs d). r_job_id r = k \<and> (r_status r = QUEUED \<or> r_status r = RUNNING)) \<and>
      (\<forall>x \<in> set (deps d). d_job_id x = k \<longrightarrow>
         (\<exists>r \<in> set (runs d). r_job_id r = d_depends_on_job_id x \<and> r_status r = SUCCEEDED)))"
proof -
  have "dependent_ready d k \<longleftrightarrow> (\<exists>job. get_job_row d k = Some job \<and> (j_enabled job \<or> pending_run d k \<noteq> None) \<and>
      \<not> has_dispatched_run d k \<and> all_dependencies_succeeded d k)"
    by (auto simp: dependent_ready_def split: option.splits)
  then show ?thesis
    by (auto simp: in_dependents_ready dependents_ready_def dependent_ids_def get_job_row_iff[OF assms]
        pending_run_None_iff has_dispatched_iff all_dependencies_iff dependency_ids_def image_iff)
qed

theorem dependents_ready_exact_witness:
  "2 \<in> set (dependents_ready 1 (finish_run 7 1 SUCCEEDED (Some 0) None None sample_db))"
proof -
  have "wf_db (finish_run 7 1 SUCCEEDED (Some 0) None None sample_db)"
    by (rule finish_ok_op.op_wf[OF sample_wf])
  from dependents_ready_exact[OF this, of 1 2] show ?thesis
    by (simp add: sample_defs finish_run_def update_runs_def finish_set_def)
qed

text \<open>
  At most one dispatched run per job from fan-out. If the job already
  has a queued or running run, \<^verbatim>\<open>create_dependency_run\<close> changes nothing. Otherwise
  it leaves one queued run of the job, the oldest pending one when there is one
  and a new dependency run otherwise, all other runs as they were, and repeating
  the call changes nothing any more.
\<close>

lemma create_dependency_run_once:
  assumes w: "wf_db d" and job: "j \<in> j_id ` set (jobs d)"
  shows "(has_dispatched_run d j \<longrightarrow> create_dependency_run now j d = (Inr None, d)) \<and>
    (\<not> has_dispatched_run d j \<longrightarrow>
       (\<exists>i d' r. create_dependency_run now j d = (Inr (Some i), d') \<and>
          get_run_row d' i = Some r \<and> r_job_id r = j \<and> r_status r = QUEUED \<and>
          (\<forall>k. k \<noteq> i \<longrightarrow> get_run_row d' k = get_run_row d k) \<and>
          (\<forall>p \<in> set (runs d). r_job_id p = j \<and> r_status p = PENDING \<longrightarrow>
             (\<exists>q. get_run_row d i = Some q \<and> r_status q = PENDING \<and>
                  (r_created_at q, r_id q) \<le> (r_created_at p, r_id p))) \<and>
          create_dependency_run now' j d' = (Inr None, d')))"
proof (intro conjI impI)
  assume "has_dispatched_run d j"
  then show "create_dependency_run now j d = (Inr None, d)" by (simp add: create_dependency_run_def)
next
  assume nd: "\<not> has_dispatched_run d j"
  obtain i d' r where cd: "create_dependency_run now j d = (Inr (Some i), d')"
    and row: "get_run_row d' i = Some r" "r_job_id r = j" "r_status r = QUEUED"
    and oth: "\<And>k. k \<noteq> i \<Longrightarrow> get_run_row d' k = get_run_row d k"
    by (rule create_dependency_effect[OF w nd job, where now = now]) blast
  have "wf_db d'" using dependency_op.op_wf[OF w, of now j] cd by simp
  then have "has_dispatched_run d' j" using row by (auto simp: has_dispatched_rows)
  then have again: "create_dependency_run now' j d' = (Inr None, d')" by (simp add: create_dependency_run_def)
  have "\<exists>q. get_run_row d i = Some q \<and> r_status q = PENDING \<and> (r_created_at q, r_id q) \<le> (r_created_at p, r_id p)"
    if p: "p \<in> set (runs d)" "r_job_id p = j" "r_status p = PENDING" for p
  proof -
    obtain q where q: "pending_run d j = Some q" using p by (metis not_None_eq pending_run_None_iff)
    have "i = r_id q" using cd nd q by (simp add: create_dependency_run_def)
    moreover have "(r_created_at q, r_id q) \<le> (r_created_at p, r_id p)"
      using first_by_SomeD(2)[OF q[unfolded pending_run_def]] p by auto
    ultimately show ?thesis using pending_run_SomeD[OF q] get_run_row_iff[OF w] by auto
  qed
  with cd row oth again show "\<exists>i d' r. create_dependency_run now j d = (Inr (Some i), d') \<and>
      get_run_row d' i = Some r \<and> r_job_id r = j \<and> r_status r = QUEUED \<and>
      (\<forall>k. k \<noteq> i \<longrightarrow> get_run_row d' k = get_run_row d k) \<and>
      (\<forall>p \<in> set (runs d). r_job_id p = j \<and> r_status p = PENDING \<longrightarrow>
         (\<exists>q. get_run_row d i = Some q \<and> r_status q = PENDING \<and>
              (r_created_at q, r_id q) \<le> (r_created_at p, r_id p))) \<and>
      create_dependency_run now' j d' = (Inr None, d')"
    by blast
qed

end
