(* ===== verification/Runner.thy ===== *)
theory Runner
  imports Store
begin

text \<open>
  \<^verbatim>\<open>backend/worker/runner.py\<close> with \<^verbatim>\<open>executors/base.py\<close>, \<^verbatim>\<open>executors/retry.py\<close> and
  the registry of \<^verbatim>\<open>executors/__init__.py\<close>: one claimed run end to end. The
  executor itself is an argument: the lines it logs and how it ends (a result,
  an exception, or cancellation). Clock readings are arguments.
\<close>

section \<open>Retry policy (executors/retry.py)\<close>

definition should_retry :: "int \<Rightarrow> int \<Rightarrow> bool" where
  "should_retry attempt max_retries \<longleftrightarrow> attempt \<le> max_retries"

definition backoff_seconds :: "settings \<Rightarrow> int \<Rightarrow> int \<Rightarrow> int" where
  "backoff_seconds cfg attempt base_sec =
     (let cap = retry_backoff_max_sec cfg in
      if base_sec \<le> 0 then 0
      else let delay = base_sec * 2 ^ nat (max 0 (attempt - 1)) in min delay cap)"

section \<open>Results and the executor registry (executors/base.py, executors/__init__.py)\<close>

record exec_result =
  x_status :: run_status
  x_exit_code :: "int option"
  x_result :: "json_dict option"
  x_error :: "string option"

definition succeeded :: "exec_result \<Rightarrow> bool" where
  "succeeded x \<longleftrightarrow> x_status x = SUCCEEDED"

definition ExecResult_ok :: "int option \<Rightarrow> json_dict option \<Rightarrow> exec_result" where
  "ExecResult_ok ec res = \<lparr>x_status = SUCCEEDED, x_exit_code = ec, x_result = res, x_error = None\<rparr>"

definition ExecResult_failed :: "string \<Rightarrow> int option \<Rightarrow> json_dict option \<Rightarrow> exec_result" where
  "ExecResult_failed err ec res =
     \<lparr>x_status = FAILED, x_exit_code = ec, x_result = res, x_error = Some err\<rparr>"

definition ExecResult_timed_out :: "string \<Rightarrow> int option \<Rightarrow> json_dict option \<Rightarrow> exec_result" where
  "ExecResult_timed_out err ec res =
     \<lparr>x_status = TIMED_OUT, x_exit_code = ec, x_result = res, x_error = Some err\<rparr>"

datatype executor = HttpExec | ShellExec | HttpAsyncExec

definition REGISTRY :: "(string \<times> executor) list" where
  "REGISTRY = [(TaskType_HTTP, HttpExec), (TaskType_SHELL, ShellExec), (TaskType_HTTP_ASYNC, HttpAsyncExec)]"

definition no_executor_msg :: "string \<Rightarrow> string" where
  "no_executor_msg task_type =
     ''no executor registered for task_type '' @ [CHR 0x27] @ task_type @ [CHR 0x27]"

definition get_executor :: "string \<Rightarrow> executor option" where
  "get_executor task_type = map_of REGISTRY task_type"

text \<open>How an executor ends: with a result, with an exception (its text), or canceled.\<close>

datatype outcome = Returned exec_result | Crashed string | Canceled

text \<open>
  The environment of a run: the executors, the text of an exception, and the
  transactions that other processes commit while the executor is at work.
\<close>

record exec_env =
  ex_run :: "executor \<Rightarrow> json_dict \<Rightarrow> int \<Rightarrow> (log_stream \<times> string) list \<times> outcome"
  ex_text :: "exn \<Rightarrow> string"
  ex_meanwhile :: "db \<Rightarrow> db"

section \<open>LogBuffer\<close>

definition FLUSH_EVERY :: nat where "FLUSH_EVERY = 25"

record log_buffer =
  lb_run_id :: int
  lb_buf :: "(log_stream \<times> string) list"

definition log_flush :: "(int \<Rightarrow> time) \<Rightarrow> (log_buffer \<times> db, unit) eff" where
  "log_flush ts s =
     (case s of (lb, d) \<Rightarrow>
        if lb_buf lb = [] then (Inr (), (lb, d))
        else (case append_logs ts (lb_run_id lb) (lb_buf lb) d of
                (x, d') \<Rightarrow> (x, (lb\<lparr>lb_buf := []\<rparr>, d'))))"

definition log_write :: "(int \<Rightarrow> time) \<Rightarrow> log_stream \<Rightarrow> string \<Rightarrow> (log_buffer \<times> db, unit) eff" where
  "log_write ts stream line s =
     (case s of (lb, d) \<Rightarrow>
        let lb' = lb\<lparr>lb_buf := lb_buf lb @ [(stream, line)]\<rparr>
        in if FLUSH_EVERY \<le> length (lb_buf lb') then log_flush ts (lb', d) else (Inr (), (lb', d)))"

section \<open>process_run\<close>

definition RETRYABLE :: "run_status list" where
  "RETRYABLE = [FAILED, TIMED_OUT]"

text \<open>Clock readings of one call, by the row they are written to.\<close>

record clock =
  ck_claim :: time
  ck_log :: "int \<Rightarrow> time"
  ck_finish :: time
  ck_create :: "int \<Rightarrow> time"
  ck_time :: time

definition opt_str :: "string option \<Rightarrow> string" where
  "opt_str x = (case x of None \<Rightarrow> ''None'' | Some s \<Rightarrow> s)"

definition retry_error :: "exec_result \<Rightarrow> int \<Rightarrow> int \<Rightarrow> int \<Rightarrow> int \<Rightarrow> string" where
  "retry_error result attempt max_retries delay new_id =
     opt_str (x_error result) @ '' (retry '' @ int_str (attempt + 1) @ ''/'' @ int_str max_retries
       @ '' scheduled in '' @ int_str delay @ ''s as run '' @ int_str new_id @ '')''"

definition dispatch_dependent ::
  "'r redis_api \<Rightarrow> settings \<Rightarrow> clock \<Rightarrow> int \<Rightarrow> ('r world, unit) eff" where
  "dispatch_dependent api cfg ck dep_job_id w =
     andthen (on_db (create_dependency_run (ck_create ck (runs_seq (w_db w))) dep_job_id)) (\<lambda>new_id.
       case new_id of
         None \<Rightarrow> ret ()
       | Some i \<Rightarrow> andthen (on_redis (enqueue_run_async api cfg i)) (\<lambda>_. ret ())) w"

definition on_success ::
  "'r redis_api \<Rightarrow> settings \<Rightarrow> clock \<Rightarrow> claimed \<Rightarrow> exec_result \<Rightarrow> ('r world, unit) eff" where
  "on_success api cfg ck c result w =
     (if is_run_canceled (c_run_id c) (w_db w) then (Inr (), w)
      else let d1 = finish_run (ck_finish ck) (c_run_id c) SUCCEEDED
                      (x_exit_code result) (x_result result) None (w_db w)
           in for_each (dependents_ready (c_job_id c) d1) (dispatch_dependent api cfg ck) (w\<lparr>w_db := d1\<rparr>))"

definition on_failure ::
  "'r redis_api \<Rightarrow> settings \<Rightarrow> clock \<Rightarrow> claimed \<Rightarrow> exec_result \<Rightarrow> ('r world, unit) eff" where
  "on_failure api cfg ck c result w =
     (if is_run_canceled (c_run_id c) (w_db w) then (Inr (), w)
      else if x_status result \<in> set RETRYABLE \<and> should_retry (c_attempt c) (c_max_retries c) then
        let delay = backoff_seconds cfg (c_attempt c) (c_retry_backoff_sec c) in
        andthen (on_db (create_retry_run (ck_create ck (runs_seq (w_db w))) (c_job_id c) (c_attempt c + 1))) (\<lambda>new_id.
        andthen (on_redis (schedule_delayed_async api cfg new_id (ck_time ck + sec delay))) (\<lambda>_.
        on_db (\<lambda>d. (Inr (), finish_run (ck_finish ck) (c_run_id c) (x_status result)
                     (x_exit_code result) (x_result result)
                     (Some (retry_error result (c_attempt c) (c_max_retries c) delay new_id)) d)))) w
      else (Inr (), w\<lparr>w_db := finish_run (ck_finish ck) (c_run_id c) (x_status result)
                     (x_exit_code result) (x_result result) (x_error result) (w_db w)\<rparr>))"

text \<open>
  The \<^verbatim>\<open>try\<close> block: look the executor up, run it with \<^verbatim>\<open>logs.write\<close> as its sink.
  A failing write surfaces in the executor as an exception.
\<close>

definition run_executor ::
  "exec_env \<Rightarrow> clock \<Rightarrow> claimed \<Rightarrow> log_buffer \<times> db \<Rightarrow> outcome \<times> log_buffer \<times> db" where
  "run_executor env ck c s =
     (case get_executor (c_task_type c) of
        None \<Rightarrow> (Crashed (no_executor_msg (c_task_type c)), s)
      | Some e \<Rightarrow>
          (case ex_run env e (c_task_spec c) (c_timeout_sec c) of (lines, out) \<Rightarrow>
             (case for_each lines (\<lambda>(stream, line). log_write (ck_log ck) stream line) s of
                (Inl err, (lb, d)) \<Rightarrow> (Crashed (ex_text env err), (lb, ex_meanwhile env d))
              | (Inr _, (lb, d)) \<Rightarrow> (out, (lb, ex_meanwhile env d)))))"

text \<open>The handlers of the \<^verbatim>\<open>try\<close> and the flush after it: the result, or an exception.\<close>

definition supervise ::
  "exec_env \<Rightarrow> clock \<Rightarrow> claimed \<Rightarrow> (log_buffer \<times> db, exec_result) eff" where
  "supervise env ck c s =
     (case run_executor env ck c s of
        (Canceled, s') \<Rightarrow>
          andthen (log_write (ck_log ck) SYSTEM ''run canceled; stopping executor'') (\<lambda>_.
          andthen (log_flush (ck_log ck)) (\<lambda>_. throw CancelledError)) s'
      | (Crashed msg, s') \<Rightarrow>
          andthen (log_write (ck_log ck) SYSTEM (''executor crashed: '' @ msg)) (\<lambda>_.
          andthen (log_flush (ck_log ck)) (\<lambda>_.
          ret (ExecResult_failed (''executor crashed: '' @ msg) None None))) s'
      | (Returned result, s') \<Rightarrow> andthen (log_flush (ck_log ck)) (\<lambda>_. ret result) s')"

definition process_run ::
  "'r redis_api \<Rightarrow> settings \<Rightarrow> exec_env \<Rightarrow> clock \<Rightarrow> int \<Rightarrow> bool \<Rightarrow> string \<Rightarrow> ('r world, unit) eff" where
  "process_run api cfg env ck run_id allow_running worker_id w =
     (case claim_run (ck_claim ck) run_id worker_id allow_running (w_db w) of
        (None, d1) \<Rightarrow> (Inr (), w\<lparr>w_db := d1\<rparr>)
      | (Some c, d1) \<Rightarrow>
          (case supervise env ck c (\<lparr>lb_run_id = run_id, lb_buf = []\<rparr>, d1) of
             (Inl e, (_, d2)) \<Rightarrow> (Inl e, w\<lparr>w_db := d2\<rparr>)
           | (Inr result, (_, d2)) \<Rightarrow>
               if succeeded result then on_success api cfg ck c result (w\<lparr>w_db := d2\<rparr>)
               else on_failure api cfg ck c result (w\<lparr>w_db := d2\<rparr>)))"

section \<open>Lemmas on the log buffer\<close>

definition lb_ok :: "log_buffer \<Rightarrow> db \<Rightarrow> bool" where
  "lb_ok lb d \<longleftrightarrow> length (lb_buf lb) < FLUSH_EVERY \<and> lb_run_id lb \<in> r_id ` set (runs d)"

lemma log_flush_ok:
  "lb_run_id lb \<in> r_id ` set (runs d) \<Longrightarrow>
   log_flush ts (lb, d) = (Inr (), (lb\<lparr>lb_buf := []\<rparr>, add_logs ts (lb_run_id lb) (lb_buf lb) d))"
  by (cases "lb_buf lb") (auto simp: log_flush_def append_logs_eq)

lemma log_write_ok:
  assumes "lb_ok lb d"
  shows "\<exists>es buf. log_write ts s l (lb, d) = (Inr (), (lb\<lparr>lb_buf := buf\<rparr>, add_logs ts (lb_run_id lb) es d)) \<and>
     es @ buf = lb_buf lb @ [(s, l)] \<and> length buf < FLUSH_EVERY"
proof (cases "FLUSH_EVERY \<le> length (lb_buf lb @ [(s, l)])")
  case True
  then show ?thesis using assms
    by (intro exI[of _ "lb_buf lb @ [(s, l)]"] exI[of _ "[]"])
      (simp add: log_write_def log_flush_ok lb_ok_def FLUSH_EVERY_def)
next
  case False
  then show ?thesis using assms
    by (intro exI[of _ "[]"] exI[of _ "lb_buf lb @ [(s, l)]"]) (simp add: log_write_def)
qed

lemma log_writes_ok:
  assumes "lb_ok lb d"
  shows "\<exists>es buf. for_each lines (\<lambda>(s, l). log_write ts s l) (lb, d) =
      (Inr (), (lb\<lparr>lb_buf := buf\<rparr>, add_logs ts (lb_run_id lb) es d)) \<and>
     es @ buf = lb_buf lb @ lines \<and> length buf < FLUSH_EVERY"
  using assms
proof (induction lines arbitrary: lb d)
  case Nil
  then show ?case
    by (intro exI[of _ "[]"] exI[of _ "lb_buf lb"]) (simp add: ret_def lb_ok_def)
next
  case (Cons e lines)
  obtain s l where e: "e = (s, l)" by (cases e)
  obtain es1 buf1 where 1: "log_write ts s l (lb, d) =
      (Inr (), (lb\<lparr>lb_buf := buf1\<rparr>, add_logs ts (lb_run_id lb) es1 d))"
    and eq1: "es1 @ buf1 = lb_buf lb @ [(s, l)]" and len1: "length buf1 < FLUSH_EVERY"
    using log_write_ok[OF Cons.prems] by blast
  have "lb_ok (lb\<lparr>lb_buf := buf1\<rparr>) (add_logs ts (lb_run_id lb) es1 d)"
    using Cons.prems len1 by (simp add: lb_ok_def)
  from Cons.IH[OF this] obtain es2 buf2 where
    2: "for_each lines (\<lambda>(s, l). log_write ts s l) (lb\<lparr>lb_buf := buf1\<rparr>, add_logs ts (lb_run_id lb) es1 d) =
      (Inr (), (lb\<lparr>lb_buf := buf2\<rparr>, add_logs ts (lb_run_id lb) es2 (add_logs ts (lb_run_id lb) es1 d)))"
    and eq2: "es2 @ buf2 = buf1 @ lines" and len2: "length buf2 < FLUSH_EVERY"
    by auto
  have "(es1 @ es2) @ buf2 = lb_buf lb @ e # lines"
    using eq1 eq2 e by (metis append.assoc append_Cons append_Nil)
  then show ?case
    using 1 2 e len2 by (intro exI[of _ "es1 @ es2"] exI[of _ buf2]) (simp add: andthen_def add_logs_append)
qed

text \<open>Writing lines and flushing stores exactly these lines, in order.\<close>

lemma log_writes_flush:
  assumes "lb_ok lb d"
  shows "andthen (for_each lines (\<lambda>(s, l). log_write ts s l)) (\<lambda>_. log_flush ts) (lb, d) =
     (Inr (), (lb\<lparr>lb_buf := []\<rparr>, add_logs ts (lb_run_id lb) (lb_buf lb @ lines) d))"
proof -
  obtain es buf where 1: "for_each lines (\<lambda>(s, l). log_write ts s l) (lb, d) =
      (Inr (), (lb\<lparr>lb_buf := buf\<rparr>, add_logs ts (lb_run_id lb) es d))"
    and eq: "es @ buf = lb_buf lb @ lines"
    using log_writes_ok[OF assms] by blast
  have "log_flush ts (lb\<lparr>lb_buf := buf\<rparr>, add_logs ts (lb_run_id lb) es d) =
      (Inr (), (lb\<lparr>lb_buf := []\<rparr>, add_logs ts (lb_run_id lb) (es @ buf) d))"
    using assms by (subst log_flush_ok) (simp_all add: lb_ok_def add_logs_append)
  with 1 eq show ?thesis by (simp add: andthen_def)
qed

section \<open>What the runner does to the database\<close>

text \<open>
  A relation on databases that is a preorder and holds between the states before
  and after each transaction of the worker store: the runner is a client of these
  transactions only, so on every path the relation holds for the whole run.
\<close>

definition on_buf :: "(db \<Rightarrow> db \<Rightarrow> bool) \<Rightarrow> log_buffer \<times> db \<Rightarrow> log_buffer \<times> db \<Rightarrow> bool" where
  "on_buf R s s' \<longleftrightarrow> R (snd s) (snd s')"

definition on_world :: "(db \<Rightarrow> db \<Rightarrow> bool) \<Rightarrow> 'r world \<Rightarrow> 'r world \<Rightarrow> bool" where
  "on_world R w w' \<longleftrightarrow> R (w_db w) (w_db w')"

text \<open>The executors end in one of the results of \<^verbatim>\<open>ExecResult\<close>.\<close>

definition results_ok :: "exec_env \<Rightarrow> bool" where
  "results_ok env \<longleftrightarrow> (\<forall>e spec t lines x. ex_run env e spec t = (lines, Returned x) \<longrightarrow>
     x_status x \<in> {SUCCEEDED, FAILED, TIMED_OUT})"

lemma run_executor_result:
  "results_ok env \<Longrightarrow> run_executor env ck c s = (Returned x, s') \<Longrightarrow> x_status x \<in> {SUCCEEDED, FAILED, TIMED_OUT}"
  unfolding results_ok_def run_executor_def
  by (auto split: option.splits prod.splits sum.splits)

lemma supervise_result:
  "results_ok env \<Longrightarrow> supervise env ck c s = (Inr x, s') \<Longrightarrow> x_status x \<in> {SUCCEEDED, FAILED, TIMED_OUT}"
  by (auto simp: supervise_def andthen_value ExecResult_failed_def
      dest: run_executor_result split: prod.splits outcome.splits)

locale store_rel =
  fixes R :: "db \<Rightarrow> db \<Rightarrow> bool"
  assumes db_refl: "R d d"
    and db_trans: "R d d' \<Longrightarrow> R d' d'' \<Longrightarrow> R d d''"
    and db_claim: "R d (snd (claim_run now i w b d))"
    and db_logs: "R d (snd (append_logs ts i es d))"
    and db_finish: "st \<in> {SUCCEEDED, FAILED, TIMED_OUT} \<Longrightarrow> R d (finish_run now i st ec res err d)"
    and db_retry: "R d (snd (create_retry_run now j att d))"
    and db_dependency: "R d (snd (create_dependency_run now j d))"

sublocale store_rel \<subseteq> buf_eff: eff_preorder "on_buf R"
  by unfold_locales (auto simp: on_buf_def db_refl intro: db_trans)

sublocale store_rel \<subseteq> world_eff: eff_preorder "on_world R"
  by unfold_locales (auto simp: on_world_def db_refl intro: db_trans)

context store_rel
begin

lemma keeps_on_db: "(\<And>d. R d (snd (m d))) \<Longrightarrow> keeps (on_world R) (on_db m)"
  by (rule keepsI) (simp add: on_world_def on_db_def split_beta)

lemma keeps_on_redis: "keeps (on_world R) (on_redis m)"
  by (rule keepsI) (simp add: on_world_def on_redis_def db_refl split: prod.splits)

lemma keeps_log_flush: "keeps (on_buf R) (log_flush ts)"
proof (rule keepsI)
  fix s :: "log_buffer \<times> db"
  show "on_buf R s (snd (log_flush ts s))"
    using db_logs[of "snd s" ts "lb_run_id (fst s)" "lb_buf (fst s)"]
    by (cases s) (auto simp: on_buf_def log_flush_def db_refl split: prod.splits)
qed

lemma keeps_log_write: "keeps (on_buf R) (log_write ts st l)"
proof (rule keepsI)
  fix s :: "log_buffer \<times> db"
  obtain lb d where s: "s = (lb, d)" by (cases s)
  have "on_buf R (lb\<lparr>lb_buf := lb_buf lb @ [(st, l)]\<rparr>, d)
          (snd (log_flush ts (lb\<lparr>lb_buf := lb_buf lb @ [(st, l)]\<rparr>, d)))"
    using keeps_log_flush by (simp add: keeps_def)
  then show "on_buf R s (snd (log_write ts st l s))"
    by (simp add: s on_buf_def log_write_def db_refl Let_def)
qed

lemma run_executor_rel:
  assumes "\<And>d. R d (ex_meanwhile env d)" and "run_executor env ck c s = (out, s')"
  shows "on_buf R s s'"
proof (cases "get_executor (c_task_type c)")
  case None
  then show ?thesis using assms(2) by (simp add: run_executor_def buf_eff.R_refl)
next
  case (Some e)
  obtain lines out' where ex: "ex_run env e (c_task_spec c) (c_timeout_sec c) = (lines, out')"
    by (metis prod.exhaust)
  obtain x lb d where fe: "for_each lines (\<lambda>(stream, line). log_write (ck_log ck) stream line) s = (x, (lb, d))"
    by (metis prod.exhaust)
  have "keeps (on_buf R) (for_each lines (\<lambda>(stream, line). log_write (ck_log ck) stream line))"
    by (rule buf_eff.keeps_for_each) (auto simp: keeps_log_write)
  then have 1: "on_buf R s (lb, d)" using fe by (rule keepsD)
  have 2: "on_buf R (lb, d) (lb, ex_meanwhile env d)" using assms(1) by (simp add: on_buf_def)
  have "s' = (lb, ex_meanwhile env d)"
    using assms(2) Some ex fe by (cases x) (auto simp: run_executor_def)
  with 1 2 show ?thesis by (simp add: buf_eff.R_trans)
qed

lemma keeps_supervise:
  assumes "\<And>d. R d (ex_meanwhile env d)"
  shows "keeps (on_buf R) (supervise env ck c)"
proof (rule keepsI)
  fix s
  obtain out s' where r: "run_executor env ck c s = (out, s')" by (metis prod.exhaust)
  have 1: "on_buf R s s'" using assms r by (rule run_executor_rel)
  have cont: "keeps (on_buf R) (andthen (log_write (ck_log ck) SYSTEM msg) (\<lambda>_.
        andthen (log_flush (ck_log ck)) (\<lambda>_. k)))" if "keeps (on_buf R) k" for msg and k :: "(_, exec_result) eff"
    using that by (intro buf_eff.keeps_andthen keeps_log_write keeps_log_flush)
  have "on_buf R s' (snd (supervise env ck c s))"
  proof (cases out)
    case (Returned x)
    have "keeps (on_buf R) (andthen (log_flush (ck_log ck)) (\<lambda>_. ret x))"
      by (intro buf_eff.keeps_andthen keeps_log_flush buf_eff.keeps_ret)
    then show ?thesis using r Returned keeps_snd by (simp add: supervise_def)
  next
    case (Crashed msg)
    then show ?thesis unfolding supervise_def
      using r keeps_snd[OF cont[OF buf_eff.keeps_ret]] by simp
  next
    case Canceled
    then show ?thesis unfolding supervise_def
      using r keeps_snd[OF cont[OF buf_eff.keeps_throw]] by simp
  qed
  with 1 show "on_buf R s (snd (supervise env ck c s))" by (rule buf_eff.R_trans)
qed

lemma keeps_dispatch_dependent: "keeps (on_world R) (dispatch_dependent api cfg ck j)"
proof (rule keepsI)
  fix w :: "'a world"
  have "keeps (on_world R) (andthen (on_db (create_dependency_run t j)) (\<lambda>new_id.
       case new_id of None \<Rightarrow> ret ()
       | Some i \<Rightarrow> andthen (on_redis (enqueue_run_async api cfg i)) (\<lambda>_. ret ())))" for t
    by (intro world_eff.keeps_andthen keeps_on_db db_dependency)
      (auto intro!: world_eff.keeps_ret world_eff.keeps_andthen keeps_on_redis split: option.splits)
  then show "on_world R w (snd (dispatch_dependent api cfg ck j w))"
    by (simp add: keeps_def dispatch_dependent_def)
qed

lemma keeps_on_success: "keeps (on_world R) (on_success api cfg ck c result)"
proof (rule keepsI)
  fix w :: "'a world"
  let ?d1 = "finish_run (ck_finish ck) (c_run_id c) SUCCEEDED (x_exit_code result) (x_result result) None (w_db w)"
  have 1: "on_world R w (w\<lparr>w_db := ?d1\<rparr>)" by (simp add: on_world_def db_finish)
  have "keeps (on_world R) (for_each (dependents_ready (c_job_id c) ?d1) (dispatch_dependent api cfg ck))"
    by (rule world_eff.keeps_for_each) (rule keeps_dispatch_dependent)
  then have "on_world R (w\<lparr>w_db := ?d1\<rparr>)
      (snd (for_each (dependents_ready (c_job_id c) ?d1) (dispatch_dependent api cfg ck) (w\<lparr>w_db := ?d1\<rparr>)))"
    by (simp add: keeps_def)
  with 1 have "on_world R w
      (snd (for_each (dependents_ready (c_job_id c) ?d1) (dispatch_dependent api cfg ck) (w\<lparr>w_db := ?d1\<rparr>)))"
    by (rule world_eff.R_trans)
  then show "on_world R w (snd (on_success api cfg ck c result w))"
    by (simp add: on_success_def Let_def world_eff.R_refl)
qed

lemma keeps_on_failure:
  assumes "x_status result \<in> {SUCCEEDED, FAILED, TIMED_OUT}"
  shows "keeps (on_world R) (on_failure api cfg ck c result)"
proof (rule keepsI)
  fix w :: "'a world"
  let ?delay = "backoff_seconds cfg (c_attempt c) (c_retry_backoff_sec c)"
  have "keeps (on_world R)
      (andthen (on_db (create_retry_run t (c_job_id c) (c_attempt c + 1))) (\<lambda>new_id.
        andthen (on_redis (schedule_delayed_async api cfg new_id (ck_time ck + sec ?delay))) (\<lambda>_.
        on_db (\<lambda>d. (Inr (), finish_run (ck_finish ck) (c_run_id c) (x_status result)
                     (x_exit_code result) (x_result result)
                     (Some (retry_error result (c_attempt c) (c_max_retries c) ?delay new_id)) d)))))" for t
    using assms
    by (intro world_eff.keeps_andthen keeps_on_db keeps_on_redis) (simp_all add: db_finish db_retry)
  moreover have "on_world R w (w\<lparr>w_db := finish_run (ck_finish ck) (c_run_id c) (x_status result)
                     (x_exit_code result) (x_result result) (x_error result) (w_db w)\<rparr>)"
    using assms by (simp add: on_world_def db_finish)
  ultimately show "on_world R w (snd (on_failure api cfg ck c result w))"
    by (simp add: on_failure_def Let_def world_eff.R_refl keeps_def)
qed

text \<open>What happens after the claim, and hence in the whole run.\<close>

lemma process_run_rest:
  assumes m: "\<And>d. R d (ex_meanwhile env d)" and res: "results_ok env"
  shows "R (snd (claim_run (ck_claim ck) i wid b (w_db w))) (w_db (snd (process_run api cfg env ck i b wid w)))"
proof -
  obtain x d1 where cl: "claim_run (ck_claim ck) i wid b (w_db w) = (x, d1)"
    by (cases "claim_run (ck_claim ck) i wid b (w_db w)")
  show ?thesis
  proof (cases x)
    case None
    then show ?thesis using cl by (simp add: process_run_def db_refl)
  next
    case (Some c)
    obtain y lb d2 where s: "supervise env ck c (\<lparr>lb_run_id = i, lb_buf = []\<rparr>, d1) = (y, (lb, d2))"
      by (metis prod.exhaust)
    have 2: "R d1 d2" using keepsD[OF keeps_supervise[OF m] s] by (simp add: on_buf_def)
    show ?thesis
    proof (cases y)
      case (Inl e)
      then show ?thesis using 2 cl Some s by (simp add: process_run_def)
    next
      case (Inr result)
      then have "x_status result \<in> {SUCCEEDED, FAILED, TIMED_OUT}"
        using supervise_result[OF res s[unfolded Inr]] by simp
      then have "R d2 (w_db (snd (on_success api cfg ck c result (w\<lparr>w_db := d2\<rparr>))))"
        and "R d2 (w_db (snd (on_failure api cfg ck c result (w\<lparr>w_db := d2\<rparr>))))"
        using keeps_snd[OF keeps_on_success, of "w\<lparr>w_db := d2\<rparr>" api cfg ck c result]
          keeps_snd[OF keeps_on_failure, of result "w\<lparr>w_db := d2\<rparr>" api cfg ck c] by (simp_all add: on_world_def)
      then show ?thesis
        using cl Some s Inr db_trans[OF 2] by (simp add: process_run_def)
    qed
  qed
qed

lemma keeps_process_run:
  assumes "\<And>d. R d (ex_meanwhile env d)" and "results_ok env"
  shows "keeps (on_world R) (process_run api cfg env ck i b wid)"
  by (rule keepsI) (simp add: on_world_def db_trans[OF db_claim process_run_rest[OF assms]])

end

section \<open>The contract of the runner\<close>

text \<open>
  First instance: the contract of the transactions. The interference of others has
  to keep it too.
\<close>

definition contract :: "db \<Rightarrow> db \<Rightarrow> bool" where
  "contract d d' \<longleftrightarrow> (wf_db d \<longrightarrow> run_ok d d')"

interpretation ct: store_rel contract
proof
  show "contract d d''" if "contract d d'" "contract d' d''" for d d' d''
    using that run_ok_trans[of d d' d''] by (auto simp: contract_def run_ok_def[THEN iffD1])
qed (auto simp: contract_def run_ok_refl run_ok_claim run_ok_append_logs run_ok_finish run_ok_retry run_ok_dependency TERMINAL_def)

abbreviation buf_rel where "buf_rel \<equiv> on_buf contract"

abbreviation world_rel where "world_rel \<equiv> on_world contract"

lemmas world_rel_def = on_world_def contract_def
lemmas buf_rel_def = on_buf_def contract_def

definition env_ok :: "exec_env \<Rightarrow> bool" where
  "env_ok env \<longleftrightarrow> run_op (ex_meanwhile env) \<and> results_ok env"

lemma env_ok_meanwhile: "env_ok env \<Longrightarrow> contract d (ex_meanwhile env d)"
  by (simp add: env_ok_def run_op_def contract_def)

lemma env_ok_results: "env_ok env \<Longrightarrow> results_ok env"
  by (simp add: env_ok_def)

lemmas contract_supervise = ct.keeps_supervise[OF env_ok_meanwhile]

lemma contract_process_run: "env_ok env \<Longrightarrow> keeps world_rel (process_run api cfg env ck i b wid)"
  by (rule ct.keeps_process_run[OF env_ok_meanwhile env_ok_results])

text \<open>The first transaction settles that the run does not wait any more, whatever follows.\<close>

lemma claim_started:
  assumes "i < runs_seq d"
  shows "started (snd (claim_run now i wk b d)) i"
proof -
  have "\<not> is_waiting (r_status r')" if r': "get_run_row (snd (claim_run now i wk b d)) i = Some r'" for r'
  proof -
    obtain r where r: "get_run_row d i = Some r"
      and e: "r' = (if r_id r = i \<and> r_status r \<in> set (claim_allowed b) then claim_set now wk r else r)"
      using r' by (auto simp: snd_claim_run get_run_row_update)
    show ?thesis
      using get_run_row_SomeD[OF r] unfolding e by (cases "r_status r") (simp_all add: claim_set_def status_lists)
  qed
  then show ?thesis using assms by (simp add: started_def snd_claim_run)
qed

lemma process_run_started:
  assumes w: "wf_db (w_db w)" and env: "env_ok env" and i: "i < runs_seq (w_db w)"
  shows "started (w_db (snd (process_run api cfg env ck i b wid w))) i"
proof -
  let ?d = "snd (claim_run (ck_claim ck) i wid b (w_db w))"
  have "contract ?d (w_db (snd (process_run api cfg env ck i b wid w)))"
    by (rule ct.process_run_rest[OF env_ok_meanwhile[OF env] env_ok_results[OF env]])
  moreover have "wf_db ?d" using run_ok_claim[OF w] by (simp add: run_ok_def)
  ultimately show ?thesis
    using started_run_ok[OF claim_started[OF i]] by (simp add: contract_def)
qed

section \<open>Fan-out to dependents\<close>

context redis_server
begin

lemma dispatch_dependent_ok:
  assumes w: "wf_db (w_db w)" and ri: "rinv (w_redis w)"
    and nd: "\<not> has_dispatched_run (w_db w) j" and job: "j \<in> j_id ` set (jobs (w_db w))"
    and ok: "dispatch_dependent api cfg ck j w = (Inr u, w')"
  obtains i r m where "get_run_row (w_db w') i = Some r" and "r_job_id r = j" and "r_status r = QUEUED"
    and "\<And>k. k \<noteq> i \<Longrightarrow> get_run_row (w_db w') k = get_run_row (w_db w) k"
    and "\<And>q. get_run_row (w_db w) i = Some q \<Longrightarrow> r_job_id q = j \<and> r_status q = PENDING"
    and "jobs (w_db w') = jobs (w_db w)" and "rinv (w_redis w')"
    and "stream (w_redis w') = (stream (w_redis w))
           (stream_key cfg := stream (w_redis w) (stream_key cfg) @ [(m, [(''run_id'', int_str i)])])"
    and "zset (w_redis w') = zset (w_redis w)"
proof -
  let ?now = "ck_create ck (runs_seq (w_db w))"
  obtain i d' r where cd: "create_dependency_run ?now j (w_db w) = (Inr (Some i), d')"
    and row: "get_run_row d' i = Some r" "r_job_id r = j" "r_status r = QUEUED"
    and oth: "\<And>k. k \<noteq> i \<Longrightarrow> get_run_row d' k = get_run_row (w_db w) k"
    and own: "\<And>q. get_run_row (w_db w) i = Some q \<Longrightarrow> r_job_id q = j \<and> r_status q = PENDING"
    and jobs: "jobs d' = jobs (w_db w)"
    by (rule create_dependency_effect[OF w nd job, where now = ?now]) blast
  obtain m r' where en: "enqueue_run api cfg i (w_redis w) = (Inr m, r')"
    and w': "w' = w\<lparr>w_db := d', w_redis := r'\<rparr>"
    using ok cd by (auto simp: dispatch_dependent_def eff_simps async_same)
  note E = enqueue_run_ok[OF ri en]
  show thesis
    by (rule that[of i r m]) (use row oth own jobs E w' in auto)
qed

lemma dispatch_all_ok:
  assumes "wf_db (w_db w)" and "rinv (w_redis w)" and "distinct js"
    and "\<forall>j \<in> set js. \<not> has_dispatched_run (w_db w) j \<and> j \<in> j_id ` set (jobs (w_db w))"
    and "for_each js (dispatch_dependent api cfg ck) w = (Inr u, w')"
  shows "\<exists>ids es. stream (w_redis w') = (stream (w_redis w))
           (stream_key cfg := stream (w_redis w) (stream_key cfg) @ es) \<and>
      map snd es = map (\<lambda>i. [(''run_id'', int_str i)]) ids \<and>
      list_all2 (\<lambda>j i. \<exists>r. get_run_row (w_db w') i = Some r \<and> r_job_id r = j \<and> r_status r = QUEUED) js ids \<and>
      (\<forall>k r. get_run_row (w_db w) k = Some r \<longrightarrow> r_job_id r \<notin> set js \<or> r_status r \<noteq> PENDING \<longrightarrow> get_run_row (w_db w') k = Some r)"
  using assms
proof (induction js arbitrary: w)
  case Nil
  then show ?case by (auto intro!: exI[of _ "[]"])
next
  case (Cons j js)
  from Cons.prems(5) obtain v w1 where one: "dispatch_dependent api cfg ck j w = (Inr v, w1)"
    and rest: "for_each js (dispatch_dependent api cfg ck) w1 = (Inr u, w')"
    by (auto simp: andthen_value)
  obtain i r m where row: "get_run_row (w_db w1) i = Some r" "r_job_id r = j" "r_status r = QUEUED"
    and oth: "\<And>k. k \<noteq> i \<Longrightarrow> get_run_row (w_db w1) k = get_run_row (w_db w) k"
    and own: "\<And>q. get_run_row (w_db w) i = Some q \<Longrightarrow> r_job_id q = j \<and> r_status q = PENDING"
    and jobs: "jobs (w_db w1) = jobs (w_db w)" and ri1: "rinv (w_redis w1)"
    and st1: "stream (w_redis w1) = (stream (w_redis w))
           (stream_key cfg := stream (w_redis w) (stream_key cfg) @ [(m, [(''run_id'', int_str i)])])"
    by (rule dispatch_dependent_ok[OF Cons.prems(1,2) _ _ one]) (use Cons.prems(4) in auto)
  have w1: "wf_db (w_db w1)"
    using keepsD[OF ct.keeps_dispatch_dependent one] Cons.prems(1) by (simp add: world_rel_def run_ok_def)
  have "\<not> has_dispatched_run (w_db w1) k" if k: "k \<in> set js" for k
  proof -
    have "k \<noteq> j" "\<not> has_dispatched_run (w_db w) k" using Cons.prems(3,4) k by auto
    then show ?thesis
      using oth row by (auto simp: has_dispatched_rows[OF w1] has_dispatched_rows[OF Cons.prems(1)])
        (metis option.inject)+
  qed
  then have "\<forall>k \<in> set js. \<not> has_dispatched_run (w_db w1) k \<and> k \<in> j_id ` set (jobs (w_db w1))"
    using Cons.prems(4) jobs by auto
  moreover have "distinct js" using Cons.prems(3) by simp
  ultimately obtain ids es where
    st: "stream (w_redis w') = (stream (w_redis w1)) (stream_key cfg := stream (w_redis w1) (stream_key cfg) @ es)"
    and es: "map snd es = map (\<lambda>i. [(''run_id'', int_str i)]) ids"
    and l2: "list_all2 (\<lambda>j i. \<exists>r. get_run_row (w_db w') i = Some r \<and> r_job_id r = j \<and> r_status r = QUEUED) js ids"
    and fr: "\<forall>k r. get_run_row (w_db w1) k = Some r \<longrightarrow> r_job_id r \<notin> set js \<or> r_status r \<noteq> PENDING \<longrightarrow> get_run_row (w_db w') k = Some r"
    using Cons.IH[OF w1 ri1 _ _ rest] by blast
  have "get_run_row (w_db w') i = Some r" using fr row Cons.prems(3) by auto
  moreover have "get_run_row (w_db w') k = Some q"
    if "get_run_row (w_db w) k = Some q" "r_job_id q \<notin> set (j # js) \<or> r_status q \<noteq> PENDING" for k q
    using that fr oth[of k] own by (cases "k = i") auto
  ultimately show ?case
    using row st st1 es l2
    by (intro exI[of _ "i # ids"] exI[of _ "(m, [(''run_id'', int_str i)]) # es"]) auto
qed

end

section \<open>Lemmas on process_run\<close>

fun last_words :: "outcome \<Rightarrow> (log_stream \<times> string) list" where
  "last_words (Returned x) = []"
| "last_words (Crashed msg) = [(SYSTEM, ''executor crashed: '' @ msg)]"
| "last_words Canceled = [(SYSTEM, ''run canceled; stopping executor'')]"

fun verdict :: "outcome \<Rightarrow> exn + exec_result" where
  "verdict (Returned x) = Inr x"
| "verdict (Crashed msg) = Inr (ExecResult_failed (''executor crashed: '' @ msg) None None)"
| "verdict Canceled = Inl CancelledError"

lemma run_executor_shape:
  assumes ex: "get_executor (c_task_type c) = Some e" "ex_run env e (c_task_spec c) (c_timeout_sec c) = (lines, out)"
    and lb: "lb_ok lb d"
  obtains es buf where "es @ buf = lb_buf lb @ lines" and "length buf < FLUSH_EVERY"
    and "run_executor env ck c (lb, d) =
      (out, (lb\<lparr>lb_buf := buf\<rparr>, ex_meanwhile env (add_logs (ck_log ck) (lb_run_id lb) es d)))"
proof -
  obtain es buf where "for_each lines (\<lambda>(stream, line). log_write (ck_log ck) stream line) (lb, d) =
      (Inr (), (lb\<lparr>lb_buf := buf\<rparr>, add_logs (ck_log ck) (lb_run_id lb) es d))"
    and "es @ buf = lb_buf lb @ lines" "length buf < FLUSH_EVERY"
    using log_writes_ok[OF lb] by blast
  with ex show thesis by (intro that) (auto simp: run_executor_def)
qed

lemma supervise_shape:
  assumes ex: "get_executor (c_task_type c) = Some e" "ex_run env e (c_task_spec c) (c_timeout_sec c) = (lines, out)"
    and run: "i \<in> r_id ` set (runs d)"
    and alive: "\<And>es. i \<in> r_id ` set (runs (ex_meanwhile env (add_logs (ck_log ck) i es d)))"
  obtains es1 es2 where "es1 @ es2 = lines @ last_words out"
    and "supervise env ck c (\<lparr>lb_run_id = i, lb_buf = []\<rparr>, d) =
      (verdict out, (\<lparr>lb_run_id = i, lb_buf = []\<rparr>,
         add_logs (ck_log ck) i es2 (ex_meanwhile env (add_logs (ck_log ck) i es1 d))))"
proof -
  have "lb_ok \<lparr>lb_run_id = i, lb_buf = []\<rparr> d"
    using run by (simp add: lb_ok_def FLUSH_EVERY_def)
  then obtain es buf where eq: "es @ buf = lines" and len: "length buf < FLUSH_EVERY"
    and run1: "run_executor env ck c (\<lparr>lb_run_id = i, lb_buf = []\<rparr>, d) =
      (out, (\<lparr>lb_run_id = i, lb_buf = buf\<rparr>, ex_meanwhile env (add_logs (ck_log ck) i es d)))"
    by (rule run_executor_shape[OF ex, where ck = ck]) auto
  let ?d = "ex_meanwhile env (add_logs (ck_log ck) i es d)"
  let ?lb = "\<lparr>lb_run_id = i, lb_buf = buf\<rparr>"
  have ok: "lb_ok ?lb ?d" using len alive by (simp add: lb_ok_def)
  have fl: "log_flush (ck_log ck) (?lb, ?d) = (Inr (), (\<lparr>lb_run_id = i, lb_buf = []\<rparr>, add_logs (ck_log ck) i buf ?d))"
    using ok by (simp add: log_flush_ok lb_ok_def)
  have wf1: "andthen (log_write (ck_log ck) SYSTEM msg) (\<lambda>_. andthen (log_flush (ck_log ck)) (\<lambda>_. k)) (?lb, ?d) =
      k (\<lparr>lb_run_id = i, lb_buf = []\<rparr>, add_logs (ck_log ck) i (buf @ [(SYSTEM, msg)]) ?d)"
    for msg and k :: "(_, exec_result) eff"
    using log_writes_flush[OF ok, of "[(SYSTEM, msg)]" "ck_log ck"]
    by (cases "log_write (ck_log ck) SYSTEM msg (?lb, ?d)")
      (auto simp: andthen_def ret_def split: sum.splits prod.splits)
  show thesis
  proof (cases out)
    case (Returned x)
    then show thesis using that[of es buf] run1 fl eq
      by (simp add: supervise_def andthen_def ret_def)
  next
    case (Crashed msg)
    then show thesis using that[of es "buf @ last_words out"] run1 eq
      by (simp add: supervise_def wf1 ret_def flip: append.assoc del: append_assoc)
  next
    case Canceled
    then show thesis using that[of es "buf @ last_words out"] run1 eq
      by (simp add: supervise_def wf1 throw_def flip: append.assoc del: append_assoc)
  qed
qed

lemma is_run_canceled_iff:
  "wf_db d \<Longrightarrow> is_run_canceled i d \<longleftrightarrow> status_of d i = Some CANCELED"
  by (auto simp: is_run_canceled_def status_of_def filter_by_id)

lemma is_run_canceled_add_logs [simp]: "is_run_canceled i (add_logs ts k es d) = is_run_canceled i d"
  by (simp add: is_run_canceled_def)

lemma finish_run_row:
  "get_run_row d i = Some r \<Longrightarrow> r_status r \<noteq> CANCELED \<Longrightarrow>
   get_run_row (finish_run now i st ec res err d) i = Some (finish_set now st ec res err r)"
  using get_run_row_SomeD[of d i r] by (simp add: finish_run_def get_run_row_update)

lemma finish_run_other:
  "k \<noteq> i \<Longrightarrow> get_run_row (finish_run now i st ec res err d) k = get_run_row d k"
  by (cases "get_run_row d k") (auto simp: finish_run_def get_run_row_update dest: get_run_row_SomeD)

lemma finish_terminal:
  assumes "is_terminal st" and "wf_db d" and "get_run_row (finish_run now i st ec res err d) i = Some r'"
  shows "is_terminal (r_status r')"
proof (cases "get_run_row d i")
  case None
  then show ?thesis using assms(3) by (simp add: finish_run_def get_run_row_update)
next
  case (Some r)
  then have "r_id r = i" by (simp add: get_run_row_SomeD)
  then have "r' = (if r_status r \<noteq> CANCELED then finish_set now st ec res err r else r)"
    using assms(3) Some by (simp add: finish_run_def get_run_row_update split: if_splits)
  then show ?thesis using assms(1) by (auto simp: finish_set_def TERMINAL_def split: if_splits)
qed

lemma run_ok_terminal:
  assumes "run_ok d d'" and "i < runs_seq d" and "\<And>r. get_run_row d i = Some r \<Longrightarrow> is_terminal (r_status r)"
    and "get_run_row d' i = Some r'"
  shows "is_terminal (r_status r')"
  using assms unfolding run_ok_def row_ok_def
  by (metis option.exhaust option.distinct(1))

lemma on_success_terminal:
  assumes w: "wf_db (w_db w)" and i: "c_run_id c < runs_seq (w_db w)"
    and ok: "on_success api cfg ck c result w = (Inr u, w')"
    and row: "get_run_row (w_db w') (c_run_id c) = Some r'"
  shows "is_terminal (r_status r')"
proof (cases "is_run_canceled (c_run_id c) (w_db w)")
  case True
  then show ?thesis using ok row w
    by (auto simp: on_success_def is_run_canceled_iff status_of_def TERMINAL_def)
next
  case False
  let ?d1 = "finish_run (ck_finish ck) (c_run_id c) SUCCEEDED (x_exit_code result) (x_result result) None (w_db w)"
  have w1: "wf_db ?d1" using run_ok_finish[OF _ w] by (simp add: run_ok_def TERMINAL_def)
  have fe: "for_each (dependents_ready (c_job_id c) ?d1) (dispatch_dependent api cfg ck) (w\<lparr>w_db := ?d1\<rparr>) = (Inr u, w')"
    using ok False by (simp add: on_success_def Let_def)
  have "keeps world_rel (for_each (dependents_ready (c_job_id c) ?d1) (dispatch_dependent api cfg ck))"
    by (rule ct.world_eff.keeps_for_each) (rule ct.keeps_dispatch_dependent)
  then have "world_rel (w\<lparr>w_db := ?d1\<rparr>) w'" using fe by (rule keepsD)
  then have "run_ok ?d1 (w_db w')" using w1 by (simp add: world_rel_def)
  then show ?thesis
  proof (rule run_ok_terminal[OF _ _ _ row])
    show "c_run_id c < runs_seq ?d1" using i by (simp add: finish_run_def)
  qed (rule finish_terminal[OF _ w], simp_all add: TERMINAL_def)
qed

lemma on_failure_terminal:
  assumes w: "wf_db (w_db w)" and st: "is_terminal (x_status result)"
    and ok: "on_failure api cfg ck c result w = (Inr u, w')"
    and row: "get_run_row (w_db w') (c_run_id c) = Some r'"
  shows "is_terminal (r_status r')"
proof (cases "is_run_canceled (c_run_id c) (w_db w)")
  case True
  then show ?thesis using ok row w
    by (auto simp: on_failure_def is_run_canceled_iff status_of_def TERMINAL_def)
next
  case False
  obtain d err where d: "wf_db d" and w': "w_db w' = finish_run (ck_finish ck) (c_run_id c)
      (x_status result) (x_exit_code result) (x_result result) err d"
  proof (cases "x_status result \<in> set RETRYABLE \<and> should_retry (c_attempt c) (c_max_retries c)")
    case True
    then obtain new d1 err where
      "create_retry_run (ck_create ck (runs_seq (w_db w))) (c_job_id c) (c_attempt c + 1) (w_db w) = (Inr new, d1)"
      and "w_db w' = finish_run (ck_finish ck) (c_run_id c) (x_status result) (x_exit_code result)
             (x_result result) err d1"
      using ok False by (auto simp: on_failure_def Let_def eff_simps)
    moreover then have "wf_db d1" using retry_op.op_wf[OF w] by (metis snd_conv)
    ultimately show thesis using that by blast
  next
    case no: False
    have "w' = w\<lparr>w_db := finish_run (ck_finish ck) (c_run_id c) (x_status result) (x_exit_code result)
             (x_result result) (x_error result) (w_db w)\<rparr>"
      using ok False no by (simp add: on_failure_def)
    then show thesis using that[OF w] by simp
  qed
  then show ?thesis using finish_terminal[OF st d] row by simp
qed

lemma process_run_granted:
  assumes w: "wf_db (w_db w)" and r: "get_run_row (w_db w) i = Some r" "r_status r \<in> set (claim_allowed b)"
  obtains job where "get_job_row (w_db w) (r_job_id r) = Some job"
    and "\<And>d1. d1 = snd (claim_run (ck_claim ck) i wid b (w_db w)) \<Longrightarrow>
      process_run api cfg env ck i b wid w =
        (case supervise env ck (claimed_of r job) (\<lparr>lb_run_id = i, lb_buf = []\<rparr>, d1) of
           (Inl e, (_, d2)) \<Rightarrow> (Inl e, w\<lparr>w_db := d2\<rparr>)
         | (Inr result, (_, d2)) \<Rightarrow>
             if succeeded result then on_success api cfg ck (claimed_of r job) result (w\<lparr>w_db := d2\<rparr>)
             else on_failure api cfg ck (claimed_of r job) result (w\<lparr>w_db := d2\<rparr>))"
proof -
  obtain job where job: "get_job_row (w_db w) (r_job_id r) = Some job"
    and c: "fst (claim_run (ck_claim ck) i wid b (w_db w)) = Some (claimed_of r job)"
    by (rule claim_run_granted[OF w r, where now = "ck_claim ck" and w = wid])
  show thesis
    by (rule that[OF job]) (use c in \<open>auto simp: process_run_def split: prod.splits\<close>)
qed

lemma process_run_terminal_aux:
  assumes w: "wf_db (w_db w)" and env: "env_ok env"
    and r: "get_run_row (w_db w) i = Some r" "r_status r \<in> set (claim_allowed b)"
    and ok: "process_run api cfg env ck i b wid w = (Inr u, w')"
    and row: "get_run_row (w_db w') i = Some r'"
  shows "is_terminal (r_status r')"
proof -
  let ?d1 = "snd (claim_run (ck_claim ck) i wid b (w_db w))"
  obtain job where pr: "process_run api cfg env ck i b wid w =
        (case supervise env ck (claimed_of r job) (\<lparr>lb_run_id = i, lb_buf = []\<rparr>, ?d1) of
           (Inl e, (_, d2)) \<Rightarrow> (Inl e, w\<lparr>w_db := d2\<rparr>)
         | (Inr result, (_, d2)) \<Rightarrow>
             if succeeded result then on_success api cfg ck (claimed_of r job) result (w\<lparr>w_db := d2\<rparr>)
             else on_failure api cfg ck (claimed_of r job) result (w\<lparr>w_db := d2\<rparr>))"
    by (rule process_run_granted[OF w r, where ck = ck and wid = wid]) blast
  obtain x lb d2 where s: "supervise env ck (claimed_of r job) (\<lparr>lb_run_id = i, lb_buf = []\<rparr>, ?d1) = (x, (lb, d2))"
    by (metis prod.exhaust)
  have ok1: "run_ok (w_db w) ?d1" using run_ok_claim[OF w] .
  then have "run_ok ?d1 d2"
    using keepsD[OF contract_supervise[OF env] s] by (simp add: buf_rel_def run_ok_def)
  then have w2: "wf_db d2" and i2: "i < runs_seq d2"
    using ok1 run_id_bound[OF w r(1)] by (auto simp: run_ok_def)
  have ci: "c_run_id (claimed_of r job) = i"
    using get_run_row_SomeD[OF r(1)] by (simp add: claimed_of_def)
  obtain result where x: "x = Inr result" using ok pr s by (cases x) auto
  have st: "is_terminal (x_status result)"
    using supervise_result[OF env_ok_results[OF env] s[unfolded x]] by (auto simp: TERMINAL_def)
  show ?thesis
  proof (cases "succeeded result")
    case True
    then have "on_success api cfg ck (claimed_of r job) result (w\<lparr>w_db := d2\<rparr>) = (Inr u, w')"
      using ok pr s x by simp
    from on_success_terminal[OF _ _ this] row w2 i2 ci show ?thesis by simp
  next
    case False
    then have "on_failure api cfg ck (claimed_of r job) result (w\<lparr>w_db := d2\<rparr>) = (Inr u, w')"
      using ok pr s x by simp
    from on_failure_terminal[OF _ st this] row w2 ci show ?thesis by simp
  qed
qed

section \<open>Sample run\<close>

definition sample_clock :: clock where
  "sample_clock = \<lparr>ck_claim = 5, ck_log = (\<lambda>_. 6), ck_finish = 7, ck_create = (\<lambda>_. 8), ck_time = 9\<rparr>"

definition sample_world :: "mem_redis world" where
  "sample_world = \<lparr>w_db = sample_db, w_redis = mem_empty\<rparr>"

definition sample_claimed :: claimed where
  "sample_claimed = claimed_of (mk_run 1 1 MANUAL QUEUED 0) (mk_job 1 1 ''extract'' ''manual'' None 2)"

definition sample_running :: "mem_redis world" where
  "sample_running = sample_world\<lparr>w_db := snd (claim_run 5 1 ''w1'' False sample_db)\<rparr>"

definition sample_env :: exec_env where
  "sample_env = \<lparr>ex_run = (\<lambda>e spec t. ([(STDOUT, ''hi'')], Returned (ExecResult_ok (Some 0) None))),
     ex_text = (\<lambda>_. ''''), ex_meanwhile = (\<lambda>d. d)\<rparr>"

lemma run_op_id: "run_op (\<lambda>d. d)"
  by unfold_locales (rule run_ok_refl)

lemma sample_env_ok: "env_ok sample_env"
  by (auto simp: env_ok_def results_ok_def sample_env_def ExecResult_ok_def run_op_id)

lemma sample_running_wf: "wf_db (w_db sample_running)"
  unfolding sample_running_def using claim_op.op_wf[OF sample_wf] by simp

section \<open>Properties\<close>



text \<open>
  The log buffer loses, reorders and invents nothing: writing lines
  and flushing appends exactly these lines to the stored log of the run, leaves
  the logs of other runs and the runs themselves alone, and at no point are
  \<^verbatim>\<open>_FLUSH_EVERY\<close> or more lines held back in memory.
\<close>

lemma log_buffer_complete:
  assumes "i \<in> r_id ` set (runs d)"
  shows "(\<exists>lb d'. andthen (for_each lines (\<lambda>(s, l). log_write ts s l)) (\<lambda>_. log_flush ts)
              (\<lparr>lb_run_id = i, lb_buf = []\<rparr>, d) = (Inr (), (lb, d')) \<and> lb_buf lb = [] \<and>
            run_lines d' i = run_lines d i @ lines \<and>
            (\<forall>k. k \<noteq> i \<longrightarrow> run_lines d' k = run_lines d k) \<and> runs d' = runs d) \<and>
         (\<exists>lb d'. for_each lines (\<lambda>(s, l). log_write ts s l) (\<lparr>lb_run_id = i, lb_buf = []\<rparr>, d) =
              (Inr (), (lb, d')) \<and> length (lb_buf lb) < FLUSH_EVERY)"
proof -
  have ok: "lb_ok \<lparr>lb_run_id = i, lb_buf = []\<rparr> d"
    using assms by (simp add: lb_ok_def FLUSH_EVERY_def)
  show ?thesis
    using log_writes_flush[OF ok, of lines ts] log_writes_ok[OF ok, of lines ts]
    by (auto simp: run_lines_add_logs)
qed

section \<open>Retry and cancellation lemmas\<close>

lemma create_retry_run_ok:
  assumes w: "wf_db d" and job: "j \<in> j_id ` set (jobs d)"
  obtains q d' where "create_retry_run now j att d = (Inr (runs_seq d), d')" and "wf_db d'"
    and "r_job_id q = j" and "r_trigger_type q = RETRY" and "r_status q = QUEUED" and "r_attempt q = att"
    and "\<And>k. get_run_row d' k = (if k = runs_seq d then Some q else get_run_row d k)"
proof -
  obtain q d' where ins: "insert_run now j RETRY QUEUED att None d = (Inr q, d')"
    using insert_run_untimed[OF job] by blast
  note I = insert_run_Inr(1)[OF ins]
  show thesis
    by (rule that[of d' q])
      (use ins I get_run_row_insert[OF w ins] wf_insert_run[OF w ins] in \<open>auto simp: create_retry_run_def\<close>)
qed

lemma run_job_exists: "wf_db d \<Longrightarrow> get_run_row d i = Some r \<Longrightarrow> r_job_id r \<in> j_id ` set (jobs d)"
  by (fastforce dest: get_run_row_SomeD simp: wf_db_def wf_runs_def)

lemma not_canceled: "wf_db d \<Longrightarrow> get_run_row d i = Some r \<Longrightarrow> r_status r \<noteq> CANCELED \<Longrightarrow> \<not> is_run_canceled i d"
  by (simp add: is_run_canceled_iff status_of_def)

context redis_server
begin

lemma on_failure_retry_ok:
  assumes w: "wf_db (w_db w)" and ri: "rinv (w_redis w)"
    and r: "get_run_row (w_db w) (c_run_id c) = Some r" "r_status r = RUNNING" "c_job_id c = r_job_id r"
    and retry: "x_status result \<in> {FAILED, TIMED_OUT}" "c_attempt c \<le> c_max_retries c"
    and ok: "on_failure api cfg ck c result w = (Inr (), w')"
  shows "\<exists>q r'. get_run_row (w_db w') (runs_seq (w_db w)) = Some q \<and> r_job_id q = r_job_id r \<and>
      r_trigger_type q = RETRY \<and> r_status q = QUEUED \<and> r_attempt q = c_attempt c + 1 \<and>
      get_run_row (w_db w') (c_run_id c) = Some r' \<and> r_status r' = x_status result \<and>
      (\<forall>k. k \<noteq> runs_seq (w_db w) \<and> k \<noteq> c_run_id c \<longrightarrow> get_run_row (w_db w') k = get_run_row (w_db w) k) \<and>
      stream (w_redis w') = stream (w_redis w) \<and>
      zset (w_redis w') = (zset (w_redis w))(delayed_set_key cfg :=
        (zset (w_redis w) (delayed_set_key cfg))(int_str (runs_seq (w_db w)) \<mapsto>
           ck_time ck + sec (backoff_seconds cfg (c_attempt c) (c_retry_backoff_sec c))))"
proof -
  let ?n = "runs_seq (w_db w)" and ?i = "c_run_id c"
  let ?delay = "backoff_seconds cfg (c_attempt c) (c_retry_backoff_sec c)"
  obtain q d1 where cr: "create_retry_run (ck_create ck ?n) (c_job_id c) (c_attempt c + 1) (w_db w) = (Inr ?n, d1)"
    and q: "r_job_id q = c_job_id c" "r_trigger_type q = RETRY" "r_status q = QUEUED" "r_attempt q = c_attempt c + 1"
    and rows: "\<And>k. get_run_row d1 k = (if k = ?n then Some q else get_run_row (w_db w) k)"
    by (rule create_retry_run_ok[OF w, where j = "c_job_id c" and att = "c_attempt c + 1" and now = "ck_create ck ?n"])
      (use run_job_exists[OF w r(1)] r(3) in auto)
  have ne: "?i \<noteq> ?n" using run_id_bound[OF w r(1)] by simp
  obtain u r1 where sd: "schedule_delayed api cfg ?n (ck_time ck + sec ?delay) (w_redis w) = (Inr u, r1)"
    and w': "w' = w\<lparr>w_db := finish_run (ck_finish ck) ?i (x_status result) (x_exit_code result) (x_result result)
        (Some (retry_error result (c_attempt c) (c_max_retries c) ?delay ?n)) d1, w_redis := r1\<rparr>"
    using ok cr not_canceled[OF w r(1)] r(2) retry
    by (auto simp: on_failure_def Let_def eff_simps async_same RETRYABLE_def should_retry_def)
  note S = schedule_delayed_ok[OF ri sd]
  have "get_run_row d1 ?i = Some r" using rows ne r(1) by simp
  then have "get_run_row (w_db w') ?i = Some (finish_set (ck_finish ck) (x_status result) (x_exit_code result)
      (x_result result) (Some (retry_error result (c_attempt c) (c_max_retries c) ?delay ?n)) r)"
    using r(2) by (simp add: w' finish_run_row)
  moreover have "get_run_row (w_db w') k = get_run_row d1 k" if "k \<noteq> ?i" for k
    using that by (simp add: w' finish_run_other)
  ultimately show ?thesis
    using S q r(3) rows ne by (simp add: finish_set_def w')
qed

end

lemma snd_cancel_run:
  "snd (store_cancel_run now i d) =
     update_runs (\<lambda>r. r_id r = i \<and> r_status r \<in> set ACTIVE) (cancel_set now) d"
  by (simp add: store_cancel_run_def Let_def)

lemma is_run_canceledI: "get_run_row d i = Some r \<Longrightarrow> r_status r = CANCELED \<Longrightarrow> is_run_canceled i d"
  by (auto simp: is_run_canceled_def filter_empty_conv dest: get_run_row_SomeD)

lemma cancel_row:
  "get_run_row d i = Some r \<Longrightarrow> r_status r \<in> set ACTIVE \<Longrightarrow>
   get_run_row (snd (store_cancel_run now i d)) i = Some (cancel_set now r)"
  using get_run_row_SomeD[of d i r] by (simp add: snd_cancel_run get_run_row_update)

lemma cancel_other:
  "k \<noteq> i \<Longrightarrow> get_run_row (snd (store_cancel_run now i d)) k = get_run_row d k"
  by (cases "get_run_row d k") (auto simp: snd_cancel_run get_run_row_update dest: get_run_row_SomeD)

lemma claim_other: "k \<noteq> i \<Longrightarrow> get_run_row (snd (claim_run now i wk b d)) k = get_run_row d k"
  by (cases "get_run_row d k") (auto simp: snd_claim_run get_run_row_update dest: get_run_row_SomeD)

lemma cancel_lines [simp]: "run_lines (snd (store_cancel_run now i d)) k = run_lines d k"
  by (simp add: run_lines_def snd_cancel_run)

lemma claim_lines [simp]: "run_lines (snd (claim_run now i wk b d)) k = run_lines d k"
  by (simp add: run_lines_def snd_claim_run)

lemma get_run_row_id: "get_run_row d i = Some r \<Longrightarrow> i \<in> r_id ` set (runs d)"
  using get_run_row_SomeD[of d i r] by (auto simp: image_iff)

lemma process_run_cancel_aux:
  assumes w: "wf_db (w_db w)" and r: "get_run_row (w_db w) i = Some r" "r_status r \<in> set (claim_allowed b)"
    and job: "get_job_row (w_db w) (r_job_id r) = Some job"
    and ex: "get_executor (j_task_type job) = Some e"
      "ex_run env e (j_task_spec job) (j_timeout_sec job) = (lines, out)"
    and other: "ex_meanwhile env = (\<lambda>d. snd (store_cancel_run t i d))"
  shows "\<exists>d'. process_run api cfg env ck i b wid w =
        (if out = Canceled then Inl CancelledError else Inr (), w\<lparr>w_db := d'\<rparr>) \<and>
      get_run_row d' i = Some (cancel_set t (claim_set (ck_claim ck) wid r)) \<and>
      (\<forall>k. k \<noteq> i \<longrightarrow> get_run_row d' k = get_run_row (w_db w) k) \<and>
      run_lines d' i = run_lines (w_db w) i @ lines @ last_words out"
proof -
  let ?d1 = "snd (claim_run (ck_claim ck) i wid b (w_db w))"
  let ?c = "claimed_of r job"
  obtain job' where job': "get_job_row (w_db w) (r_job_id r) = Some job'"
    and pr: "process_run api cfg env ck i b wid w =
        (case supervise env ck (claimed_of r job') (\<lparr>lb_run_id = i, lb_buf = []\<rparr>, ?d1) of
           (Inl e, (_, d2)) \<Rightarrow> (Inl e, w\<lparr>w_db := d2\<rparr>)
         | (Inr result, (_, d2)) \<Rightarrow>
             if succeeded result then on_success api cfg ck (claimed_of r job') result (w\<lparr>w_db := d2\<rparr>)
             else on_failure api cfg ck (claimed_of r job') result (w\<lparr>w_db := d2\<rparr>))"
    by (rule process_run_granted[OF w r, where ck = ck and wid = wid]) blast
  have j: "job' = job" using job job' by simp
  have row1: "get_run_row ?d1 i = Some (claim_set (ck_claim ck) wid r)"
    by (rule claim_run_granted[OF w r, where now = "ck_claim ck" and w = wid])
  have act: "r_status (claim_set (ck_claim ck) wid r) \<in> set ACTIVE"
    by (simp add: claim_set_def ACTIVE_def)
  have alive: "i \<in> r_id ` set (runs (ex_meanwhile env (add_logs (ck_log ck) i es ?d1)))" for es
    unfolding other using row1 act by (intro get_run_row_id[OF cancel_row]) simp_all
  obtain es1 es2 where es: "es1 @ es2 = lines @ last_words out"
    and s: "supervise env ck ?c (\<lparr>lb_run_id = i, lb_buf = []\<rparr>, ?d1) =
      (verdict out, (\<lparr>lb_run_id = i, lb_buf = []\<rparr>,
         add_logs (ck_log ck) i es2 (ex_meanwhile env (add_logs (ck_log ck) i es1 ?d1))))"
    by (rule supervise_shape[where c = ?c and d = ?d1 and ck = ck, OF _ _ get_run_row_id[OF row1] alive])
      (use ex in \<open>auto simp: claimed_of_def\<close>)
  let ?d2 = "add_logs (ck_log ck) i es2 (ex_meanwhile env (add_logs (ck_log ck) i es1 ?d1))"
  have row2: "get_run_row ?d2 i = Some (cancel_set t (claim_set (ck_claim ck) wid r))"
    using row1 act by (simp add: other cancel_row)
  have lines2: "run_lines ?d2 i = run_lines (w_db w) i @ lines @ last_words out"
    using es by (simp add: other run_lines_add_logs)
  have oth: "get_run_row ?d2 k = get_run_row (w_db w) k" if "k \<noteq> i" for k
    using that by (simp add: other cancel_other claim_other)
  have "is_run_canceled i ?d2"
    using row2 by (rule is_run_canceledI) (simp add: cancel_set_def)
  moreover have "c_run_id ?c = i" using get_run_row_SomeD[OF r(1)] by (simp add: claimed_of_def)
  ultimately have "process_run api cfg env ck i b wid w =
        (if out = Canceled then Inl CancelledError else Inr (), w\<lparr>w_db := ?d2\<rparr>)"
    using pr s j by (cases out) (simp_all add: on_success_def on_failure_def)
  with row2 lines2 oth show ?thesis by blast
qed


lemma dependent_ready_job: "dependent_ready d j \<Longrightarrow> \<not> has_dispatched_run d j \<and> j \<in> j_id ` set (jobs d)"
  by (auto simp: dependent_ready_def image_iff dest!: get_job_row_SomeD split: option.splits if_splits)

context redis_server
begin

lemma on_success_ok:
  assumes w: "wf_db (w_db w)" and ri: "rinv (w_redis w)"
    and r: "get_run_row (w_db w) (c_run_id c) = Some r" "r_status r = RUNNING"
    and ok: "on_success api cfg ck c result w = (Inr (), w')"
    and d1: "d1 = finish_run (ck_finish ck) (c_run_id c) SUCCEEDED (x_exit_code result) (x_result result) None (w_db w)"
  shows "get_run_row (w_db w') (c_run_id c) =
           Some (finish_set (ck_finish ck) SUCCEEDED (x_exit_code result) (x_result result) None r) \<and>
      (\<exists>ids es. stream (w_redis w') = (stream (w_redis w))
           (stream_key cfg := stream (w_redis w) (stream_key cfg) @ es) \<and>
        map snd es = map (\<lambda>i. [(''run_id'', int_str i)]) ids \<and>
        list_all2 (\<lambda>j i. \<exists>q. get_run_row (w_db w') i = Some q \<and> r_job_id q = j \<and> r_status q = QUEUED)
          (dependents_ready (c_job_id c) d1) ids) \<and>
      (\<forall>k q. get_run_row (w_db w) k = Some q \<longrightarrow> k \<noteq> c_run_id c \<longrightarrow>
         r_job_id q \<notin> set (dependents_ready (c_job_id c) d1) \<or> r_status q \<noteq> PENDING \<longrightarrow>
         get_run_row (w_db w') k = Some q)"
proof -
  have fe: "for_each (dependents_ready (c_job_id c) d1) (dispatch_dependent api cfg ck) (w\<lparr>w_db := d1\<rparr>) = (Inr (), w')"
    using ok not_canceled[OF w r(1)] r(2) by (simp add: on_success_def Let_def d1)
  have w1: "wf_db d1" using run_ok_finish[OF _ w] by (simp add: d1 run_ok_def TERMINAL_def)
  have row: "get_run_row d1 (c_run_id c) =
      Some (finish_set (ck_finish ck) SUCCEEDED (x_exit_code result) (x_result result) None r)"
    using r by (simp add: d1 finish_run_row)
  have "\<forall>j \<in> set (dependents_ready (c_job_id c) d1). \<not> has_dispatched_run d1 j \<and> j \<in> j_id ` set (jobs d1)"
    using dependent_ready_job by (auto simp: in_dependents_ready)
  moreover have "distinct (dependents_ready (c_job_id c) d1)" by (simp add: dependents_ready_def)
  ultimately obtain ids es where
    "stream (w_redis w') = (stream (w_redis w)) (stream_key cfg := stream (w_redis w) (stream_key cfg) @ es)"
    "map snd es = map (\<lambda>i. [(''run_id'', int_str i)]) ids"
    "list_all2 (\<lambda>j i. \<exists>q. get_run_row (w_db w') i = Some q \<and> r_job_id q = j \<and> r_status q = QUEUED)
          (dependents_ready (c_job_id c) d1) ids" and
    fr: "\<forall>k q. get_run_row d1 k = Some q \<longrightarrow>
      r_job_id q \<notin> set (dependents_ready (c_job_id c) d1) \<or> r_status q \<noteq> PENDING \<longrightarrow> get_run_row (w_db w') k = Some q"
    using dispatch_all_ok[OF _ _ _ _ fe] w1 ri by auto
  moreover have "get_run_row d1 k = get_run_row (w_db w) k" if "k \<noteq> c_run_id c" for k
    using that by (simp add: d1 finish_run_other)
  moreover have "get_run_row (w_db w') (c_run_id c) =
      Some (finish_set (ck_finish ck) SUCCEEDED (x_exit_code result) (x_result result) None r)"
    using fr row by (simp add: finish_set_def)
  ultimately show ?thesis by auto
qed

end


section \<open>Properties of the runner\<close>

text \<open>
  Claim C1: a run that \<^verbatim>\<open>process_run\<close> claims and processes without an exception
  is in a terminal state afterwards, whatever the executor did and whatever
  contract-keeping transactions other processes committed meanwhile, and the
  database constraints still hold.
\<close>

theorem process_run_terminal:
  assumes "wf_db (w_db w)" and "env_ok env"
    and "get_run_row (w_db w) i = Some r" and "r_status r \<in> set (claim_allowed b)"
    and "process_run api cfg env ck i b wid w = (Inr (), w')"
  shows "wf_db (w_db w') \<and> (\<forall>r'. get_run_row (w_db w') i = Some r' \<longrightarrow> is_terminal (r_status r'))"
  using assms process_run_terminal_aux keepsD[OF contract_process_run[OF assms(2)] assms(5)]
  by (fastforce simp: world_rel_def run_ok_def)

theorem process_run_terminal_witness:
  "\<exists>w'. process_run mem_api default_settings sample_env sample_clock 1 False ''w1'' sample_world = (Inr (), w') \<and>
     status_of (w_db w') 1 = Some SUCCEEDED \<and>
     (\<forall>r'. get_run_row (w_db w') 1 = Some r' \<longrightarrow> is_terminal (r_status r'))"
proof -
  let ?p = "process_run mem_api default_settings sample_env sample_clock 1 False ''w1'' sample_world"
  have f: "fst ?p = Inr ()" by code_simp
  have s: "status_of (w_db (snd ?p)) 1 = Some SUCCEEDED" by code_simp
  have "wf_db (w_db (snd ?p)) \<and> (\<forall>r'. get_run_row (w_db (snd ?p)) 1 = Some r' \<longrightarrow> is_terminal (r_status r'))"
    by (rule process_run_terminal[of sample_world sample_env 1 "mk_run 1 1 MANUAL QUEUED 0" False
          mem_api default_settings sample_clock "''w1''"])
      (use f in \<open>simp_all add: sample_world_def sample_wf sample_env_ok claim_allowed_def mk_run_def prod_eq_iff\<close>)
  then show ?thesis using f s by (intro exI[of _ "snd ?p"]) (simp add: prod_eq_iff)
qed

text \<open>
  A delivery of a message whose run is not claimable (already claimed,
  already terminal, or deleted) is a no-op: nothing is executed, neither the
  database nor Redis changes.
\<close>

lemma process_run_duplicate:
  assumes "wf_db (w_db w)"
    and "\<And>r. get_run_row (w_db w) i = Some r \<Longrightarrow> r_status r \<notin> set (claim_allowed b)"
  shows "process_run api cfg env ck i b wid w = (Inr (), w)"
  using claim_run_refused[OF assms(1), of i b] assms(2) by (simp add: process_run_def)

text \<open>
  Claim C2: cancellation wins. If the user's cancellation commits while the
  executor is at work, then, however the executor ends, the run stays canceled
  with the cancellation's timestamp and error, no other run is created or
  changed (no retry, no dependent run), Redis is not touched, and the log holds
  every line the executor wrote.
\<close>

theorem process_run_cancel:
  assumes "wf_db (w_db w)" and "get_run_row (w_db w) i = Some r" and "r_status r \<in> set (claim_allowed b)"
    and "get_job_row (w_db w) (r_job_id r) = Some job"
    and "get_executor (j_task_type job) = Some e"
    and "ex_run env e (j_task_spec job) (j_timeout_sec job) = (lines, out)"
    and "ex_meanwhile env = (\<lambda>d. snd (store_cancel_run t i d))"
  shows "\<exists>d'. process_run api cfg env ck i b wid w =
        (if out = Canceled then Inl CancelledError else Inr (), w\<lparr>w_db := d'\<rparr>) \<and>
      get_run_row d' i = Some (cancel_set t (claim_set (ck_claim ck) wid r)) \<and>
      (\<forall>k. k \<noteq> i \<longrightarrow> get_run_row d' k = get_run_row (w_db w) k) \<and>
      run_lines d' i = run_lines (w_db w) i @ lines @ last_words out"
  using assms by (rule process_run_cancel_aux)

theorem process_run_cancel_witness:
  "\<exists>d'. process_run mem_api default_settings
          (sample_env\<lparr>ex_meanwhile := (\<lambda>d. snd (store_cancel_run 6 1 d))\<rparr>) sample_clock 1 False ''w1'' sample_world =
        (Inr (), sample_world\<lparr>w_db := d'\<rparr>) \<and>
      run_lines d' 1 = [(STDOUT, ''hi'')]"
proof -
  have "run_lines (w_db sample_world) 1 = []" by code_simp
  then show ?thesis
    using process_run_cancel[of sample_world 1 "mk_run 1 1 MANUAL QUEUED 0" False
        "mk_job 1 1 ''extract'' ''manual'' None 2" ShellExec "sample_env\<lparr>ex_meanwhile := (\<lambda>d. snd (store_cancel_run 6 1 d))\<rparr>"
        "[(STDOUT, ''hi'')]" "Returned (ExecResult_ok (Some 0) None)" 6 mem_api default_settings sample_clock "''w1''"]
    by (auto simp: sample_world_def sample_wf claim_allowed_def mk_run_def mk_job_def sample_env_def
        get_executor_def REGISTRY_def TaskType_HTTP_def TaskType_SHELL_def TaskType_HTTP_ASYNC_def)
qed

text \<open>
  Claim C6: a failed or timed-out attempt within the retry budget leads to
  exactly one new run: of the same job, queued, marked as a retry, with the next
  attempt number, entered in the delayed set with the backoff as its delay. The
  failed run gets the status of its result, no other run changes and nothing is
  put on the dispatch stream yet.
\<close>

theorem on_failure_retry:
  assumes "redis_server api rinv stream zset"
    and "wf_db (w_db w)" and "rinv (w_redis w)"
    and "get_run_row (w_db w) (c_run_id c) = Some r" and "r_status r = RUNNING" and "c_job_id c = r_job_id r"
    and "x_status result \<in> {FAILED, TIMED_OUT}" and "c_attempt c \<le> c_max_retries c"
    and "on_failure api cfg ck c result w = (Inr (), w')"
  shows "\<exists>q r'. get_run_row (w_db w') (runs_seq (w_db w)) = Some q \<and> r_job_id q = r_job_id r \<and>
      r_trigger_type q = RETRY \<and> r_status q = QUEUED \<and> r_attempt q = c_attempt c + 1 \<and>
      get_run_row (w_db w') (c_run_id c) = Some r' \<and> r_status r' = x_status result \<and>
      (\<forall>k. k \<noteq> runs_seq (w_db w) \<and> k \<noteq> c_run_id c \<longrightarrow> get_run_row (w_db w') k = get_run_row (w_db w) k) \<and>
      stream (w_redis w') = stream (w_redis w) \<and>
      zset (w_redis w') = (zset (w_redis w))(delayed_set_key cfg :=
        (zset (w_redis w) (delayed_set_key cfg))(int_str (runs_seq (w_db w)) \<mapsto>
           ck_time ck + sec (backoff_seconds cfg (c_attempt c) (c_retry_backoff_sec c))))"
  by (rule redis_server.on_failure_retry_ok[OF assms])

theorem on_failure_retry_witness:
  "\<exists>w'. on_failure mem_api default_settings sample_clock sample_claimed (ExecResult_failed ''boom'' (Some 1) None)
          sample_running = (Inr (), w') \<and>
     mem_zset (w_redis w') ''jobs:delayed'' ''3'' = Some (9 + sec 30)"
proof -
  let ?p = "on_failure mem_api default_settings sample_clock sample_claimed (ExecResult_failed ''boom'' (Some 1) None)
          sample_running"
  have f: "fst ?p = Inr ()" by code_simp
  have s: "runs_seq (w_db sample_running) = 3 \<and> int_str 3 = ''3'' \<and>
      backoff_seconds default_settings (c_attempt sample_claimed) (c_retry_backoff_sec sample_claimed) = 30 \<and>
      delayed_set_key default_settings = ''jobs:delayed'' \<and> ck_time sample_clock = 9" by code_simp
  have r: "get_run_row (w_db sample_running) (c_run_id sample_claimed) = Some (claim_set 5 ''w1'' (mk_run 1 1 MANUAL QUEUED 0))"
    by (simp add: sample_running_def sample_world_def sample_claimed_def claimed_of_def mk_run_def snd_claim_run
        get_run_row_update claim_allowed_def sample_run_1[unfolded mk_run_def])
  have i: "mem_inv (w_redis sample_running)"
    by (simp add: sample_running_def sample_world_def mem_empty_inv)
  show ?thesis
    using on_failure_retry[OF mem.redis_server_axioms sample_running_wf i r, of "ExecResult_failed ''boom'' (Some 1) None"
        default_settings sample_clock "snd ?p"] f s
    by (auto simp: sample_claimed_def claimed_of_def claim_set_def mk_run_def mk_job_def ExecResult_failed_def prod_eq_iff)
qed


text \<open>
  When the budget is exhausted the failure is final: the run gets the
  status, exit code, result and error of its executor, and nothing else happens
  (no new run, no Redis command).
\<close>

lemma on_failure_final:
  assumes "wf_db (w_db w)" and "get_run_row (w_db w) (c_run_id c) = Some r" and "r_status r = RUNNING"
    and "c_max_retries c < c_attempt c"
  shows "\<exists>d'. on_failure api cfg ck c result w = (Inr (), w\<lparr>w_db := d'\<rparr>) \<and>
      get_run_row d' (c_run_id c) =
        Some (finish_set (ck_finish ck) (x_status result) (x_exit_code result) (x_result result) (x_error result) r) \<and>
      (\<forall>k. k \<noteq> c_run_id c \<longrightarrow> get_run_row d' k = get_run_row (w_db w) k)"
  using assms not_canceled[OF assms(1,2)]
  by (auto simp: on_failure_def should_retry_def finish_run_row finish_run_other)



text \<open>
  Claim C40: the error path of a retry. If Redis raises when the retry is put into
  the delayed set, the exception propagates with the retry run already committed
  as queued and the failed run still running: the failure itself is not recorded.
\<close>

theorem on_failure_redis_error:
  assumes "wf_db (w_db w)"
    and "get_run_row (w_db w) (c_run_id c) = Some r" and "r_status r = RUNNING" and "c_job_id c = r_job_id r"
    and "x_status result \<in> {FAILED, TIMED_OUT}" and "c_attempt c \<le> c_max_retries c"
    and "schedule_delayed_async api cfg (runs_seq (w_db w))
           (ck_time ck + sec (backoff_seconds cfg (c_attempt c) (c_retry_backoff_sec c))) (w_redis w) = (Inl e, r1)"
  shows "\<exists>d' q. on_failure api cfg ck c result w = (Inl e, w\<lparr>w_db := d', w_redis := r1\<rparr>) \<and>
      get_run_row d' (c_run_id c) = Some r \<and>
      get_run_row d' (runs_seq (w_db w)) = Some q \<and> r_status q = QUEUED \<and> r_attempt q = c_attempt c + 1"
proof -
  let ?n = "runs_seq (w_db w)"
  obtain q d1 where cr: "create_retry_run (ck_create ck ?n) (c_job_id c) (c_attempt c + 1) (w_db w) = (Inr ?n, d1)"
    and q: "r_status q = QUEUED" "r_attempt q = c_attempt c + 1"
    and rows: "\<And>k. get_run_row d1 k = (if k = ?n then Some q else get_run_row (w_db w) k)"
    by (rule create_retry_run_ok[OF assms(1), where j = "c_job_id c" and att = "c_attempt c + 1" and now = "ck_create ck ?n"])
      (use run_job_exists[OF assms(1,2)] assms(4) in auto)
  have "on_failure api cfg ck c result w = (Inl e, w\<lparr>w_db := d1, w_redis := r1\<rparr>)"
    using cr assms(3,5-) not_canceled[OF assms(1,2)]
    by (auto simp: on_failure_def Let_def eff_simps RETRYABLE_def should_retry_def)
  then show ?thesis
    using rows q assms(2) run_id_bound[OF assms(1,2)] by auto
qed

definition down_api :: "mem_redis redis_api" where
  "down_api = mem_api\<lparr>ZADD := (\<lambda>k m t r. (Inl ConnectionError, r))\<rparr>"

theorem on_failure_redis_error_witness:
  "\<exists>d' r. on_failure down_api default_settings sample_clock sample_claimed (ExecResult_failed ''boom'' (Some 1) None)
          sample_running = (Inl ConnectionError, sample_running\<lparr>w_db := d', w_redis := w_redis sample_running\<rparr>) \<and>
     get_run_row d' 1 = Some r \<and> r_status r = RUNNING"
proof -
  have r: "get_run_row (w_db sample_running) (c_run_id sample_claimed) = Some (claim_set 5 ''w1'' (mk_run 1 1 MANUAL QUEUED 0))"
    and c: "c_run_id sample_claimed = 1"
    by (simp_all add: sample_running_def sample_world_def sample_claimed_def claimed_of_def mk_run_def snd_claim_run
        get_run_row_update claim_allowed_def sample_run_1[unfolded mk_run_def])
  show ?thesis
    using on_failure_redis_error[OF sample_running_wf r, of "ExecResult_failed ''boom'' (Some 1) None" down_api
        default_settings sample_clock ConnectionError "w_redis sample_running"]
    unfolding c
    by (auto simp: sample_claimed_def claimed_of_def claim_set_def mk_run_def mk_job_def ExecResult_failed_def
        schedule_delayed_async_def down_api_def andthen_def)
qed

end
