(* ===== verification/Py_Json.thy ===== *)
theory Py_Json
  imports Models
begin

text \<open>
  What the executors do with decoded JSON (the task specification, response
  bodies): Python's \<^verbatim>\<open>str\<close>, \<^verbatim>\<open>dict.get\<close>, iteration, membership, \<^verbatim>\<open>or\<close> with a
  default and \<^verbatim>\<open>float\<close>, with the exceptions they raise on values of another
  type. The decimal text of floats and containers and the parsing of a float
  from text are arguments (record \<open>py_text\<close>); floats are rationals, so
  rounding, infinities and NaN are outside the model.
\<close>

record py_text =
  tx_repr :: "json \<Rightarrow> string"
  tx_float :: "string \<Rightarrow> rat option"
  tx_exn :: "exn \<Rightarrow> string"

text \<open>\<^verbatim>\<open>str(v)\<close>.\<close>

fun py_str :: "py_text \<Rightarrow> json \<Rightarrow> string" where
  "py_str tx (JStr s) = s"
| "py_str tx (JInt i) = int_str i"
| "py_str tx JNull = ''None''"
| "py_str tx (JBool b) = (if b then ''True'' else ''False'')"
| "py_str tx v = tx_repr tx v"

definition upper_char :: "char \<Rightarrow> char" where
  "upper_char c = (let n = (of_char c :: nat) in if 97 \<le> n \<and> n \<le> 122 then char_of (n - 32) else c)"

definition upper :: "string \<Rightarrow> string" where
  "upper s = map upper_char s"

text \<open>Lists and dicts are unhashable: they cannot be looked up in a dict.\<close>

fun hashable :: "json \<Rightarrow> bool" where
  "hashable (JArr _) = False"
| "hashable (JObj _) = False"
| "hashable _ = True"

text \<open>\<^verbatim>\<open>d.get(k, default)\<close> on a dict whose keys are strings.\<close>

definition dict_get :: "json_dict \<Rightarrow> string \<Rightarrow> json \<Rightarrow> json" where
  "dict_get d k dflt = (case map_of d k of None \<Rightarrow> dflt | Some v \<Rightarrow> v)"

definition dict_get_key :: "json_dict \<Rightarrow> json \<Rightarrow> json \<Rightarrow> exn + json" where
  "dict_get_key d k dflt =
     (if \<not> hashable k then Inl TypeError
      else Inr (case k of JStr s \<Rightarrow> dict_get d s dflt | _ \<Rightarrow> dflt))"

text \<open>\<^verbatim>\<open>v.get(k, default)\<close> on any decoded value.\<close>

definition json_get :: "json \<Rightarrow> json \<Rightarrow> json \<Rightarrow> exn + json" where
  "json_get v k dflt = (case v of JObj d \<Rightarrow> dict_get_key d k dflt | _ \<Rightarrow> Inl AttributeError)"

text \<open>\<^verbatim>\<open>d[k] = v\<close>: in place if the key exists, at the end otherwise.\<close>

fun dict_set :: "json_dict \<Rightarrow> string \<Rightarrow> json \<Rightarrow> json_dict" where
  "dict_set [] k v = [(k, v)]"
| "dict_set (e # d) k v = (if fst e = k then (k, v) # d else e # dict_set d k v)"

text \<open>\<^verbatim>\<open>v or default\<close>.\<close>

definition py_or :: "json \<Rightarrow> json \<Rightarrow> json" where
  "py_or v dflt = (if truthy v then v else dflt)"

text \<open>\<^verbatim>\<open>for x in v\<close>: the elements, the keys, the characters.\<close>

fun py_iter :: "json \<Rightarrow> exn + json list" where
  "py_iter (JArr xs) = Inr xs"
| "py_iter (JObj d) = Inr (map (JStr \<circ> fst) d)"
| "py_iter (JStr s) = Inr (map (\<lambda>c. JStr [c]) s)"
| "py_iter _ = Inl TypeError"

text \<open>Numeric value under Python's \<^verbatim>\<open>==\<close>, where \<^verbatim>\<open>True == 1 == 1.0\<close>.\<close>

fun num_val :: "json \<Rightarrow> rat option" where
  "num_val (JInt i) = Some (of_int i)"
| "num_val (JFloat x) = Some x"
| "num_val (JBool b) = Some (if b then 1 else 0)"
| "num_val _ = None"

text \<open>\<^verbatim>\<open>n in v\<close> for an integer: strings and scalars raise, dict keys are strings.\<close>

fun int_in :: "int \<Rightarrow> json \<Rightarrow> exn + bool" where
  "int_in n (JArr xs) = Inr (list_ex (\<lambda>x. num_val x = Some (of_int n)) xs)"
| "int_in n (JObj d) = Inr False"
| "int_in n _ = Inl TypeError"

text \<open>\<^verbatim>\<open>float(v)\<close>.\<close>

fun py_float :: "py_text \<Rightarrow> json \<Rightarrow> exn + rat" where
  "py_float tx (JStr s) = (case tx_float tx s of None \<Rightarrow> Inl ValueError | Some x \<Rightarrow> Inr x)"
| "py_float tx v = (case num_val v of None \<Rightarrow> Inl TypeError | Some x \<Rightarrow> Inr x)"

text \<open>\<^verbatim>\<open>v.lower()\<close>.\<close>

fun json_lower :: "json \<Rightarrow> exn + string" where
  "json_lower (JStr s) = Inr (lower s)"
| "json_lower _ = Inl AttributeError"

text \<open>A comprehension over a list whose body may raise.\<close>

fun try_map :: "('a \<Rightarrow> exn + 'b) \<Rightarrow> 'a list \<Rightarrow> exn + 'b list" where
  "try_map f [] = Inr []"
| "try_map f (x # xs) =
     (case f x of Inl e \<Rightarrow> Inl e
      | Inr y \<Rightarrow> (case try_map f xs of Inl e \<Rightarrow> Inl e | Inr ys \<Rightarrow> Inr (y # ys)))"

lemma map_of_dict_set: "map_of (dict_set d k v) = (map_of d)(k \<mapsto> v)"
  by (induction d) (auto simp: fun_eq_iff)

end
