(* ===== verification/Http_Exec.thy ===== *)
theory Http_Exec
  imports Runner Py_Json
begin

text \<open>
  \<^verbatim>\<open>backend/worker/executors/http.py\<close> and \<^verbatim>\<open>http_async.py\<close>. The HTTP client
  (httpx), the monotonic clock and \<^verbatim>\<open>asyncio.sleep\<close> are the record
  \<open>http_client\<close> over an opaque state of the outside world. An executor is an
  effect on that state and the lines logged so far; a cancellation is the
  exception \<open>CancelledError\<close>, raised by the client or the sleep.
\<close>

section \<open>The client and the log\<close>

text \<open>
  A request ends with a response (status, text, decoded body if it is JSON), a
  timeout or another \<^verbatim>\<open>httpx.HTTPError\<close> (with their text), or an exception that
  the executors do not handle. \<^verbatim>\<open>TimeoutException\<close> is an \<^verbatim>\<open>HTTPError\<close>.
\<close>

record response =
  rs_status :: int
  rs_text :: string
  rs_json :: "json option"

datatype reply = Response response | TimeoutException string | HTTPError string | Raised exn

record 'h http_client =
  hc_request :: "rat \<Rightarrow> string \<Rightarrow> json \<Rightarrow> json \<Rightarrow> json option \<Rightarrow> 'h \<Rightarrow> reply \<times> 'h"
  hc_monotonic :: "'h \<Rightarrow> rat \<times> 'h"
  hc_sleep :: "rat \<Rightarrow> 'h \<Rightarrow> (exn + unit) \<times> 'h"
  hc_status_error :: "response \<Rightarrow> string"

type_synonym log_line = "log_stream \<times> string"
type_synonym ('h, 'a) exec = "('h \<times> log_line list, 'a) eff"

definition log_line :: "log_stream \<Rightarrow> string \<Rightarrow> ('h, unit) exec" where
  "log_line stream line s = (Inr (), (fst s, snd s @ [(stream, line)]))"

definition outside :: "('h \<Rightarrow> 'a \<times> 'h) \<Rightarrow> ('h, 'a) exec" where
  "outside f s = (case f (fst s) of (x, h) \<Rightarrow> (Inr x, (h, snd s)))"

definition pure :: "exn + 'a \<Rightarrow> ('h, 'a) exec" where
  "pure x s = (x, s)"

lemma exec_simps:
  "outside f s = (x, s') \<longleftrightarrow> (\<exists>y h. f (fst s) = (y, h) \<and> x = Inr y \<and> s' = (h, snd s))"
  "log_line st l s = (z, s') \<longleftrightarrow> z = Inr () \<and> s' = (fst s, snd s @ [(st, l)])"
  "pure v s = (w, s') \<longleftrightarrow> w = v \<and> s' = s"
  "ret u s = (v', s') \<longleftrightarrow> v' = Inr u \<and> s' = s"
  "throw e s = (v'', s') \<longleftrightarrow> v'' = Inl e \<and> s' = s"
  by (auto simp: outside_def log_line_def pure_def ret_def throw_def split: prod.splits)

text \<open>How the runner sees the end of an executor.\<close>

definition outcome_of :: "py_text \<Rightarrow> exn + exec_result \<Rightarrow> outcome" where
  "outcome_of tx x = (case x of Inr r \<Rightarrow> Returned r
     | Inl e \<Rightarrow> (if e = CancelledError then Canceled else Crashed (tx_exn tx e)))"

definition spec_item :: "json_dict \<Rightarrow> string \<Rightarrow> exn + json" where
  "spec_item spec k = (case map_of spec k of None \<Rightarrow> Inl KeyError | Some v \<Rightarrow> Inr v)"

section \<open>http.py\<close>

definition is_success :: "int \<Rightarrow> json \<Rightarrow> exn + bool" where
  "is_success status_code expect =
     (if truthy expect then int_in status_code expect
      else Inr (200 \<le> status_code \<and> status_code < 300))"

definition body_arg :: "json \<Rightarrow> json option" where
  "body_arg body = (if body = JNull then None else Some body)"

text \<open>What is made of a response: two log lines, then success or failure.\<close>

definition http_response :: "json \<Rightarrow> response \<Rightarrow> ('h, exec_result) exec" where
  "http_response expect resp =
     (let snippet = take 2000 (rs_text resp);
          result = [(''status_code'', JInt (rs_status resp)), (''body'', JStr snippet)] in
      andthen (log_line STDOUT (''status='' @ int_str (rs_status resp))) (\<lambda>_.
      andthen (if snippet \<noteq> [] then log_line STDOUT snippet else ret ()) (\<lambda>_.
      andthen (pure (is_success (rs_status resp) expect)) (\<lambda>ok.
        if ok then ret (ExecResult_ok (Some 0) (Some result))
        else ret (ExecResult_failed (''unexpected status '' @ int_str (rs_status resp))
                    (Some (rs_status resp)) (Some result))))))"

definition http_execute ::
  "'h http_client \<Rightarrow> py_text \<Rightarrow> json_dict \<Rightarrow> int \<Rightarrow> ('h, exec_result) exec" where
  "http_execute cl tx spec timeout_sec =
     andthen (pure (spec_item spec ''url'')) (\<lambda>url.
     let mthd = upper (py_str tx (dict_get spec ''method'' (JStr ''GET'')));
         headers = py_or (dict_get spec ''headers'' JNull) (JObj []);
         body = dict_get spec ''body'' JNull;
         expect = dict_get spec ''expect'' JNull in
     andthen (log_line SYSTEM (''HTTP '' @ mthd @ '' '' @ py_str tx url)) (\<lambda>_.
     andthen (outside (hc_request cl (of_int timeout_sec) mthd url headers (body_arg body))) (\<lambda>reply.
       case reply of
         TimeoutException _ \<Rightarrow>
           ret (ExecResult_timed_out (''request to '' @ py_str tx url @ '' timed out after ''
                  @ int_str timeout_sec @ ''s'') None None)
       | HTTPError msg \<Rightarrow> ret (ExecResult_failed (''request error: '' @ msg) None None)
       | Raised e \<Rightarrow> throw e
       | Response resp \<Rightarrow> http_response expect resp)))"

section \<open>http_async.py\<close>

definition DEFAULT_SUCCESS :: json where
  "DEFAULT_SUCCESS = JArr [JStr ''succeeded'', JStr ''success'', JStr ''completed'', JStr ''done'']"

definition DEFAULT_FAILURE :: json where
  "DEFAULT_FAILURE = JArr [JStr ''failed'', JStr ''error'', JStr ''canceled'', JStr ''cancelled'']"

text \<open>\<^verbatim>\<open>{s.lower() for s in v}\<close>.\<close>

definition lower_set :: "json \<Rightarrow> exn + string list" where
  "lower_set v = (case py_iter v of Inl e \<Rightarrow> Inl e | Inr xs \<Rightarrow> try_map json_lower xs)"

text \<open>\<^verbatim>\<open>raise_for_status\<close>: anything but 2xx is an \<^verbatim>\<open>HTTPStatusError\<close>, an \<^verbatim>\<open>HTTPError\<close>.\<close>

definition raise_for_status :: "'h http_client \<Rightarrow> reply \<Rightarrow> reply" where
  "raise_for_status cl reply =
     (case reply of
        Response resp \<Rightarrow>
          if 200 \<le> rs_status resp \<and> rs_status resp \<le> 299 then reply else HTTPError (hc_status_error cl resp)
      | _ \<Rightarrow> reply)"

text \<open>The values of the specification that the polling loop uses.\<close>

record poll_cfg =
  pc_headers :: json
  pc_status_url :: json
  pc_status_field :: json
  pc_success :: "string list"
  pc_failure :: "string list"
  pc_interval :: rat
  pc_result_field :: json
  pc_timeout :: int
  pc_deadline :: rat
  pc_request_timeout :: rat

text \<open>\<^verbatim>\<open>try: poll ... except (httpx.HTTPError, ValueError)\<close>: the payload, \<^verbatim>\<open>{}\<close> after a poll error.\<close>

definition poll_error :: "string \<Rightarrow> ('h, json) exec" where
  "poll_error msg = andthen (log_line STDERR (''poll error (will retry): '' @ msg)) (\<lambda>_. ret (JObj []))"

definition poll_payload :: "'h http_client \<Rightarrow> py_text \<Rightarrow> poll_cfg \<Rightarrow> ('h, json) exec" where
  "poll_payload cl tx pc =
     andthen (outside (hc_request cl (pc_request_timeout pc) ''GET'' (pc_status_url pc) (pc_headers pc) None)) (\<lambda>reply.
       case raise_for_status cl reply of
         Response resp \<Rightarrow>
           (case rs_json resp of None \<Rightarrow> poll_error (tx_exn tx ValueError) | Some payload \<Rightarrow> ret payload)
       | TimeoutException msg \<Rightarrow> poll_error msg
       | HTTPError msg \<Rightarrow> poll_error msg
       | Raised e \<Rightarrow> if e = ValueError then poll_error (tx_exn tx e) else throw e)"

text \<open>\<^verbatim>\<open>result_field and result_field in payload\<close>, and the copied field.\<close>

definition add_result_field :: "json \<Rightarrow> json \<Rightarrow> json_dict \<Rightarrow> exn + json_dict" where
  "add_result_field result_field payload result =
     (case payload of
        JObj d \<Rightarrow>
          (if \<not> truthy result_field then Inr result
           else if \<not> hashable result_field then Inl TypeError
           else (case result_field of
                   JStr k \<Rightarrow> (case map_of d k of None \<Rightarrow> Inr result | Some v \<Rightarrow> Inr (dict_set result k v))
                 | _ \<Rightarrow> Inr result))
      | _ \<Rightarrow> Inl AttributeError)"

text \<open>The state of the remote task, decided once per poll: a result or go on.\<close>

definition poll_once ::
  "'h http_client \<Rightarrow> py_text \<Rightarrow> poll_cfg \<Rightarrow> ('h, exec_result option) exec" where
  "poll_once cl tx pc =
     andthen (poll_payload cl tx pc) (\<lambda>payload.
     andthen (pure (json_get payload (pc_status_field pc) (JStr []))) (\<lambda>v.
     let state = lower (py_str tx v) in
     andthen (if state \<noteq> [] then log_line STDOUT (''status='' @ state) else ret ()) (\<lambda>_.
       if state \<in> set (pc_success pc) then
         andthen (pure (add_result_field (pc_result_field pc) payload [(''status'', JStr state)])) (\<lambda>result.
         ret (Some (ExecResult_ok (Some 0) (Some result))))
       else if state \<in> set (pc_failure pc) then
         ret (Some (ExecResult_failed (''remote task reported '' @ [CHR 0x27] @ state @ [CHR 0x27]) None
                     (Some [(''status'', JStr state)])))
       else ret None)))"

text \<open>The sleep between two polls, capped by the time that remains.\<close>

definition poll_pause :: "'h http_client \<Rightarrow> poll_cfg \<Rightarrow> ('h, unit) exec" where
  "poll_pause cl pc =
     andthen (outside (hc_monotonic cl)) (\<lambda>now.
     let remaining = pc_deadline pc - now in
     if remaining \<le> 0 then ret ()
     else andthen (outside (hc_sleep cl (min (pc_interval pc) remaining))) pure)"

definition poll_timed_out :: "poll_cfg \<Rightarrow> exec_result" where
  "poll_timed_out pc = ExecResult_timed_out (''polling exceeded timeout of '' @ int_str (pc_timeout pc) @ ''s'')
     None (Some [(''status_url'', pc_status_url pc)])"

text \<open>One turn of the \<^verbatim>\<open>while True\<close> loop.\<close>

definition poll_turn ::
  "'h http_client \<Rightarrow> py_text \<Rightarrow> poll_cfg \<Rightarrow> ('h, exec_result option) exec" where
  "poll_turn cl tx pc =
     andthen (outside (hc_monotonic cl)) (\<lambda>now.
     if pc_deadline pc \<le> now then ret (Some (poll_timed_out pc))
     else andthen (poll_once cl tx pc) (\<lambda>res.
       case res of Some x \<Rightarrow> ret (Some x)
       | None \<Rightarrow> andthen (poll_pause cl pc) (\<lambda>_. ret None)))"

partial_function (option) poll_loop ::
  "'h http_client \<Rightarrow> py_text \<Rightarrow> poll_cfg \<Rightarrow> 'h \<times> log_line list \<Rightarrow>
   ((exn + exec_result) \<times> 'h \<times> log_line list) option" where
  "poll_loop cl tx pc s =
     (case poll_turn cl tx pc s of
        (Inl e, s') \<Rightarrow> Some (Inl e, s')
      | (Inr (Some x), s') \<Rightarrow> Some (Inr x, s')
      | (Inr None, s') \<Rightarrow> poll_loop cl tx pc s')"

declare poll_loop.simps [code]

text \<open>Everything before the loop: either an early result or the values of the loop.\<close>

definition status_url_of :: "json \<Rightarrow> json \<Rightarrow> response \<Rightarrow> exn + json" where
  "status_url_of status_url status_url_field resp =
     (if truthy status_url then Inr status_url
      else (case rs_json resp of None \<Rightarrow> Inr JNull | Some v \<Rightarrow> json_get v status_url_field JNull))"

definition async_request ::
  "'h http_client \<Rightarrow> py_text \<Rightarrow> json_dict \<Rightarrow> int \<Rightarrow> json \<Rightarrow> string list \<Rightarrow> string list \<Rightarrow> rat \<Rightarrow> rat \<Rightarrow>
   ('h, exec_result + poll_cfg) exec" where
  "async_request cl tx spec timeout_sec url success_values failure_values poll_interval deadline =
     (let mthd = upper (py_str tx (dict_get spec ''method'' (JStr ''POST'')));
          headers = py_or (dict_get spec ''headers'' JNull) (JObj []);
          body = dict_get spec ''body'' JNull;
          status_url_field = dict_get spec ''status_url_field'' (JStr ''status_url'');
          request_timeout = of_int (min 30 timeout_sec) in
     andthen (log_line SYSTEM (''submit '' @ mthd @ '' '' @ py_str tx url)) (\<lambda>_.
     andthen (outside (hc_request cl request_timeout mthd url headers (body_arg body))) (\<lambda>reply.
       case raise_for_status cl reply of
         TimeoutException msg \<Rightarrow> ret (Inl (ExecResult_failed (''submission failed: '' @ msg) None None))
       | HTTPError msg \<Rightarrow> ret (Inl (ExecResult_failed (''submission failed: '' @ msg) None None))
       | Raised e \<Rightarrow> throw e
       | Response resp \<Rightarrow>
           andthen (pure (status_url_of (dict_get spec ''status_url'' JNull) status_url_field resp)) (\<lambda>status_url.
           if \<not> truthy status_url then
             ret (Inl (ExecResult_failed (''no status_url provided and response had no '' @ [CHR 0x27]
                         @ py_str tx status_url_field @ [CHR 0x27]) None None))
           else
             andthen (log_line SYSTEM (''polling '' @ py_str tx status_url @ '' every ''
                        @ py_str tx (JFloat poll_interval) @ ''s'')) (\<lambda>_.
             ret (Inr \<lparr>pc_headers = headers, pc_status_url = status_url,
               pc_status_field = dict_get spec ''status_field'' (JStr ''status''),
               pc_success = success_values, pc_failure = failure_values, pc_interval = poll_interval,
               pc_result_field = dict_get spec ''result_field'' JNull, pc_timeout = timeout_sec,
               pc_deadline = deadline, pc_request_timeout = request_timeout\<rparr>))))))"

definition async_submit ::
  "'h http_client \<Rightarrow> py_text \<Rightarrow> json_dict \<Rightarrow> int \<Rightarrow> ('h, exec_result + poll_cfg) exec" where
  "async_submit cl tx spec timeout_sec =
     andthen (pure (spec_item spec ''url'')) (\<lambda>url.
     andthen (pure (lower_set (dict_get spec ''success_values'' DEFAULT_SUCCESS))) (\<lambda>success_values.
     andthen (pure (lower_set (dict_get spec ''failure_values'' DEFAULT_FAILURE))) (\<lambda>failure_values.
     andthen (pure (py_float tx (dict_get spec ''poll_interval_sec'' (JInt 10)))) (\<lambda>poll_interval.
     andthen (outside (hc_monotonic cl)) (\<lambda>now.
     async_request cl tx spec timeout_sec url success_values failure_values poll_interval
       (now + of_int timeout_sec))))))"

definition async_execute ::
  "'h http_client \<Rightarrow> py_text \<Rightarrow> json_dict \<Rightarrow> int \<Rightarrow> 'h \<times> log_line list \<Rightarrow>
   ((exn + exec_result) \<times> 'h \<times> log_line list) option" where
  "async_execute cl tx spec timeout_sec s =
     (case async_submit cl tx spec timeout_sec s of
        (Inl e, s') \<Rightarrow> Some (Inl e, s')
      | (Inr (Inl x), s') \<Rightarrow> Some (Inr x, s')
      | (Inr (Inr pc), s') \<Rightarrow> poll_loop cl tx pc s')"

section \<open>The clock, and why polling ends\<close>

text \<open>Every executor lets time pass and only adds to the log.\<close>

definition exec_later :: "('h \<Rightarrow> rat) \<Rightarrow> 'h \<times> log_line list \<Rightarrow> 'h \<times> log_line list \<Rightarrow> bool" where
  "exec_later clock s s' \<longleftrightarrow> clock (fst s) \<le> clock (fst s') \<and> (\<exists>ls. snd s' = snd s @ ls)"

interpretation exec_later: eff_preorder "exec_later clock" for clock
  by unfold_locales (auto simp: exec_later_def)

lemma keeps_log_line: "keeps (exec_later clock) (log_line st l)"
  by (rule keepsI) (simp add: exec_later_def log_line_def)

lemma keeps_pure: "keeps (exec_later clock) (pure x)"
  by (rule keepsI) (simp add: exec_later_def pure_def)

lemma keeps_outside: "(\<And>h. clock h \<le> clock (snd (f h))) \<Longrightarrow> keeps (exec_later clock) (outside f)"
  by (rule keepsI) (simp add: exec_later_def outside_def split_beta)

lemmas keeps_exec = exec_later.keeps_ret exec_later.keeps_throw exec_later.keeps_andthen
  keeps_log_line keeps_pure

lemma keeps_if: "keeps R a \<Longrightarrow> keeps R b \<Longrightarrow> keeps R (if c then a else b)"
  by simp

lemma keeps_reply:
  "(\<And>x. keeps R (a x)) \<Longrightarrow> (\<And>x. keeps R (b x)) \<Longrightarrow> (\<And>x. keeps R (c x)) \<Longrightarrow> (\<And>x. keeps R (d x)) \<Longrightarrow>
   keeps R (case r of Response x \<Rightarrow> a x | TimeoutException x \<Rightarrow> b x | HTTPError x \<Rightarrow> c x | Raised x \<Rightarrow> d x)"
  by (cases r) auto

lemma keeps_option: "keeps R a \<Longrightarrow> (\<And>x. keeps R (b x)) \<Longrightarrow> keeps R (case r of None \<Rightarrow> a | Some x \<Rightarrow> b x)"
  by (cases r) auto

lemma interval_progress:
  fixes p :: rat
  assumes p: "0 < p" and m: "min (a + p) d \<le> b"
  shows "(d - b) / p \<le> max ((d - a) / p - 1) 0"
proof -
  have "(d - a) / p - 1 = (d - a - p) / p" using p by (simp add: diff_divide_distrib)
  moreover have "(d - b) / p \<le> (d - a - p) / p \<or> (d - b) / p \<le> 0"
  proof (cases "a + p \<le> d")
    case True
    then have "(d - b) / p \<le> (d - a - p) / p" using p m by (intro divide_right_mono) auto
    then show ?thesis ..
  next
    case False
    then show ?thesis using p m by (simp add: divide_le_0_iff)
  qed
  ultimately show ?thesis by auto
qed

lemma ceiling_drop:
  fixes x y :: rat
  assumes "y \<le> max (x - 1) 0" and "0 < x"
  shows "nat \<lceil>y\<rceil> < nat \<lceil>x\<rceil>"
proof -
  have "\<lceil>y\<rceil> \<le> \<lceil>max (x - 1) 0\<rceil>" using assms(1) by (rule ceiling_mono)
  also have "\<dots> \<le> max (\<lceil>x\<rceil> - 1) 0" by (simp add: max_def)
  finally show ?thesis using assms(2) by auto
qed

text \<open>
  What the loop relies on: the monotonic clock never goes back, and a sleep
  that is not canceled lasts at least as long as asked for.
\<close>

locale http_world =
  fixes cl :: "'h http_client"
    and clock :: "'h \<Rightarrow> rat"
  assumes now: "hc_monotonic cl h = (t, h') \<Longrightarrow> clock h \<le> t \<and> t \<le> clock h'"
    and request_time: "clock h \<le> clock (snd (hc_request cl tmo mt url hs b h))"
    and sleep_time: "clock h \<le> clock (snd (hc_sleep cl d h))"
    and sleep_full: "hc_sleep cl d h = (Inr u, h') \<Longrightarrow> clock h + d \<le> clock h'"
begin

lemma keeps_request: "keeps (exec_later clock) (outside (hc_request cl tmo mt url hs b))"
  by (rule keeps_outside) (rule request_time)

lemma keeps_sleep: "keeps (exec_later clock) (outside (hc_sleep cl d))"
  by (rule keeps_outside) (rule sleep_time)

lemma keeps_monotonic: "keeps (exec_later clock) (outside (hc_monotonic cl))"
proof (rule keeps_outside)
  fix h show "clock h \<le> clock (snd (hc_monotonic cl h))"
    using now[of h] by (cases "hc_monotonic cl h") force
qed

lemmas keeps_calls = keeps_exec keeps_request keeps_sleep keeps_monotonic keeps_if keeps_reply keeps_option

lemma keeps_poll_payload: "keeps (exec_later clock) (poll_payload cl tx pc)"
  unfolding poll_payload_def poll_error_def by (intro keeps_calls)

lemma keeps_poll_once: "keeps (exec_later clock) (poll_once cl tx pc)"
  unfolding poll_once_def Let_def by (intro keeps_calls keeps_poll_payload)

lemma keeps_poll_pause: "keeps (exec_later clock) (poll_pause cl pc)"
  unfolding poll_pause_def Let_def by (intro keeps_calls)

lemma keeps_poll_turn: "keeps (exec_later clock) (poll_turn cl tx pc)"
  unfolding poll_turn_def by (intro keeps_calls keeps_poll_once keeps_poll_pause)

lemma keeps_async_submit: "keeps (exec_later clock) (async_submit cl tx spec t)"
  unfolding async_submit_def async_request_def Let_def by (intro keeps_calls)

text \<open>A turn that goes on has slept for the interval or up to the deadline.\<close>

lemma poll_pause_time:
  assumes "poll_pause cl pc s = (Inr u, s')"
  shows "min (clock (fst s) + pc_interval pc) (pc_deadline pc) \<le> clock (fst s')"
proof -
  obtain t h where t: "hc_monotonic cl (fst s) = (t, h)" by (cases "hc_monotonic cl (fst s)")
  note n = now[OF t]
  show ?thesis
  proof (cases "pc_deadline pc - t \<le> 0")
    case True
    then show ?thesis using assms n by (auto simp: poll_pause_def andthen_def exec_simps outside_def t)
  next
    case False
    then obtain v h' where "hc_sleep cl (min (pc_interval pc) (pc_deadline pc - t)) h = (Inr v, h')" "fst s' = h'"
      using assms by (auto simp: poll_pause_def andthen_value exec_simps t Let_def)
    from sleep_full[OF this(1)] this(2) n show ?thesis by (auto simp: min_def split: if_splits)
  qed
qed

lemma poll_turn_goes_on:
  assumes "poll_turn cl tx pc s = (Inr None, s')"
  shows "clock (fst s) < pc_deadline pc" and "min (clock (fst s) + pc_interval pc) (pc_deadline pc) \<le> clock (fst s')"
proof -
  obtain t s1 s2 u where t: "hc_monotonic cl (fst s) = (t, fst s1)" and dl: "t < pc_deadline pc"
    and o: "poll_once cl tx pc s1 = (Inr None, s2)" and p: "poll_pause cl pc s2 = (Inr u, s')"
    using assms by (fastforce simp: poll_turn_def andthen_value exec_simps split: if_splits option.splits)
  have a: "clock (fst s) \<le> t" "t \<le> clock (fst s1)" using now[OF t] by auto
  then show "clock (fst s) < pc_deadline pc" using dl by simp
  have "clock (fst s1) \<le> clock (fst s2)" using keepsD[OF keeps_poll_once o] by (simp add: exec_later_def)
  then show "min (clock (fst s) + pc_interval pc) (pc_deadline pc) \<le> clock (fst s')"
    using poll_pause_time[OF p] a by (simp add: min_def split: if_splits)
qed

text \<open>What a poll that decides says about the result.\<close>

lemma poll_once_result:
  assumes "poll_once cl tx pc s = (Inr (Some r), s')"
  shows "x_status r = FAILED \<or> x_status r = SUCCEEDED \<and>
    (\<exists>st \<in> set (pc_success pc). st = [] \<or> last (snd s') = (STDOUT, ''status='' @ st))"
  using assms
  by (auto simp: poll_once_def andthen_value exec_simps Let_def ExecResult_ok_def ExecResult_failed_def
      split: if_splits)

definition poll_verdict :: "poll_cfg \<Rightarrow> exec_result \<Rightarrow> 'h \<times> log_line list \<Rightarrow> bool" where
  "poll_verdict pc r s' \<longleftrightarrow>
     (case x_status r of
        SUCCEEDED \<Rightarrow> \<exists>st \<in> set (pc_success pc). st = [] \<or> last (snd s') = (STDOUT, ''status='' @ st)
      | TIMED_OUT \<Rightarrow> pc_deadline pc \<le> clock (fst s')
      | FAILED \<Rightarrow> True
      | _ \<Rightarrow> False)"

lemma poll_verdictD:
  "poll_verdict pc r s' \<Longrightarrow> x_status r = FAILED \<or> x_status r = TIMED_OUT \<and> pc_deadline pc \<le> clock (fst s') \<or>
     x_status r = SUCCEEDED \<and> (\<exists>st \<in> set (pc_success pc). st = [] \<or> last (snd s') = (STDOUT, ''status='' @ st))"
  by (cases "x_status r") (auto simp: poll_verdict_def)

lemma poll_turn_result:
  assumes "poll_turn cl tx pc s = (Inr (Some r), s')"
  shows "poll_verdict pc r s'"
proof -
  obtain t s1 where t: "hc_monotonic cl (fst s) = (t, fst s1)" and s1: "s1 = (fst s1, snd s)"
    and d: "(if pc_deadline pc \<le> t then ret (Some (poll_timed_out pc))
       else andthen (poll_once cl tx pc) (\<lambda>res. case res of Some x \<Rightarrow> ret (Some x)
         | None \<Rightarrow> andthen (poll_pause cl pc) (\<lambda>_. ret None))) s1 = (Inr (Some r), s')"
    using assms by (fastforce simp: poll_turn_def andthen_value exec_simps)
  show ?thesis
  proof (cases "pc_deadline pc \<le> t")
    case True
    then show ?thesis using d now[OF t]
      by (auto simp: exec_simps poll_verdict_def poll_timed_out_def ExecResult_timed_out_def)
  next
    case False
    then have "poll_once cl tx pc s1 = (Inr (Some r), s')"
      using d by (auto simp: andthen_value exec_simps split: option.splits)
    from poll_once_result[OF this] show ?thesis by (auto simp: poll_verdict_def)
  qed
qed

lemma poll_loop_returns:
  assumes pos: "0 < pc_interval pc"
  shows "\<exists>x s'. poll_loop cl tx pc s = Some (x, s') \<and> exec_later clock s s' \<and>
    (\<forall>r. x = Inr r \<longrightarrow> poll_verdict pc r s')"
proof (induction "nat \<lceil>(pc_deadline pc - clock (fst s)) / pc_interval pc\<rceil>" arbitrary: s rule: less_induct)
  case less
  obtain y s1 where t: "poll_turn cl tx pc s = (y, s1)" by (metis prod.exhaust)
  have l: "exec_later clock s s1" by (rule keepsD[OF keeps_poll_turn t])
  consider (exn) e where "y = Inl e" | (res) r where "y = Inr (Some r)" | (on) "y = Inr None"
    by (metis option.exhaust sum.exhaust)
  then show ?case
  proof cases
    case on
    note g = poll_turn_goes_on[OF t[unfolded on]]
    let ?m = "\<lambda>s. (pc_deadline pc - clock (fst s)) / pc_interval pc"
    have "?m s1 \<le> max (?m s - 1) 0" by (rule interval_progress[OF pos g(2)])
    moreover have "0 < ?m s" using g(1) pos by simp
    ultimately have "nat \<lceil>?m s1\<rceil> < nat \<lceil>?m s\<rceil>" by (rule ceiling_drop)
    from less.hyps[OF this] obtain x s' where
      "poll_loop cl tx pc s1 = Some (x, s')" "exec_later clock s1 s'" "\<forall>r. x = Inr r \<longrightarrow> poll_verdict pc r s'"
      by blast
    then show ?thesis
      using t on exec_later.R_trans[OF l] by (subst poll_loop.simps) auto
  next
    case res
    then show ?thesis using t l poll_turn_result[of tx pc s r s1] by (subst poll_loop.simps) auto
  qed (use t l in \<open>subst poll_loop.simps, auto\<close>)
qed

end

section \<open>A scripted client\<close>

text \<open>
  A client that answers from a list, one tenth of a second per request, with a
  clock that only requests and sleeps move.
\<close>

type_synonym script = "rat \<times> reply list"

definition script_request ::
  "rat \<Rightarrow> string \<Rightarrow> json \<Rightarrow> json \<Rightarrow> json option \<Rightarrow> script \<Rightarrow> reply \<times> script" where
  "script_request tmo mt url hs b h =
     (case snd h of [] \<Rightarrow> (TimeoutException ''timed out'', (fst h + max 0 tmo, []))
      | r # rs \<Rightarrow> (r, (fst h + 1 / 10, rs)))"

definition script_client :: "script http_client" where
  "script_client = \<lparr>hc_request = script_request, hc_monotonic = (\<lambda>h. (fst h, h)),
     hc_sleep = (\<lambda>d h. (Inr (), (fst h + max 0 d, snd h))), hc_status_error = (\<lambda>r. ''status error'')\<rparr>"

interpretation script: http_world script_client fst
  by unfold_locales (auto simp: script_client_def script_request_def split: list.splits)

definition sample_text :: py_text where
  "sample_text = \<lparr>tx_repr = (\<lambda>_. ''...''), tx_float = (\<lambda>_. None), tx_exn = (\<lambda>_. ''error'')\<rparr>"

definition ok_json :: "json_dict \<Rightarrow> reply" where
  "ok_json d = Response \<lparr>rs_status = 200, rs_text = ''{...}'', rs_json = Some (JObj d)\<rparr>"

section \<open>Outcomes\<close>

lemmas result_defs = ExecResult_ok_def ExecResult_failed_def ExecResult_timed_out_def

lemma gives_reply:
  "(\<And>x. r = Response x \<Longrightarrow> gives P (a x)) \<Longrightarrow> (\<And>x. gives P (b x)) \<Longrightarrow> (\<And>x. gives P (c x)) \<Longrightarrow> (\<And>x. gives P (d x)) \<Longrightarrow>
   gives P (case r of Response x \<Rightarrow> a x | TimeoutException x \<Rightarrow> b x | HTTPError x \<Rightarrow> c x | Raised x \<Rightarrow> d x)"
  by (cases r) auto

lemma pure_bind_at: "andthen (pure v) f s = (Inr x, s') \<longleftrightarrow> (\<exists>y. v = Inr y \<and> f y s = (Inr x, s'))"
  by (auto simp: andthen_value exec_simps)

lemma outside_bind_at:
  "andthen (outside f) g s = (Inr x, s') \<longleftrightarrow> g (fst (f (fst s))) (snd (f (fst s)), snd s) = (Inr x, s')"
  by (cases "f (fst s)") (auto simp: andthen_value exec_simps)

lemma gives_pure_bind: "(\<And>x. v = Inr x \<Longrightarrow> gives P (f x)) \<Longrightarrow> gives P (andthen (pure v) f)"
  unfolding gives_def pure_bind_at by blast

lemmas gives_rules = gives_pure_bind gives_bind gives_ret gives_throw gives_if gives_reply

lemma gives_http: "gives (\<lambda>r. x_status r \<in> {SUCCEEDED, FAILED, TIMED_OUT}) (http_execute cl tx spec t)"
  unfolding http_execute_def http_response_def Let_def
  by (rule gives_rules | simp add: result_defs)+

lemma http_result_status:
  "http_execute cl tx spec t s = (Inr r, s') \<Longrightarrow> x_status r \<in> {SUCCEEDED, FAILED, TIMED_OUT}"
  using gives_http by (rule givesD)

text \<open>The verdict on a response, for an \<^verbatim>\<open>expect\<close> that is absent or a list of integers.\<close>

lemma http_response_verdict:
  assumes "expect = JNull \<and> codes = [] \<or> expect = JArr (map JInt codes)"
  shows "\<exists>r s'. http_response expect resp s = (Inr r, s') \<and>
    (x_status r = SUCCEEDED \<longleftrightarrow> rs_status resp \<in> (if codes = [] then {200..299} else set codes)) \<and>
    x_status r \<in> {SUCCEEDED, FAILED}"
proof -
  have "is_success (rs_status resp) expect = Inr (rs_status resp \<in> (if codes = [] then {200..299} else set codes))"
    using assms by (auto simp: is_success_def list_ex_iff)
  then show ?thesis
    by (auto simp: http_response_def andthen_def exec_simps Let_def log_line_def pure_def ret_def
        ExecResult_ok_def ExecResult_failed_def split: prod.splits sum.splits)
qed

lemma gives_request:
  "gives (\<lambda>y. case y of Inl r \<Rightarrow> x_status r = FAILED
     | Inr pc \<Rightarrow> pc_success pc = su \<and> pc_interval pc = p \<and> pc_deadline pc = dl)
   (async_request cl tx spec t url su fa p dl)"
  unfolding async_request_def Let_def
  by (rule gives_rules | simp add: result_defs)+

lemma async_submit_result:
  assumes "async_submit cl tx spec t s = (Inr y, s')"
  shows "case y of Inl r \<Rightarrow> x_status r = FAILED
     | Inr pc \<Rightarrow> lower_set (dict_get spec ''success_values'' DEFAULT_SUCCESS) = Inr (pc_success pc) \<and>
         py_float tx (dict_get spec ''poll_interval_sec'' (JInt 10)) = Inr (pc_interval pc) \<and>
         pc_deadline pc = fst (hc_monotonic cl (fst s)) + of_int t"
proof -
  obtain url su fa p s1 where c: "lower_set (dict_get spec ''success_values'' DEFAULT_SUCCESS) = Inr su"
      "py_float tx (dict_get spec ''poll_interval_sec'' (JInt 10)) = Inr p"
    and r: "async_request cl tx spec t url su fa p (fst (hc_monotonic cl (fst s)) + of_int t) s1 = (Inr y, s')"
    using assms by (auto simp: async_submit_def pure_bind_at outside_bind_at)
  show ?thesis using givesD[OF gives_request r] c by (auto split: sum.splits)
qed


section \<open>Properties\<close>

text \<open>
  Claim C16: the polling executor always ends. With a positive polling interval,
  a clock that does not go back and sleeps that last, the executor returns or
  raises after finitely many polls, whatever the remote side answers. A timeout
  is reported only when the deadline (the start plus the job's timeout) has
  passed, a success only when the last poll reported one of the success values,
  and there is no other kind of result.
\<close>

theorem async_execute_returns:
  assumes w: "http_world cl clock"
    and p: "py_float tx (dict_get spec ''poll_interval_sec'' (JInt 10)) = Inr p" "0 < p"
  shows "\<exists>x s'. async_execute cl tx spec t s = Some (x, s') \<and> exec_later clock s s' \<and>
    (\<forall>r. x = Inr r \<longrightarrow>
       x_status r = FAILED \<or>
       x_status r = TIMED_OUT \<and> clock (fst s) + of_int t \<le> clock (fst s') \<or>
       x_status r = SUCCEEDED \<and> (\<exists>vs. lower_set (dict_get spec ''success_values'' DEFAULT_SUCCESS) = Inr vs \<and>
         (\<exists>st \<in> set vs. st = [] \<or> last (snd s') = (STDOUT, ''status='' @ st))))"
proof -
  obtain y s1 where sub: "async_submit cl tx spec t s = (y, s1)" by (metis prod.exhaust)
  have l: "exec_later clock s s1" by (rule keepsD[OF http_world.keeps_async_submit[OF w] sub])
  consider (exn) e where "y = Inl e" | (early) r where "y = Inr (Inl r)" | (poll) pc where "y = Inr (Inr pc)"
    by (metis sum.exhaust)
  then show ?thesis
  proof cases
    case poll
    have c: "lower_set (dict_get spec ''success_values'' DEFAULT_SUCCESS) = Inr (pc_success pc)"
        "0 < pc_interval pc" "pc_deadline pc = fst (hc_monotonic cl (fst s)) + of_int t"
      using async_submit_result[OF sub[unfolded poll]] p by auto
    have "clock (fst s) \<le> fst (hc_monotonic cl (fst s))"
      using http_world.now[OF w, of "fst s"] by (cases "hc_monotonic cl (fst s)") auto
    then have dl: "clock (fst s) + of_int t \<le> pc_deadline pc" using c(3) by simp
    from http_world.poll_loop_returns[OF w c(2), of tx s1] obtain x s' where
      r: "poll_loop cl tx pc s1 = Some (x, s')" "exec_later clock s1 s'"
        "\<forall>r. x = Inr r \<longrightarrow> http_world.poll_verdict clock pc r s'" by blast
    have e: "async_execute cl tx spec t s = Some (x, s')" using sub poll r(1) by (simp add: async_execute_def)
    have v: "x_status r = FAILED \<or> x_status r = TIMED_OUT \<and> clock (fst s) + of_int t \<le> clock (fst s') \<or>
       x_status r = SUCCEEDED \<and> (\<exists>st \<in> set (pc_success pc). st = [] \<or> last (snd s') = (STDOUT, ''status='' @ st))"
      if "x = Inr r" for r
      using r(3) that http_world.poll_verdictD[OF w, of pc r s'] dl by fastforce
    show ?thesis
      using e v exec_later.R_trans[OF l r(2)] c(1) by (intro exI[of _ x] exI[of _ s']) simp
  next
    case early
    then show ?thesis using sub l async_submit_result[of cl tx spec t s "Inl r" s1] by (auto simp: async_execute_def)
  qed (use sub l in \<open>simp add: async_execute_def\<close>)
qed

definition sample_async_spec :: json_dict where
  "sample_async_spec = [(''url'', JStr ''http://batch/submit''), (''poll_interval_sec'', JInt 5)]"

theorem async_execute_returns_witness:
  "\<exists>x s'. async_execute script_client sample_text sample_async_spec 60
       ((0, [ok_json [(''status_url'', JStr ''http://batch/1'')], ok_json [(''status'', JStr ''Running'')],
             HTTPError ''refused'', ok_json [(''status'', JStr ''DONE'')]]), []) = Some (Inr x, s') \<and>
     x_status x = SUCCEEDED \<and> last (snd s') = (STDOUT, ''status=done'')"
proof -
  let ?s = "((0, [ok_json [(''status_url'', JStr ''http://batch/1'')], ok_json [(''status'', JStr ''Running'')],
             HTTPError ''refused'', ok_json [(''status'', JStr ''DONE'')]]), [])"
  have "py_float sample_text (dict_get sample_async_spec ''poll_interval_sec'' (JInt 10)) = Inr 5"
    by (simp add: dict_get_def sample_async_spec_def)
  from async_execute_returns[OF script.http_world_axioms this] obtain x s' where
    "async_execute script_client sample_text sample_async_spec 60 ?s = Some (x, s')" by fastforce
  moreover have "map_option (\<lambda>y. ((case fst y of Inl _ \<Rightarrow> False | Inr r \<Rightarrow> x_status r = SUCCEEDED), last (snd (snd y))))
      (async_execute script_client sample_text sample_async_spec 60 ?s) = Some (True, (STDOUT, ''status=done''))"
    by code_simp
  ultimately show ?thesis by (cases x) auto
qed

end
