(* ===== verification/Shell_Exec.thy ===== *)
theory Shell_Exec
  imports Http_Exec
begin

text \<open>
  \<^verbatim>\<open>backend/worker/executors/shell.py\<close>. \<^verbatim>\<open>shlex.split\<close> and \<^verbatim>\<open>shlex.join\<close> are
  modelled as the standard library defines them (POSIX mode), \<^verbatim>\<open>Path(...).name\<close>
  for POSIX paths. The operating system (temporary directories, processes,
  signals) is the record \<open>os_api\<close> over an opaque state.
\<close>

section \<open>shlex\<close>

datatype lex_state = Start | Word | Quote char | Escape lex_state

definition lex_space :: "char \<Rightarrow> bool" where
  "lex_space c \<longleftrightarrow> c \<in> {CHR '' '', CHR 0x09, CHR 0x0D, CHR 0x0A}"

definition lex_quote :: "char \<Rightarrow> bool" where
  "lex_quote c \<longleftrightarrow> c \<in> {CHR 0x27, CHR 0x22}"

definition backslash :: char where
  "backslash = CHR 0x5C"

text \<open>
  The state machine of \<^verbatim>\<open>shlex.read_token\<close>, iterated: state, token so far,
  whether a quote occurred in it, remaining input.
\<close>

fun read_tokens :: "lex_state \<Rightarrow> string \<Rightarrow> bool \<Rightarrow> string \<Rightarrow> exn + string list" where
  "read_tokens Start tok q [] = Inr []"
| "read_tokens Word tok q [] = Inr (if tok \<noteq> [] \<or> q then [tok] else [])"
| "read_tokens (Quote k) tok q [] = Inl ValueError"
| "read_tokens (Escape st) tok q [] = Inl ValueError"
| "read_tokens Start tok q (c # cs) =
     (if lex_space c then read_tokens Start [] False cs
      else if c = backslash then read_tokens (Escape Word) tok q cs
      else if lex_quote c then read_tokens (Quote c) tok q cs
      else read_tokens Word [c] q cs)"
| "read_tokens Word tok q (c # cs) =
     (if lex_space c then
        (if tok \<noteq> [] \<or> q then map_sum id (Cons tok) (read_tokens Start [] False cs) else read_tokens Start [] False cs)
      else if lex_quote c then read_tokens (Quote c) tok q cs
      else if c = backslash then read_tokens (Escape Word) tok q cs
      else read_tokens Word (tok @ [c]) q cs)"
| "read_tokens (Quote k) tok q (c # cs) =
     (if c = k then read_tokens Word tok True cs
      else if c = backslash \<and> k = CHR 0x22 then read_tokens (Escape (Quote k)) tok True cs
      else read_tokens (Quote k) (tok @ [c]) True cs)"
| "read_tokens (Escape st) tok q (c # cs) =
     (let keep = (case st of Quote k \<Rightarrow> c \<noteq> backslash \<and> c \<noteq> k | _ \<Rightarrow> False)
      in read_tokens st (if keep then tok @ [backslash, c] else tok @ [c]) q cs)"

definition shlex_split :: "string \<Rightarrow> exn + string list" where
  "shlex_split s = read_tokens Start [] False s"

text \<open>\<^verbatim>\<open>shlex.quote\<close>: safe are ASCII word characters and \<^verbatim>\<open>@%+=:,./-\<close>.\<close>

definition shell_safe :: "char \<Rightarrow> bool" where
  "shell_safe c \<longleftrightarrow> (let n = (of_char c :: nat) in
     (48 \<le> n \<and> n \<le> 57) \<or> (65 \<le> n \<and> n \<le> 90) \<or> (97 \<le> n \<and> n \<le> 122) \<or> c \<in> set ''_@%+=:,./-'')"

definition quote_char :: "char \<Rightarrow> string" where
  "quote_char c = (if c = CHR 0x27 then [CHR 0x27, CHR 0x22, CHR 0x27, CHR 0x22, CHR 0x27] else [c])"

definition shlex_quote :: "string \<Rightarrow> string" where
  "shlex_quote s =
     (if s = [] then [CHR 0x27, CHR 0x27]
      else if list_all shell_safe s then s
      else CHR 0x27 # concat (map quote_char s) @ [CHR 0x27])"

fun shlex_join :: "string list \<Rightarrow> string" where
  "shlex_join [] = []"
| "shlex_join [a] = shlex_quote a"
| "shlex_join (a # as) = shlex_quote a @ CHR '' '' # shlex_join as"

section \<open>Paths\<close>

fun split_on :: "char \<Rightarrow> string \<Rightarrow> string list" where
  "split_on sep [] = [[]]"
| "split_on sep (c # cs) =
     (if c = sep then [] # split_on sep cs
      else case split_on sep cs of [] \<Rightarrow> [[c]] | p # ps \<Rightarrow> (c # p) # ps)"

text \<open>\<^verbatim>\<open>Path(s).name\<close>: empty and \<^verbatim>\<open>.\<close> components vanish; the last one left, or nothing.\<close>

definition path_parts :: "string \<Rightarrow> string list" where
  "path_parts s = filter (\<lambda>p. p \<noteq> [] \<and> p \<noteq> ''.'') (split_on (CHR ''/'') s)"

definition path_name :: "string \<Rightarrow> string" where
  "path_name s = (if path_parts s = [] then [] else last (path_parts s))"

definition path_join :: "string \<Rightarrow> string \<Rightarrow> string" where
  "path_join dir name = dir @ ''/'' @ name"

section \<open>The operating system\<close>

text \<open>
  Output is a list of decoded lines as \<^verbatim>\<open>readline\<close> returns them, in the order in
  which the two pumps log them: up to the end of the wait, and after it until
  both pipes are closed.
\<close>

datatype spawned = Started | OSError string | SpawnRaised exn

datatype waited = Exited | WaitTimeout | WaitCanceled

record 'o os_api =
  os_mkdtemp :: "'o \<Rightarrow> (exn + string) \<times> 'o"
  os_write_text :: "string \<Rightarrow> string \<Rightarrow> 'o \<Rightarrow> (exn + unit) \<times> 'o"
  os_rmtree :: "string \<Rightarrow> 'o \<Rightarrow> unit \<times> 'o"
  os_spawn :: "string list \<Rightarrow> (string \<times> string) list \<Rightarrow> json \<Rightarrow> 'o \<Rightarrow> spawned \<times> 'o"
  os_wait :: "int \<Rightarrow> 'o \<Rightarrow> (waited \<times> log_line list) \<times> 'o"
  os_drain :: "'o \<Rightarrow> log_line list \<times> 'o"
  os_killpg :: "'o \<Rightarrow> bool \<times> 'o"
  os_kill :: "'o \<Rightarrow> bool \<times> 'o"
  os_returncode :: "'o \<Rightarrow> int option \<times> 'o"

section \<open>shell.py\<close>

definition rstrip_nl :: "string \<Rightarrow> string" where
  "rstrip_nl s = rev (dropWhile (\<lambda>c. c = CHR 0x0A) (rev s))"

text \<open>\<^verbatim>\<open>_pump\<close> on the lines that arrive.\<close>

definition pump :: "log_line list \<Rightarrow> ('o, unit) exec" where
  "pump raws = for_each raws (\<lambda>(name, raw). log_line name (rstrip_nl raw))"

text \<open>\<^verbatim>\<open>_terminate\<close>: the group, or the process if the group cannot be signalled.\<close>

definition terminate :: "'o os_api \<Rightarrow> ('o, unit) exec" where
  "terminate os = andthen (outside (os_killpg os)) (\<lambda>ok.
     if ok then ret () else andthen (outside (os_kill os)) (\<lambda>_. ret ()))"

definition build_argv :: "py_text \<Rightarrow> json_dict \<Rightarrow> exn + string list" where
  "build_argv tx spec =
     (case spec_item spec ''command'' of Inl e \<Rightarrow> Inl e
      | Inr command \<Rightarrow>
          (case py_iter (py_or (dict_get spec ''args'' JNull) (JArr [])) of Inl e \<Rightarrow> Inl e
           | Inr args \<Rightarrow>
               (case shlex_split (py_str tx command) of Inl e \<Rightarrow> Inl e
                | Inr words \<Rightarrow>
                    let argv = words @ map (py_str tx) args
                    in if argv = [] then Inl ValueError else Inr argv)))"

text \<open>The loop that puts the path of the script in place of its name.\<close>

fun rewrite_argv :: "string \<Rightarrow> string \<Rightarrow> string list \<Rightarrow> string list \<times> bool" where
  "rewrite_argv filename script [] = ([], False)"
| "rewrite_argv filename script (arg # args) =
     (case rewrite_argv filename script args of (rest, replaced) \<Rightarrow>
        if path_name arg = filename then (script # rest, True) else (arg # rest, replaced))"

definition materialize_uploaded_script ::
  "'o os_api \<Rightarrow> py_text \<Rightarrow> json_dict \<Rightarrow> string list \<Rightarrow> ('o, string option \<times> string list) exec" where
  "materialize_uploaded_script os tx spec argv =
     (let content = dict_get spec ''file_content'' JNull;
          source_filename = dict_get spec ''source_filename'' JNull in
      if content = JNull \<or> source_filename = JNull then ret (None, argv)
      else
        let filename = path_name (py_str tx source_filename) in
        if filename = [] \<or> filename \<in> {''.'', ''..''} then throw ValueError
        else
          andthen (andthen (outside (os_mkdtemp os)) pure) (\<lambda>temp_dir.
          let script_path = path_join temp_dir filename in
          andthen (andthen (outside (os_write_text os script_path (py_str tx content))) pure) (\<lambda>_.
          case rewrite_argv filename script_path argv of (rewritten, replaced) \<Rightarrow>
            ret (Some temp_dir, if replaced then rewritten else rewritten @ [script_path]))))"

definition cleanup :: "'o os_api \<Rightarrow> string option \<Rightarrow> ('o, unit) exec" where
  "cleanup os temp_dir = (case temp_dir of None \<Rightarrow> ret () | Some d \<Rightarrow> outside (os_rmtree os d))"

text \<open>\<^verbatim>\<open>(spec.get("env") or {}).items()\<close>, converted to text.\<close>

definition extra_env :: "py_text \<Rightarrow> json_dict \<Rightarrow> exn + (string \<times> string) list" where
  "extra_env tx spec =
     (case py_or (dict_get spec ''env'' JNull) (JObj []) of
        JObj d \<Rightarrow> Inr (map (\<lambda>(k, v). (k, py_str tx v)) d)
      | _ \<Rightarrow> Inl AttributeError)"

text \<open>From the start of the process to its end: the pumps, the timeout, the cancellation.\<close>

definition drain :: "'o os_api \<Rightarrow> ('o, unit) exec" where
  "drain os = andthen (outside (os_drain os)) pump"

definition await_process ::
  "'o os_api \<Rightarrow> int \<Rightarrow> string option \<Rightarrow> ('o, exec_result) exec" where
  "await_process os timeout_sec temp_dir =
     andthen (outside (os_wait os timeout_sec)) (\<lambda>(how, raws).
     andthen (pump raws) (\<lambda>_.
       case how of
         WaitTimeout \<Rightarrow>
           andthen (terminate os) (\<lambda>_. andthen (drain os) (\<lambda>_.
           andthen (outside (os_returncode os)) (\<lambda>code.
           andthen (cleanup os temp_dir) (\<lambda>_.
           ret (ExecResult_timed_out (''command exceeded timeout of '' @ int_str timeout_sec @ ''s'') code None)))))
       | WaitCanceled \<Rightarrow>
           andthen (log_line SYSTEM ''cancellation requested; terminating process'') (\<lambda>_.
           andthen (terminate os) (\<lambda>_. andthen (drain os) (\<lambda>_.
           andthen (cleanup os temp_dir) (\<lambda>_. throw CancelledError))))
       | Exited \<Rightarrow>
           andthen (drain os) (\<lambda>_. andthen (cleanup os temp_dir) (\<lambda>_.
           andthen (outside (os_returncode os)) (\<lambda>code.
             let result = [(''exit_code'', case code of None \<Rightarrow> JNull | Some c \<Rightarrow> JInt c)] in
             if code = Some 0 then ret (ExecResult_ok (Some 0) (Some [(''exit_code'', JInt 0)]))
             else ret (ExecResult_failed (''command exited with code '' @
                         (case code of None \<Rightarrow> ''None'' | Some c \<Rightarrow> int_str c)) code (Some result)))))))"

definition start_process ::
  "'o os_api \<Rightarrow> json_dict \<Rightarrow> int \<Rightarrow> string option \<Rightarrow> string list \<Rightarrow> (string \<times> string) list \<Rightarrow>
   ('o, exec_result) exec" where
  "start_process os spec timeout_sec temp_dir argv env =
     andthen (outside (os_spawn os argv env (dict_get spec ''cwd'' JNull))) (\<lambda>spawned.
       case spawned of
         OSError msg \<Rightarrow>
           andthen (cleanup os temp_dir) (\<lambda>_.
           ret (ExecResult_failed (''failed to start process: '' @ msg) None None))
       | SpawnRaised e \<Rightarrow> throw e
       | Started \<Rightarrow> await_process os timeout_sec temp_dir)"

definition run_process ::
  "'o os_api \<Rightarrow> py_text \<Rightarrow> json_dict \<Rightarrow> int \<Rightarrow> string option \<Rightarrow> string list \<Rightarrow> ('o, exec_result) exec" where
  "run_process os tx spec timeout_sec temp_dir argv =
     andthen (pure (extra_env tx spec)) (\<lambda>env.
     andthen (log_line SYSTEM (CHR 0x24 # '' '' @ shlex_join argv)) (\<lambda>_.
     start_process os spec timeout_sec temp_dir argv env))"

text \<open>A \<^verbatim>\<open>ValueError\<close> while the command line is built is a failed result.\<close>

definition prepare_argv ::
  "'o os_api \<Rightarrow> py_text \<Rightarrow> json_dict \<Rightarrow> ('o, string option \<times> string list) exec" where
  "prepare_argv os tx spec =
     andthen (pure (build_argv tx spec)) (materialize_uploaded_script os tx spec)"

definition shell_execute ::
  "'o os_api \<Rightarrow> py_text \<Rightarrow> json_dict \<Rightarrow> int \<Rightarrow> ('o, exec_result) exec" where
  "shell_execute os tx spec timeout_sec s =
     (case prepare_argv os tx spec s of
        (Inl e, s1) \<Rightarrow>
          if e = ValueError then (Inr (ExecResult_failed (''failed to parse command: '' @ tx_exn tx e) None None), s1)
          else (Inl e, s1)
      | (Inr (temp_dir, argv), s1) \<Rightarrow>
          run_process os tx spec timeout_sec temp_dir argv s1)"

section \<open>Lemmas on shlex\<close>

lemma safe_plain:
  "shell_safe c \<Longrightarrow> \<not> lex_space c \<and> \<not> lex_quote c \<and> c \<noteq> backslash"
  by (auto simp: shell_safe_def lex_space_def lex_quote_def backslash_def Let_def)

lemma lex_safe: "list_all shell_safe s \<Longrightarrow> read_tokens Word tok q (s @ rest) = read_tokens Word (tok @ s) q rest"
  by (induction s arbitrary: tok) (auto simp: safe_plain)

lemma lex_single_quoted:
  "read_tokens (Quote (CHR 0x27)) tok q (concat (map quote_char s) @ CHR 0x27 # rest) = read_tokens Word (tok @ s) True rest"
proof (induction s arbitrary: tok q)
  case (Cons c s)
  show ?case
  proof (cases "c = CHR 0x27")
    case True
    then have "quote_char c = [CHR 0x27, CHR 0x22, CHR 0x27, CHR 0x22, CHR 0x27]" by (simp add: quote_char_def)
    with True show ?thesis by (simp add: lex_space_def lex_quote_def backslash_def Cons.IH)
  next
    case False
    then have "quote_char c = [c]" by (simp add: quote_char_def)
    with False show ?thesis by (simp add: backslash_def Cons.IH)
  qed
qed simp

lemma lex_quote_word:
  "\<exists>q. read_tokens Start [] False (shlex_quote a @ rest) = read_tokens Word a q rest \<and> (a \<noteq> [] \<or> q)"
proof (cases "a \<noteq> [] \<and> list_all shell_safe a")
  case True
  then obtain c s where a: "a = c # s" "shell_safe c" "list_all shell_safe s" by (cases a) auto
  then show ?thesis using lex_safe[of s "[c]" False rest] by (auto simp: shlex_quote_def safe_plain)
next
  case False
  then have "shlex_quote a = CHR 0x27 # concat (map quote_char a) @ [CHR 0x27]" by (auto simp: shlex_quote_def)
  then show ?thesis
    using lex_single_quoted[of "[]" False a rest]
    by (intro exI[of _ True]) (simp add: lex_space_def lex_quote_def backslash_def)
qed

lemma split_join: "shlex_split (shlex_join argv) = Inr argv"
proof (induction argv rule: shlex_join.induct)
  case (2 a)
  then show ?case using lex_quote_word[of a "[]"] by (auto simp: shlex_split_def)
next
  case (3 a b as)
  then show ?case using lex_quote_word[of a "CHR '' '' # shlex_join (b # as)"]
    by (auto simp: shlex_split_def lex_space_def)
qed (simp add: shlex_split_def)

section \<open>Lemmas on paths and on the uploaded script\<close>

lemma split_on_sep: "p \<in> set (split_on sep s) \<Longrightarrow> sep \<notin> set p"
  by (induction s arbitrary: p) (auto split: if_splits list.splits)

lemma split_on_none: "sep \<notin> set s \<Longrightarrow> split_on sep s = [s]"
  by (induction s) auto

lemma split_on_nonempty [simp]: "split_on sep s \<noteq> []"
  by (induction s) (auto split: list.splits)

lemma split_on_append: "sep \<notin> set t \<Longrightarrow> split_on sep (s @ sep # t) = split_on sep s @ [t]"
  by (induction s) (auto simp: split_on_none split: list.splits)

lemma path_name_in: "path_name s \<noteq> [] \<Longrightarrow> CHR ''/'' \<notin> set (path_name s) \<and> path_name s \<noteq> ''.''"
proof -
  assume ne: "path_name s \<noteq> []"
  then have "path_parts s \<noteq> []" by (auto simp: path_name_def)
  then have "path_name s \<in> set (path_parts s)" by (simp add: path_name_def)
  then show ?thesis by (auto simp: path_parts_def dest: split_on_sep)
qed

lemma path_name_plain: "CHR ''/'' \<notin> set s \<Longrightarrow> s \<noteq> ''.'' \<Longrightarrow> path_name s = s"
  by (auto simp: path_name_def path_parts_def split_on_none)

lemma path_name_join: "CHR ''/'' \<notin> set f \<Longrightarrow> f \<noteq> [] \<Longrightarrow> f \<noteq> ''.'' \<Longrightarrow> path_name (path_join dir f) = f"
  by (simp add: path_name_def path_parts_def path_join_def split_on_append)

lemma rewrite_argv_eq:
  "rewrite_argv f p argv = (map (\<lambda>a. if path_name a = f then p else a) argv, f \<in> path_name ` set argv)"
  by (induction argv) auto

text \<open>Where the script goes, and what becomes of the command line.\<close>

lemma materialize_value:
  assumes "materialize_uploaded_script os tx spec argv s = (Inr (temp_dir, argv'), s')"
  shows "case temp_dir of
      None \<Rightarrow> argv' = argv \<and> s' = s
    | Some dir \<Rightarrow> (\<exists>content name f h. dict_get spec ''file_content'' JNull = content \<and> content \<noteq> JNull \<and>
        dict_get spec ''source_filename'' JNull = name \<and> f = path_name (py_str tx name) \<and>
        f \<noteq> [] \<and> f \<noteq> ''..'' \<and>
        os_mkdtemp os (fst s) = (Inr dir, h) \<and>
        os_write_text os (path_join dir f) (py_str tx content) h = (Inr (), fst s') \<and> snd s' = snd s \<and>
        argv' = (let new = map (\<lambda>a. if path_name a = f then path_join dir f else a) argv
                 in if f \<in> path_name ` set argv then new else new @ [path_join dir f]))"
  using assms
  by (auto simp: materialize_uploaded_script_def Let_def andthen_value exec_simps rewrite_argv_eq split: if_splits)

section \<open>Outcomes\<close>

lemma gives_cases:
  "(\<And>x. gives P (a x)) \<Longrightarrow> (\<And>x. gives P (b x)) \<Longrightarrow> gives P c \<Longrightarrow>
   gives P (case r of OSError x \<Rightarrow> a x | SpawnRaised x \<Rightarrow> b x | Started \<Rightarrow> c)"
  "gives P d \<Longrightarrow> gives P e \<Longrightarrow> gives P f \<Longrightarrow>
   gives P (case w of WaitTimeout \<Rightarrow> d | WaitCanceled \<Rightarrow> e | Exited \<Rightarrow> f)"
  "(\<And>x y. gives P (g x y)) \<Longrightarrow> gives P (case p of (x, y) \<Rightarrow> g x y)"
  subgoal by (cases r) auto
  subgoal by (cases w) auto
  subgoal by (cases p) auto
  done

lemma gives_await: "gives (\<lambda>r. x_status r \<in> {SUCCEEDED, FAILED, TIMED_OUT}) (await_process os t d)"
  unfolding await_process_def Let_def
  by (rule gives_rules gives_cases | simp add: result_defs)+

lemma gives_run: "gives (\<lambda>r. x_status r \<in> {SUCCEEDED, FAILED, TIMED_OUT}) (run_process os tx spec t d argv)"
  unfolding run_process_def start_process_def
  by (rule gives_await gives_rules gives_cases | simp add: result_defs)+

lemma shell_result_status:
  assumes "shell_execute os tx spec t s = (Inr r, s')"
  shows "x_status r \<in> {SUCCEEDED, FAILED, TIMED_OUT}"
proof -
  obtain y s1 where p: "prepare_argv os tx spec s = (y, s1)" by (metis prod.exhaust)
  show ?thesis
  proof (cases y)
    case (Inl e)
    then show ?thesis using assms p by (auto simp: shell_execute_def result_defs split: if_splits)
  next
    case (Inr z)
    then have "run_process os tx spec t (fst z) (snd z) s1 = (Inr r, s')"
      using assms p by (simp add: shell_execute_def split_beta)
    then show ?thesis by (rule givesD[OF gives_run])
  qed
qed


text \<open>The command line is never empty.\<close>

lemma build_argv_nonempty: "build_argv tx spec = Inr argv \<Longrightarrow> argv \<noteq> []"
  by (auto simp: build_argv_def Let_def split: sum.splits if_splits)

lemma prepare_argv_value:
  assumes "prepare_argv os tx spec s = (Inr (d, argv), s')"
  obtains argv0 where "build_argv tx spec = Inr argv0" "argv0 \<noteq> []"
    "materialize_uploaded_script os tx spec argv0 s = (Inr (d, argv), s')"
  using assms build_argv_nonempty by (auto simp: prepare_argv_def pure_bind_at)

lemma prepare_argv_nonempty: "prepare_argv os tx spec s = (Inr (d, argv), s') \<Longrightarrow> argv \<noteq> []"
  by (elim prepare_argv_value) (auto dest!: materialize_value simp: Let_def split: option.splits if_splits)

text \<open>Nothing removes what has been logged.\<close>

definition logs_grow :: "'o \<times> log_line list \<Rightarrow> 'o \<times> log_line list \<Rightarrow> bool" where
  "logs_grow s s' \<longleftrightarrow> (\<exists>ls. snd s' = snd s @ ls)"

interpretation logs_grow: eff_preorder logs_grow
  by unfold_locales (auto simp: logs_grow_def)

lemma grow_basic: "keeps logs_grow (log_line st l)" "keeps logs_grow (pure x)" "keeps logs_grow (outside f)"
  by (auto simp: keeps_def logs_grow_def log_line_def pure_def outside_def split: prod.splits)

lemma keeps_cases:
  "(\<And>x. keeps R (a x)) \<Longrightarrow> (\<And>x. keeps R (b x)) \<Longrightarrow> keeps R c \<Longrightarrow>
   keeps R (case r of OSError x \<Rightarrow> a x | SpawnRaised x \<Rightarrow> b x | Started \<Rightarrow> c)"
  "keeps R d \<Longrightarrow> keeps R e \<Longrightarrow> keeps R f \<Longrightarrow>
   keeps R (case w of WaitTimeout \<Rightarrow> d | WaitCanceled \<Rightarrow> e | Exited \<Rightarrow> f)"
  "(\<And>x y. keeps R (g x y)) \<Longrightarrow> keeps R (case p of (x, y) \<Rightarrow> g x y)"
  subgoal by (cases r) auto
  subgoal by (cases w) auto
  subgoal by (cases p) auto
  done

lemmas grow_rules = logs_grow.keeps_ret logs_grow.keeps_throw logs_grow.keeps_andthen logs_grow.keeps_for_each
  grow_basic keeps_if keeps_option keeps_cases

lemma grow_pump: "keeps logs_grow (pump raws)"
  unfolding pump_def by (intro grow_rules)

lemma grow_await: "keeps logs_grow (await_process os t d)"
  unfolding await_process_def drain_def terminate_def cleanup_def Let_def by (intro grow_rules grow_pump)

lemma grow_start: "keeps logs_grow (start_process os spec t d argv env)"
  unfolding start_process_def cleanup_def by (intro grow_rules grow_await)

section \<open>Properties\<close>



text \<open>
  A small operating system for the closed examples: numbered temporary
  directories, a list of files, and a process that prints one line and exits.
\<close>

record mem_os =
  mo_next :: nat
  mo_files :: "(string \<times> string) list"
  mo_spawned :: "string list list"
  mo_code :: int

definition mem_os_api :: "mem_os os_api" where
  "mem_os_api = \<lparr>os_mkdtemp = (\<lambda>h. (Inr (''/tmp/job-scheduler-script-'' @ nat_str (mo_next h)), h\<lparr>mo_next := Suc (mo_next h)\<rparr>)),
     os_write_text = (\<lambda>p t h. (Inr (), h\<lparr>mo_files := (p, t) # mo_files h\<rparr>)),
     os_rmtree = (\<lambda>d h. ((), h\<lparr>mo_files := filter (\<lambda>e. take (Suc (length d)) (fst e) \<noteq> d @ ''/'') (mo_files h)\<rparr>)),
     os_spawn = (\<lambda>argv env cwd h. (Started, h\<lparr>mo_spawned := mo_spawned h @ [argv]\<rparr>)),
     os_wait = (\<lambda>t h. ((Exited, [(STDOUT, ''hello'' @ [CHR 0x0A])]), h)),
     os_drain = (\<lambda>h. ([], h)), os_killpg = (\<lambda>h. (True, h)), os_kill = (\<lambda>h. (True, h)),
     os_returncode = (\<lambda>h. (Some (mo_code h), h))\<rparr>"

definition mem_os_init :: mem_os where
  "mem_os_init = \<lparr>mo_next = 1, mo_files = [], mo_spawned = [], mo_code = 0\<rparr>"

definition sample_script_spec :: json_dict where
  "sample_script_spec = [(''command'', JStr ''python''), (''args'', JArr [JStr ''report.py'']),
     (''source_filename'', JStr ''../up loads/report.py''), (''file_content'', JStr ''print(1)'')]"


text \<open>
  Claim C20: an uploaded script stays inside its temporary directory. Whatever
  name the specification gives, the file that is written is a direct entry of the
  fresh directory (its name has no slash and is not a dot or dot-dot), the command
  line mentions it, and every other argument is one that the specification gave.
\<close>

theorem shell_script_contained:
  assumes "prepare_argv os tx spec s = (Inr (Some dir, argv), s')"
  shows "\<exists>f argv0 content h. build_argv tx spec = Inr argv0 \<and>
    CHR ''/'' \<notin> set f \<and> f \<notin> {[], ''.'', ''..''} \<and>
    os_mkdtemp os (fst s) = (Inr dir, h) \<and> os_write_text os (path_join dir f) content h = (Inr (), fst s') \<and>
    path_join dir f \<in> set argv \<and>
    (\<forall>a \<in> set argv. a = path_join dir f \<or> a \<in> set argv0 \<and> path_name a \<noteq> f)"
proof -
  from assms obtain argv0 where b: "build_argv tx spec = Inr argv0"
    and m: "materialize_uploaded_script os tx spec argv0 s = (Inr (Some dir, argv), s')"
    by (elim prepare_argv_value)
  from materialize_value[OF m] obtain f name content h where
    f: "f = path_name (py_str tx name)" "f \<noteq> []" "f \<noteq> ''..''"
    and o: "os_mkdtemp os (fst s) = (Inr dir, h)" "os_write_text os (path_join dir f) (py_str tx content) h = (Inr (), fst s')"
    and a: "argv = (let new = map (\<lambda>a. if path_name a = f then path_join dir f else a) argv0
                 in if f \<in> path_name ` set argv0 then new else new @ [path_join dir f])"
    by (auto simp del: Let_def)
  have "CHR ''/'' \<notin> set f \<and> f \<notin> {[], ''.'', ''..''}" using path_name_in[of "py_str tx name"] f by auto
  moreover have "path_join dir f \<in> set argv \<and>
    (\<forall>a \<in> set argv. a = path_join dir f \<or> a \<in> set argv0 \<and> path_name a \<noteq> f)"
    using a by (auto simp: Let_def image_iff split: if_splits)
  ultimately show ?thesis using b o by blast
qed

theorem shell_script_contained_witness:
  "\<exists>s' f. prepare_argv mem_os_api sample_text sample_script_spec (mem_os_init, []) =
       (Inr (Some ''/tmp/job-scheduler-script-1'', [''python'', ''/tmp/job-scheduler-script-1/report.py'']), s') \<and>
     CHR ''/'' \<notin> set f \<and> path_join ''/tmp/job-scheduler-script-1'' f \<in>
       {''python'', ''/tmp/job-scheduler-script-1/report.py''}"
proof -
  let ?p = "prepare_argv mem_os_api sample_text sample_script_spec (mem_os_init, [])"
  have "fst ?p = Inr (Some ''/tmp/job-scheduler-script-1'', [''python'', ''/tmp/job-scheduler-script-1/report.py''])"
    by code_simp
  then have p: "?p = (Inr (Some ''/tmp/job-scheduler-script-1'', [''python'', ''/tmp/job-scheduler-script-1/report.py'']), snd ?p)"
    by (simp add: prod_eq_iff)
  from shell_script_contained[OF p] obtain f where
    "CHR ''/'' \<notin> set f" "path_join ''/tmp/job-scheduler-script-1'' f \<in> set [''python'', ''/tmp/job-scheduler-script-1/report.py'']"
    by blast
  with p show ?thesis by (metis list.set(1) list.set(2))
qed

end
