(* ===== verification/Executors.thy ===== *)
theory Executors
  imports Shell_Exec
begin

text \<open>
  The three executors behind the registry of \<^verbatim>\<open>executors/__init__.py\<close>, as the
  environment of the runner. An executor that never returns ends only when its
  task is canceled.
\<close>

definition exec_view :: "py_text \<Rightarrow> (exn + exec_result) \<times> 'h \<times> log_line list \<Rightarrow> log_line list \<times> outcome" where
  "exec_view tx y = (snd (snd y), outcome_of tx (fst y))"

definition execute ::
  "'h http_client \<Rightarrow> 'h os_api \<Rightarrow> py_text \<Rightarrow> 'h \<Rightarrow> executor \<Rightarrow> json_dict \<Rightarrow> int \<Rightarrow> log_line list \<times> outcome" where
  "execute cl os tx h e spec timeout_sec =
     (case e of
        HttpExec \<Rightarrow> exec_view tx (http_execute cl tx spec timeout_sec (h, []))
      | ShellExec \<Rightarrow> exec_view tx (shell_execute os tx spec timeout_sec (h, []))
      | HttpAsyncExec \<Rightarrow>
          (case async_execute cl tx spec timeout_sec (h, []) of
             None \<Rightarrow> ([], Canceled)
           | Some y \<Rightarrow> exec_view tx y))"

definition worker_env ::
  "'h http_client \<Rightarrow> 'h os_api \<Rightarrow> py_text \<Rightarrow> 'h \<Rightarrow> (db \<Rightarrow> db) \<Rightarrow> exec_env" where
  "worker_env cl os tx h meanwhile =
     \<lparr>ex_run = execute cl os tx h, ex_text = tx_exn tx, ex_meanwhile = meanwhile\<rparr>"

section \<open>The executors keep the contract of the runner\<close>

lemma outcome_of_Returned [simp]: "outcome_of tx x = Returned r \<longleftrightarrow> x = Inr r"
  by (auto simp: outcome_of_def split: sum.splits)

text \<open>The results of the polling loop need no assumption on the clock.\<close>

lemma poll_once_status:
  "poll_once cl tx pc s = (Inr (Some r), s') \<Longrightarrow> x_status r \<in> {SUCCEEDED, FAILED}"
  by (auto simp: poll_once_def andthen_value exec_simps Let_def result_defs split: if_splits)

lemma poll_turn_status:
  "poll_turn cl tx pc s = (Inr (Some r), s') \<Longrightarrow> x_status r \<in> {SUCCEEDED, FAILED, TIMED_OUT}"
  by (auto simp: poll_turn_def andthen_value exec_simps poll_timed_out_def result_defs
      dest!: poll_once_status split: if_splits option.splits)

lemma poll_loop_status:
  "poll_loop cl tx pc s = Some y \<Longrightarrow> fst y = Inr r \<Longrightarrow> x_status r \<in> {SUCCEEDED, FAILED, TIMED_OUT}"
proof (induction arbitrary: r rule: poll_loop.raw_induct[rotated, consumes 1, case_names step])
  case (step self cl tx pc s y)
  then show ?case
    by (auto split: prod.splits sum.splits option.splits dest: poll_turn_status)
qed

lemma async_result_status:
  assumes "async_execute cl tx spec t s = Some (Inr r, s')"
  shows "x_status r \<in> {SUCCEEDED, FAILED, TIMED_OUT}"
proof -
  obtain y s1 where sub: "async_submit cl tx spec t s = (y, s1)" by (metis prod.exhaust)
  consider (exn) e where "y = Inl e" | (early) x where "y = Inr (Inl x)" | (poll) pc where "y = Inr (Inr pc)"
    by (metis sum.exhaust)
  then show ?thesis
  proof cases
    case early
    then show ?thesis using assms sub async_submit_result[OF sub[unfolded early]] by (simp add: async_execute_def)
  next
    case poll
    then have "poll_loop cl tx pc s1 = Some (Inr r, s')" using assms sub by (simp add: async_execute_def)
    then show ?thesis using poll_loop_status[of cl tx pc s1 "(Inr r, s')" r] by simp
  qed (use assms sub in \<open>simp add: async_execute_def\<close>)
qed

lemma execute_status:
  "execute cl os tx h e spec t = (lines, Returned r) \<Longrightarrow> x_status r \<in> {SUCCEEDED, FAILED, TIMED_OUT}"
proof -
  have "x_status r \<in> {SUCCEEDED, FAILED, TIMED_OUT}" if "fst (http_execute cl tx spec t (h, [])) = Inr r"
    using http_result_status[of cl tx spec t "(h, [])" r] that by (metis prod.collapse)
  moreover have "x_status r \<in> {SUCCEEDED, FAILED, TIMED_OUT}" if "fst (shell_execute os tx spec t (h, [])) = Inr r"
    using shell_result_status[of os tx spec t "(h, [])" r] that by (metis prod.collapse)
  moreover have "x_status r \<in> {SUCCEEDED, FAILED, TIMED_OUT}"
    if "async_execute cl tx spec t (h, []) = Some y" "fst y = Inr r" for y
    using async_result_status[of cl tx spec t "(h, [])" r "snd y"] that by (metis prod.collapse)
  moreover assume "execute cl os tx h e spec t = (lines, Returned r)"
  ultimately show ?thesis
    by (cases e) (auto simp only: execute_def exec_view_def prod.inject outcome_of_Returned executor.case outcome.distinct
        split: option.splits)
qed

lemma worker_env_ok: "run_op meanwhile \<Longrightarrow> env_ok (worker_env cl os tx h meanwhile)"
  using execute_status by (fastforce simp: env_ok_def results_ok_def worker_env_def)

text \<open>Every task type that validation accepts has an executor.\<close>

lemma validated_has_executor: "tt \<in> set TaskType_ALL \<longleftrightarrow> get_executor tt \<noteq> None"
  by (auto simp: TaskType_ALL_def get_executor_def REGISTRY_def TaskType_HTTP_def TaskType_SHELL_def
      TaskType_HTTP_ASYNC_def)

end
