(* ===== verification/Worker.thy ===== *)
theory Worker
  imports Executors
begin

text \<open>
  \<^verbatim>\<open>backend/worker/main.py\<close>: the consumer of the dispatch stream. The event loop
  interleaves the reading loop, the tasks it spawns, and the cancel listener; each
  is a step on the state of the process: the tasks that wait for the semaphore, the
  tasks that run, and the table \<^verbatim>\<open>inflight_by_run\<close>. A task takes effect as a whole
  when it ends; what other tasks and processes commit meanwhile is part of its
  environment.
\<close>

section \<open>Messages\<close>

text \<open>\<^verbatim>\<open>_parse_run_id\<close>.\<close>

definition parse_run_id :: "fields \<Rightarrow> int option" where
  "parse_run_id flds = (case map_of flds ''run_id'' of None \<Rightarrow> None | Some v \<Rightarrow> py_int v)"

definition ack_message :: "'r redis_api \<Rightarrow> settings \<Rightarrow> string \<Rightarrow> ('r, unit) eff" where
  "ack_message api cfg message_id =
     andthen (XACK api (stream_key cfg) (consumer_group cfg) message_id) (\<lambda>_.
     XDEL api (stream_key cfg) message_id)"

text \<open>
  \<^verbatim>\<open>handle\<close>: a \<^verbatim>\<open>CancelledError\<close> is raised again after the \<^verbatim>\<open>finally\<close> block, any
  other exception of \<^verbatim>\<open>process_run\<close> is only logged; the message is acknowledged
  and deleted in every case.
\<close>

definition handle ::
  "'r redis_api \<Rightarrow> settings \<Rightarrow> exec_env \<Rightarrow> clock \<Rightarrow> string \<Rightarrow> string \<Rightarrow> int \<Rightarrow> bool \<Rightarrow> ('r world, unit) eff" where
  "handle api cfg env ck worker_id message_id run_id allow_running w =
     (case process_run api cfg env ck run_id allow_running worker_id w of
        (x, w1) \<Rightarrow>
          andthen (on_redis (ack_message api cfg message_id)) (\<lambda>_.
            if x = Inl CancelledError then throw CancelledError else ret ()) w1)"

section \<open>The state of the process\<close>

record task =
  t_id :: nat
  t_message :: string
  t_run_id :: int
  t_allow_running :: bool

record 'r wstate =
  ws_world :: "'r world"
  ws_next :: nat
  ws_waiting :: "task list"
  ws_running :: "task list"
  ws_by_run :: "int \<Rightarrow> nat option"
  ws_cancel :: "nat list"
  ws_stop :: bool

definition inflight :: "'r wstate \<Rightarrow> task list" where
  "inflight s = ws_waiting s @ ws_running s"

definition spawn :: "string \<Rightarrow> int \<Rightarrow> bool \<Rightarrow> ('r wstate, unit) eff" where
  "spawn message_id run_id allow_running s =
     (Inr (), s\<lparr>ws_next := Suc (ws_next s),
        ws_waiting := ws_waiting s @
          [\<lparr>t_id = ws_next s, t_message = message_id, t_run_id = run_id, t_allow_running = allow_running\<rparr>]\<rparr>)"

definition with_redis :: "('r, 'a) eff \<Rightarrow> ('r wstate, 'a) eff" where
  "with_redis m s =
     (case m (w_redis (ws_world s)) of (x, r) \<Rightarrow> (x, s\<lparr>ws_world := (ws_world s)\<lparr>w_redis := r\<rparr>\<rparr>))"

text \<open>One message: spawn a task, or drop what does not name a run.\<close>

definition accept_message :: "'r redis_api \<Rightarrow> settings \<Rightarrow> bool \<Rightarrow> message \<Rightarrow> ('r wstate, unit) eff" where
  "accept_message api cfg allow_running msg =
     (case parse_run_id (snd msg) of
        None \<Rightarrow> with_redis (ack_message api cfg (fst msg))
      | Some run_id \<Rightarrow> spawn (fst msg) run_id allow_running)"

text \<open>\<^verbatim>\<open>_reclaim_stale\<close>: errors of XAUTOCLAIM are ignored.\<close>

definition reclaim_stale :: "'r redis_api \<Rightarrow> settings \<Rightarrow> string \<Rightarrow> int \<Rightarrow> ('r wstate, unit) eff" where
  "reclaim_stale api cfg worker_id count s =
     (case with_redis (XAUTOCLAIM api (stream_key cfg) (consumer_group cfg) worker_id
                         (claim_min_idle_ms cfg) count) s of
        (Inl e, s') \<Rightarrow> (Inr (), s')
      | (Inr messages, s') \<Rightarrow> for_each messages (accept_message api cfg True) s')"

text \<open>One turn of the reading loop.\<close>

definition worker_turn :: "'r redis_api \<Rightarrow> settings \<Rightarrow> string \<Rightarrow> ('r wstate, unit) eff" where
  "worker_turn api cfg worker_id s =
     (let capacity = worker_concurrency cfg - int (length (inflight s)) in
      if capacity \<le> 0 then (Inr (), s)
      else
        let count = min capacity (worker_read_batch cfg) in
        andthen (reclaim_stale api cfg worker_id count) (\<lambda>_ s1.
          case with_redis (XREADGROUP api (stream_key cfg) (consumer_group cfg) worker_id count) s1 of
            (Inl e, s2) \<Rightarrow> (Inr (), s2)
          | (Inr messages, s2) \<Rightarrow> for_each messages (accept_message api cfg False) s2) s)"

text \<open>A task gets the semaphore (first come, first served) and registers itself.\<close>

definition task_start :: "settings \<Rightarrow> 'r wstate \<Rightarrow> 'r wstate" where
  "task_start cfg s =
     (case ws_waiting s of
        t # rest \<Rightarrow>
          if int (length (ws_running s)) < worker_concurrency cfg then
            s\<lparr>ws_waiting := rest, ws_running := ws_running s @ [t],
              ws_by_run := (ws_by_run s)(t_run_id t \<mapsto> t_id t)\<rparr>
          else s
      | [] \<Rightarrow> s)"

text \<open>A task ends: its effects, then the \<^verbatim>\<open>finally\<close> block's bookkeeping.\<close>

definition task_finish ::
  "'r redis_api \<Rightarrow> settings \<Rightarrow> exec_env \<Rightarrow> clock \<Rightarrow> string \<Rightarrow> task \<Rightarrow> 'r wstate \<Rightarrow> 'r wstate" where
  "task_finish api cfg env ck worker_id t s =
     s\<lparr>ws_world := snd (handle api cfg env ck worker_id (t_message t) (t_run_id t) (t_allow_running t) (ws_world s)),
       ws_running := filter (\<lambda>u. t_id u \<noteq> t_id t) (ws_running s),
       ws_by_run := (if ws_by_run s (t_run_id t) = Some (t_id t) then (ws_by_run s)(t_run_id t := None)
                     else ws_by_run s),
       ws_cancel := filter (\<lambda>i. i \<noteq> t_id t) (ws_cancel s)\<rparr>"

text \<open>\<^verbatim>\<open>_cancel_listener\<close>: the payload of one message of the cancel channel.\<close>

definition cancel_message :: "string \<Rightarrow> 'r wstate \<Rightarrow> 'r wstate" where
  "cancel_message data s =
     (case py_int data of
        None \<Rightarrow> s
      | Some run_id \<Rightarrow>
          (case ws_by_run s run_id of
             None \<Rightarrow> s
           | Some i \<Rightarrow> s\<lparr>ws_cancel := i # ws_cancel s\<rparr>))"

text \<open>\<^verbatim>\<open>run\<close>: the group exists, then the loops start on an empty state.\<close>

definition worker_start :: "'r redis_api \<Rightarrow> settings \<Rightarrow> 'r world \<Rightarrow> exn + 'r wstate" where
  "worker_start api cfg w =
     (case ensure_group_async api cfg (w_redis w) of
        (Inl e, r) \<Rightarrow> Inl e
      | (Inr _, r) \<Rightarrow> Inr \<lparr>ws_world = w\<lparr>w_redis := r\<rparr>, ws_next = 0, ws_waiting = [], ws_running = [],
          ws_by_run = (\<lambda>_. None), ws_cancel = [], ws_stop = False\<rparr>)"

text \<open>
  The steps of the process. A canceled task ends with a cancellation of its
  executor, or with whatever it had already reached. After SIGTERM nothing more is
  read; the tasks in flight go on. The world may change under the process.
\<close>

inductive worker_step :: "'r redis_api \<Rightarrow> settings \<Rightarrow> string \<Rightarrow> 'r wstate \<Rightarrow> 'r wstate \<Rightarrow> bool"
  for api cfg worker_id where
  step_read: "\<not> ws_stop s \<Longrightarrow> worker_turn api cfg worker_id s = (Inr (), s') \<Longrightarrow> worker_step api cfg worker_id s s'"
| step_start: "worker_step api cfg worker_id s (task_start cfg s)"
| step_task: "t \<in> set (ws_running s) \<Longrightarrow> env_ok env \<Longrightarrow>
    worker_step api cfg worker_id s (task_finish api cfg env ck worker_id t s)"
| step_cancel_message: "worker_step api cfg worker_id s (cancel_message data s)"
| step_stop: "worker_step api cfg worker_id s (s\<lparr>ws_stop := True\<rparr>)"


section \<open>What a run leaves in Redis\<close>

definition entries_kept ::
  "('r \<Rightarrow> bool) \<Rightarrow> ('r \<Rightarrow> string \<Rightarrow> message list) \<Rightarrow> 'r world \<Rightarrow> 'r world \<Rightarrow> bool" where
  "entries_kept rinv stream w w' \<longleftrightarrow> (rinv (w_redis w) \<longrightarrow> rinv (w_redis w') \<and>
     (\<forall>k. set (stream (w_redis w) k) \<subseteq> set (stream (w_redis w') k)))"

interpretation kept: eff_preorder "entries_kept rinv stream" for rinv stream
  by unfold_locales (auto simp: entries_kept_def)

lemma kept_set_db [simp]: "entries_kept rinv stream (w\<lparr>w_db := d\<rparr>) w' = entries_kept rinv stream w w'"
  by (simp add: entries_kept_def)

lemma kept_set_db' [simp]: "entries_kept rinv stream w (w'\<lparr>w_db := d\<rparr>) = entries_kept rinv stream w w'"
  by (simp add: entries_kept_def)

lemma kept_on_db: "keeps (entries_kept rinv stream) (on_db m)"
  by (rule keepsI) (simp add: on_db_def kept.R_refl split: prod.splits)

text \<open>
  If enqueuing and delaying keep the entries, so does everything the runner does.
\<close>

lemma kept_process_run:
  assumes e: "\<And>i. keeps (entries_kept rinv stream) (on_redis (enqueue_run api cfg i))"
    and z: "\<And>i t. keeps (entries_kept rinv stream) (on_redis (schedule_delayed api cfg i t))"
  shows "keeps (entries_kept rinv stream) (process_run api cfg env ck i b wid)"
proof (rule keepsI)
  fix w
  let ?R = "entries_kept rinv stream"
  have dd: "keeps ?R (dispatch_dependent api cfg ck j)" for j
    unfolding dispatch_dependent_def async_same
    by (rule keepsI, rule keeps_snd)
      (intro kept.keeps_andthen kept_on_db keeps_option kept.keeps_ret e)
  have "?R w (snd (for_each js (dispatch_dependent api cfg ck) (w\<lparr>w_db := d\<rparr>)))" for js d
    using keeps_snd[OF kept.keeps_for_each[OF dd], of "w\<lparr>w_db := d\<rparr>" js] by simp
  then have su: "?R w (snd (on_success api cfg ck c x (w\<lparr>w_db := d\<rparr>)))" for c x d
    by (simp add: on_success_def Let_def kept.R_refl)
  have fa: "?R w (snd (on_failure api cfg ck c x (w\<lparr>w_db := d\<rparr>)))" for c x d
  proof -
    have k: "keeps ?R (andthen (on_db m) (\<lambda>i. andthen (on_redis (schedule_delayed api cfg i t)) (\<lambda>_. on_db (m' i))))"
      for m t and m' :: "int \<Rightarrow> (db, unit) eff" by (intro kept.keeps_andthen kept_on_db z)
    have "?R w (snd (andthen (on_db m) (\<lambda>i. andthen (on_redis (schedule_delayed api cfg i t)) (\<lambda>_. on_db (m' i)))
        (w\<lparr>w_db := d\<rparr>)))" for m t and m' :: "int \<Rightarrow> (db, unit) eff"
      using keeps_snd[OF k[of m t m'], of "w\<lparr>w_db := d\<rparr>"] by (simp only: kept_set_db)
    then show ?thesis by (simp add: on_failure_def Let_def async_same kept.R_refl)
  qed
  show "?R w (snd (process_run api cfg env ck i b wid w))"
    using su fa by (auto simp: process_run_def kept.R_refl split: prod.splits option.splits sum.splits)
qed

section \<open>What the worker relies on\<close>

text \<open>
  Consumer groups: reading and claiming hand out at most as many entries as asked
  for, all of them entries of the stream, and leave the stream alone; an
  acknowledged entry is no longer pending. Commands that raise may or may not have
  been executed; none of them loses other entries of a stream.
\<close>

locale redis_consumer = redis_server api rinv stream zset
  for api :: "'r redis_api" and rinv stream zset +
  fixes pend :: "'r \<Rightarrow> string \<Rightarrow> string \<Rightarrow> string set"
  assumes any_xadd: "rinv r \<Longrightarrow> XADD api k f r = (x, r') \<Longrightarrow>
      rinv r' \<and> (\<forall>k'. set (stream r k') \<subseteq> set (stream r' k'))"
    and any_zadd: "rinv r \<Longrightarrow> ZADD api k mem t r = (y, r') \<Longrightarrow> rinv r' \<and> stream r' = stream r"
    and any_xack: "rinv r \<Longrightarrow> XACK api k g m r = (y, r') \<Longrightarrow> rinv r' \<and> stream r' = stream r"
    and any_xdel: "rinv r \<Longrightarrow> XDEL api k m r = (y, r') \<Longrightarrow> rinv r' \<and>
      (\<forall>k'. {e \<in> set (stream r k'). k' \<noteq> k \<or> fst e \<noteq> m} \<subseteq> set (stream r' k'))"
    and any_xreadgroup: "rinv r \<Longrightarrow> XREADGROUP api k g c n r = (z, r') \<Longrightarrow> rinv r' \<and> stream r' = stream r"
    and any_xautoclaim: "rinv r \<Longrightarrow> XAUTOCLAIM api k g c idle n r = (z, r') \<Longrightarrow> rinv r' \<and> stream r' = stream r"
    and xreadgroup: "rinv r \<Longrightarrow> XREADGROUP api k g c n r = (Inr ms, r') \<Longrightarrow>
      length ms \<le> nat n \<and> set ms \<subseteq> set (stream r k)"
    and xautoclaim: "rinv r \<Longrightarrow> XAUTOCLAIM api k g c idle n r = (Inr ms, r') \<Longrightarrow>
      length ms \<le> nat n \<and> set ms \<subseteq> set (stream r k)"
    and stream_ids: "rinv r \<Longrightarrow> distinct (map fst (stream r k))"
    and xack_pend: "rinv r \<Longrightarrow> XACK api k g m r = (Inr u, r') \<Longrightarrow> pend r' k g = pend r k g - {m}"
    and xdel_pend: "rinv r \<Longrightarrow> XDEL api k m r = (Inr u, r') \<Longrightarrow> pend r' = pend r"
begin

lemma kept_enqueue: "keeps (entries_kept rinv stream) (on_redis (enqueue_run api cfg i))"
proof (rule keepsI)
  fix w :: "'r world"
  obtain x r1 where 1: "XADD api (stream_key cfg) [(''run_id'', int_str i)] (w_redis w) = (x, r1)"
    by (metis prod.exhaust)
  obtain y r2 where 2: "update_queue_gauges api cfg r1 = (y, r2)" by (metis prod.exhaust)
  show "entries_kept rinv stream w (snd (on_redis (enqueue_run api cfg i) w))"
    using any_xadd[OF _ 1] gauges_obs[OF _ 2] 1 2
    by (cases x; cases y) (auto simp: entries_kept_def on_redis_def enqueue_run_def andthen_def ret_def)
qed

lemma kept_delayed: "keeps (entries_kept rinv stream) (on_redis (schedule_delayed api cfg i t))"
proof (rule keepsI)
  fix w :: "'r world"
  obtain x r1 where 1: "ZADD api (delayed_set_key cfg) (int_str i) t (w_redis w) = (x, r1)"
    by (metis prod.exhaust)
  obtain y r2 where 2: "update_queue_gauges api cfg r1 = (y, r2)" by (metis prod.exhaust)
  show "entries_kept rinv stream w (snd (on_redis (schedule_delayed api cfg i t) w))"
    using any_zadd[OF _ 1] gauges_obs[OF _ 2] 1 2
    by (cases x; cases y) (auto simp: entries_kept_def on_redis_def schedule_delayed_def andthen_def ret_def)
qed

lemmas kept_run = kept_process_run[OF kept_enqueue kept_delayed]

text \<open>Dropping a message removes at most the entry of that message.\<close>

lemma ack_any:
  assumes "rinv r" and a: "ack_message api cfg m r = (x, r')"
  shows "rinv r' \<and> (\<forall>k. {e \<in> set (stream r k). k \<noteq> stream_key cfg \<or> fst e \<noteq> m} \<subseteq> set (stream r' k))"
proof -
  obtain y r1 where 1: "XACK api (stream_key cfg) (consumer_group cfg) m r = (y, r1)" by (metis prod.exhaust)
  obtain z r2 where 2: "XDEL api (stream_key cfg) m r1 = (z, r2)" by (metis prod.exhaust)
  have A: "rinv r1" "stream r1 = stream r" using any_xack[OF assms(1) 1] by auto
  show ?thesis
    using a 1 2 A any_xdel[OF A(1) 2] by (cases y) (auto simp: ack_message_def andthen_def)
qed

lemma ack_ok:
  assumes "rinv r" and a: "ack_message api cfg m r = (Inr u, r')"
  shows "rinv r'" and "stream r' = (stream r)(stream_key cfg := filter (\<lambda>e. fst e \<noteq> m) (stream r (stream_key cfg)))"
    and "zset r' = zset r" and "m \<notin> pend r' (stream_key cfg) (consumer_group cfg)"
proof -
  obtain r1 v where 1: "XACK api (stream_key cfg) (consumer_group cfg) m r = (Inr v, r1)"
    and 2: "XDEL api (stream_key cfg) m r1 = (Inr u, r')"
    using a by (auto simp: ack_message_def andthen_value)
  note A = xack[OF assms(1) 1] xack_pend[OF assms(1) 1]
  note D = xdel[OF _ 2] xdel_pend[OF _ 2]
  from A D show "rinv r'" "stream r' = (stream r)(stream_key cfg := filter (\<lambda>e. fst e \<noteq> m) (stream r (stream_key cfg)))"
    "zset r' = zset r" "m \<notin> pend r' (stream_key cfg) (consumer_group cfg)" by auto
qed

end

section \<open>The invariant of the process\<close>

text \<open>
  Tasks have distinct numbers; at most \<^verbatim>\<open>WORKER_CONCURRENCY\<close> tasks run, and at
  most twice as many are in flight (a turn may spawn up to its capacity from
  reclaimed messages and again from new ones); every entry of \<^verbatim>\<open>inflight_by_run\<close>
  names a running task of that run.
\<close>

definition worker_inv :: "settings \<Rightarrow> 'r wstate \<Rightarrow> bool" where
  "worker_inv cfg s \<longleftrightarrow>
     distinct (map t_id (inflight s)) \<and> list_all (\<lambda>t. t_id t < ws_next s) (inflight s) \<and>
     int (length (ws_running s)) \<le> max 0 (worker_concurrency cfg) \<and>
     int (length (inflight s)) \<le> 2 * max 0 (worker_concurrency cfg) \<and>
     (\<forall>i n. ws_by_run s i = Some n \<longrightarrow> (\<exists>t \<in> set (ws_running s). t_id t = n \<and> t_run_id t = i))"

lemma worker_inv_world [simp]: "worker_inv cfg (s\<lparr>ws_world := w\<rparr>) = worker_inv cfg s"
  by (simp add: worker_inv_def inflight_def)

text \<open>Accepting messages adds at most one waiting task for each.\<close>

definition accepts :: "nat \<Rightarrow> 'r wstate \<Rightarrow> 'r wstate \<Rightarrow> bool" where
  "accepts n s s' \<longleftrightarrow> ws_running s' = ws_running s \<and> ws_by_run s' = ws_by_run s \<and> ws_next s \<le> ws_next s' \<and>
     (\<exists>new. ws_waiting s' = ws_waiting s @ new \<and> length new \<le> n \<and> distinct (map t_id new) \<and>
        list_all (\<lambda>t. ws_next s \<le> t_id t \<and> t_id t < ws_next s') new)"

lemma accepts_refl: "accepts 0 s s"
  by (simp add: accepts_def)

lemma accepts_mono: "accepts n s s' \<Longrightarrow> n \<le> m \<Longrightarrow> accepts m s s'"
  by (auto simp: accepts_def intro: le_trans)

lemma accepts_trans:
  assumes "accepts n s1 s2" and "accepts m s2 s3"
  shows "accepts (n + m) s1 s3"
proof -
  obtain a b where a: "ws_waiting s2 = ws_waiting s1 @ a" "length a \<le> n" "distinct (map t_id a)"
      "list_all (\<lambda>t. ws_next s1 \<le> t_id t \<and> t_id t < ws_next s2) a"
    and b: "ws_waiting s3 = ws_waiting s2 @ b" "length b \<le> m" "distinct (map t_id b)"
      "list_all (\<lambda>t. ws_next s2 \<le> t_id t \<and> t_id t < ws_next s3) b"
    using assms by (auto simp: accepts_def)
  have "t_id ` set a \<inter> t_id ` set b = {}" using a(4) b(4) by (fastforce simp: list_all_iff)
  then have "distinct (map t_id (a @ b))" using a(3) b(3) by auto
  then show ?thesis
    using assms a b by (auto simp: accepts_def list_all_iff intro!: exI[of _ "a @ b"])
qed

lemma accepts_redis: "with_redis m s = (x, s') \<Longrightarrow> accepts 0 s s'"
  by (auto simp: with_redis_def accepts_def split: prod.splits)

lemma accepts_message: "accept_message api cfg b msg s = (x, s') \<Longrightarrow> accepts 1 s s'"
  by (auto simp: accept_message_def spawn_def accepts_def with_redis_def split: option.splits prod.splits)

lemma accepts_messages: "for_each msgs (accept_message api cfg b) s = (x, s') \<Longrightarrow> accepts (length msgs) s s'"
proof (induction msgs arbitrary: s)
  case Nil
  then show ?case by (auto simp: ret_def accepts_refl)
next
  case (Cons m msgs)
  obtain y s1 where 1: "accept_message api cfg b m s = (y, s1)" by (metis prod.exhaust)
  show ?case
  proof (cases y)
    case (Inl e)
    then have "s1 = s'" using Cons.prems 1 by (simp add: andthen_def)
    then show ?thesis using accepts_mono[OF accepts_message[OF 1]] by simp
  next
    case (Inr u)
    then have "for_each msgs (accept_message api cfg b) s1 = (x, s')" using Cons.prems 1 by (simp add: andthen_def)
    from accepts_trans[OF accepts_message[OF 1] Cons.IH[OF this]] show ?thesis by simp
  qed
qed

lemma accepts_inv:
  assumes "worker_inv cfg s" and "accepts n s s'"
    and "int (length (inflight s)) + int n \<le> 2 * max 0 (worker_concurrency cfg)"
  shows "worker_inv cfg s'"
proof -
  obtain a where a: "ws_waiting s' = ws_waiting s @ a" "length a \<le> n" "distinct (map t_id a)"
      "list_all (\<lambda>t. ws_next s \<le> t_id t \<and> t_id t < ws_next s') a"
    and r: "ws_running s' = ws_running s" "ws_by_run s' = ws_by_run s" "ws_next s \<le> ws_next s'"
    using assms(2) by (auto simp: accepts_def)
  have old: "distinct (map t_id (inflight s))" "list_all (\<lambda>t. t_id t < ws_next s) (inflight s)"
    using assms(1) by (auto simp: worker_inv_def)
  have "t_id ` set a \<inter> t_id ` set (inflight s) = {}" using a(4) old(2) by (fastforce simp: list_all_iff)
  then have "distinct (map t_id (inflight s'))" using a(1,3) old(1) r(1) by (auto simp: inflight_def)
  moreover have "list_all (\<lambda>t. t_id t < ws_next s') (inflight s')"
    using old(2) a(1,4) r by (auto simp: inflight_def list_all_iff intro: less_le_trans)
  moreover have "int (length (inflight s')) \<le> 2 * max 0 (worker_concurrency cfg)"
    using assms(3) a(1,2) r(1) by (simp add: inflight_def)
  ultimately show ?thesis using assms(1) r by (simp add: worker_inv_def)
qed


context redis_consumer
begin

abbreviation redis_of :: "'r wstate \<Rightarrow> 'r" where
  "redis_of s \<equiv> w_redis (ws_world s)"

text \<open>
  Entries of the dispatch stream that a part of the loop may remove: those whose
  identifier satisfies a predicate.
\<close>

definition drops :: "settings \<Rightarrow> (string \<Rightarrow> bool) \<Rightarrow> 'r wstate \<Rightarrow> 'r wstate \<Rightarrow> bool" where
  "drops cfg P s s' \<longleftrightarrow> (rinv (redis_of s) \<longrightarrow> rinv (redis_of s') \<and>
     {e \<in> set (stream (redis_of s) (stream_key cfg)). \<not> P (fst e)} \<subseteq> set (stream (redis_of s') (stream_key cfg)))"

lemma drops_refl: "drops cfg P s s"
  by (auto simp: drops_def)

lemma drops_trans: "drops cfg P s1 s2 \<Longrightarrow> drops cfg P s2 s3 \<Longrightarrow> drops cfg P s1 s3"
  by (fastforce simp: drops_def)

lemma drops_accept:
  assumes "accept_message api cfg b msg s = (x, s')" and "parse_run_id (snd msg) = None \<Longrightarrow> P (fst msg)"
  shows "drops cfg P s s'"
proof (cases "parse_run_id (snd msg)")
  case None
  obtain y r where a: "ack_message api cfg (fst msg) (redis_of s) = (y, r)" by (metis prod.exhaust)
  then have "redis_of s' = r" using assms(1) None by (auto simp: accept_message_def with_redis_def)
  then show ?thesis using ack_any[OF _ a] assms(2)[OF None] by (fastforce simp: drops_def)
next
  case (Some i)
  then show ?thesis using assms(1) by (auto simp: accept_message_def spawn_def drops_def)
qed

lemma drops_messages:
  assumes "for_each msgs (accept_message api cfg b) s = (x, s')"
    and "\<And>m. m \<in> set msgs \<Longrightarrow> parse_run_id (snd m) = None \<Longrightarrow> P (fst m)"
  shows "drops cfg P s s'"
  using assms
proof (induction msgs arbitrary: s)
  case (Cons m msgs)
  obtain y s1 where 1: "accept_message api cfg b m s = (y, s1)" by (metis prod.exhaust)
  have d: "drops cfg P s s1" using Cons.prems by (intro drops_accept[OF 1]) simp
  show ?case
  proof (cases y)
    case (Inl e)
    then show ?thesis using Cons.prems(1) 1 d by (simp add: andthen_def)
  next
    case (Inr u)
    then have "for_each msgs (accept_message api cfg b) s1 = (x, s')" using Cons.prems(1) 1 by (simp add: andthen_def)
    from drops_trans[OF d Cons.IH[OF this Cons.prems(2)]] show ?thesis by simp
  qed
qed (auto simp: ret_def drops_refl)

text \<open>A batch that the server handed out, by reading or by claiming.\<close>

lemma batch:
  assumes "with_redis cmd s = (x, s1)" and "rinv (redis_of s)"
    and law: "\<And>ms r'. cmd (redis_of s) = (Inr ms, r') \<Longrightarrow> length ms \<le> n \<and> set ms \<subseteq> set (stream (redis_of s) (stream_key cfg))"
    and any: "\<And>y r'. cmd (redis_of s) = (y, r') \<Longrightarrow> rinv r' \<and> stream r' = stream (redis_of s)"
    and res: "(case x of Inl _ \<Rightarrow> (Inr (), s1) | Inr ms \<Rightarrow> for_each ms (accept_message api cfg b) s1) = (y, s')"
  shows "rinv (redis_of s')" and "accepts n s s'"
    and "drops cfg (\<lambda>m. \<exists>e \<in> set (stream (redis_of s) (stream_key cfg)). fst e = m \<and> parse_run_id (snd e) = None) s s'"
proof -
  let ?P = "\<lambda>m. \<exists>e \<in> set (stream (redis_of s) (stream_key cfg)). fst e = m \<and> parse_run_id (snd e) = None"
  obtain z r where c: "cmd (redis_of s) = (z, r)" by (metis prod.exhaust)
  then have s1: "x = z" "redis_of s1 = r" using assms(1) by (auto simp: with_redis_def)
  have a: "accepts 0 s s1" by (rule accepts_redis[OF assms(1)])
  have st: "rinv (redis_of s1)" "stream (redis_of s1) = stream (redis_of s)" using any[OF c] s1 by auto
  have d1: "drops cfg ?P s s1" using st by (auto simp: drops_def)
  have "accepts n s s' \<and> drops cfg ?P s s'"
  proof (cases z)
    case (Inl e)
    then show ?thesis using res s1 accepts_mono[OF a] d1 by simp
  next
    case (Inr ms)
    then have f: "for_each ms (accept_message api cfg b) s1 = (y, s')" using res s1 by simp
    note L = law[OF c[unfolded Inr]]
    have "accepts n s s'" using accepts_trans[OF a accepts_messages[OF f]] L accepts_mono by fastforce
    moreover have "drops cfg ?P s1 s'" by (rule drops_messages[OF f]) (use L in blast)
    ultimately show ?thesis using drops_trans[OF d1] by blast
  qed
  then show "accepts n s s'" "drops cfg ?P s s'" "rinv (redis_of s')" using assms(2) by (auto simp: drops_def)
qed

text \<open>An unreadable entry: it does not name a run.\<close>

definition unreadable :: "'r wstate \<Rightarrow> settings \<Rightarrow> string \<Rightarrow> bool" where
  "unreadable s cfg m \<longleftrightarrow> (\<exists>e \<in> set (stream (redis_of s) (stream_key cfg)). fst e = m \<and> parse_run_id (snd e) = None)"

lemma reclaim_turn:
  assumes "reclaim_stale api cfg wid n s = (x, s')" and i: "rinv (redis_of s)"
  shows "rinv (redis_of s')" and "accepts (nat n) s s'" and "drops cfg (unreadable s cfg) s s'"
proof -
  let ?cmd = "XAUTOCLAIM api (stream_key cfg) (consumer_group cfg) wid (claim_min_idle_ms cfg) n"
  obtain y s1 where w: "with_redis ?cmd s = (y, s1)" by (metis prod.exhaust)
  have r: "(case y of Inl _ \<Rightarrow> (Inr (), s1) | Inr ms \<Rightarrow> for_each ms (accept_message api cfg True) s1) = (x, s')"
    using assms(1) w by (simp add: reclaim_stale_def split: sum.splits)
  show "rinv (redis_of s')" "accepts (nat n) s s'" "drops cfg (unreadable s cfg) s s'"
    using batch[OF w i xautoclaim[OF i] any_xautoclaim[OF i] r] by (auto simp: unreadable_def[abs_def])
qed

lemma read_turn:
  assumes "(case with_redis (XREADGROUP api (stream_key cfg) (consumer_group cfg) wid n) s of
      (Inl e, s2) \<Rightarrow> (Inr (), s2)
    | (Inr messages, s2) \<Rightarrow> for_each messages (accept_message api cfg False) s2) = (x, s')" and i: "rinv (redis_of s)"
  shows "rinv (redis_of s')" and "accepts (nat n) s s'" and "drops cfg (unreadable s cfg) s s'"
proof -
  let ?cmd = "XREADGROUP api (stream_key cfg) (consumer_group cfg) wid n"
  obtain y s1 where w: "with_redis ?cmd s = (y, s1)" by (metis prod.exhaust)
  have r: "(case y of Inl _ \<Rightarrow> (Inr (), s1) | Inr ms \<Rightarrow> for_each ms (accept_message api cfg False) s1) = (x, s')"
    using assms(1) w by (simp split: sum.splits)
  show "rinv (redis_of s')" "accepts (nat n) s s'" "drops cfg (unreadable s cfg) s s'"
    using batch[OF w i xreadgroup[OF i] any_xreadgroup[OF i] r] by (auto simp: unreadable_def[abs_def])
qed

text \<open>What a turn can lose was unreadable before it.\<close>

lemma worker_turn_effect:
  assumes t: "worker_turn api cfg wid s = (Inr (), s')" and i: "rinv (redis_of s)"
  shows "\<exists>n. accepts n s s' \<and> int (length (inflight s)) + int n \<le> max (int (length (inflight s))) (2 * worker_concurrency cfg)"
    and "rinv (redis_of s')"
    and "e \<in> set (stream (redis_of s) (stream_key cfg)) \<Longrightarrow> parse_run_id (snd e) \<noteq> None \<Longrightarrow>
      e \<in> set (stream (redis_of s') (stream_key cfg))"
proof -
  let ?cap = "worker_concurrency cfg - int (length (inflight s))"
  let ?n = "min ?cap (worker_read_batch cfg)"
  have "(\<exists>n. accepts n s s' \<and> int (length (inflight s)) + int n \<le> max (int (length (inflight s))) (2 * worker_concurrency cfg)) \<and>
     rinv (redis_of s') \<and> (e \<in> set (stream (redis_of s) (stream_key cfg)) \<longrightarrow> parse_run_id (snd e) \<noteq> None \<longrightarrow>
      e \<in> set (stream (redis_of s') (stream_key cfg)))" for e
  proof (cases "?cap \<le> 0")
    case True
    then have "s' = s" using t by (simp add: worker_turn_def)
    then show ?thesis using i accepts_refl by (intro conjI exI[of _ 0]) auto
  next
    case False
    then obtain u s1 where r1: "reclaim_stale api cfg wid ?n s = (Inr u, s1)"
      and r2: "(case with_redis (XREADGROUP api (stream_key cfg) (consumer_group cfg) wid ?n) s1 of
        (Inl e, s2) \<Rightarrow> (Inr (), s2)
      | (Inr messages, s2) \<Rightarrow> for_each messages (accept_message api cfg False) s2) = (Inr (), s')"
      using t by (auto simp: worker_turn_def Let_def andthen_value)
    note A = reclaim_turn[OF r1 i]
    note B = read_turn[OF r2 A(1)]
    have kept: "e \<in> set (stream (redis_of s') (stream_key cfg))"
      if e: "e \<in> set (stream (redis_of s) (stream_key cfg))" and p: "parse_run_id (snd e) \<noteq> None"
    proof -
      have uniq: "\<not> unreadable z cfg (fst e)" if "rinv (redis_of z)" "e \<in> set (stream (redis_of z) (stream_key cfg))" for z
        using stream_ids[OF that(1), of "stream_key cfg"] that(2) p
        by (auto simp: unreadable_def distinct_map inj_on_def)
      have "e \<in> set (stream (redis_of s1) (stream_key cfg))" using A(3) i e uniq[OF i e] by (auto simp: drops_def)
      then show ?thesis using B(3) A(1) uniq[OF A(1)] by (auto simp: drops_def)
    qed
    have "accepts (nat ?n + nat ?n) s s'" by (rule accepts_trans[OF A(2) B(2)])
    moreover have "int (length (inflight s)) + int (nat ?n + nat ?n) \<le> 2 * worker_concurrency cfg" using False by linarith
    ultimately show ?thesis using kept B(1) by (intro conjI exI[of _ "nat ?n + nat ?n"]) auto
  qed
  then show "\<exists>n. accepts n s s' \<and> int (length (inflight s)) + int n \<le> max (int (length (inflight s))) (2 * worker_concurrency cfg)"
    "rinv (redis_of s')" "e \<in> set (stream (redis_of s) (stream_key cfg)) \<Longrightarrow> parse_run_id (snd e) \<noteq> None \<Longrightarrow>
      e \<in> set (stream (redis_of s') (stream_key cfg))" by blast+
qed

text \<open>The end of a task removes at most the entry of its own message.\<close>

lemma handle_effect:
  assumes "rinv (w_redis w)" and "handle api cfg env ck wid m i b w = (x, w')"
  shows "rinv (w_redis w')" and "e \<in> set (stream (w_redis w) (stream_key cfg)) \<Longrightarrow> fst e \<noteq> m \<Longrightarrow>
      e \<in> set (stream (w_redis w') (stream_key cfg))"
proof -
  obtain y w1 where p: "process_run api cfg env ck i b wid w = (y, w1)" by (metis prod.exhaust)
  obtain z r where a: "ack_message api cfg m (w_redis w1) = (z, r)" by (metis prod.exhaust)
  have k: "entries_kept rinv stream w w1" by (rule keepsD[OF kept_run p])
  have w': "w_redis w' = r"
    using assms(2) p a by (cases z) (auto simp: handle_def andthen_def on_redis_def ret_def throw_def split: if_splits)
  show "rinv (w_redis w')" "e \<in> set (stream (w_redis w) (stream_key cfg)) \<Longrightarrow> fst e \<noteq> m \<Longrightarrow>
      e \<in> set (stream (w_redis w') (stream_key cfg))"
    using k assms(1) ack_any[OF _ a] w' by (auto simp: entries_kept_def)
qed

end


section \<open>Steps of the process\<close>

lemma task_start_inv:
  assumes "worker_inv cfg s"
  shows "worker_inv cfg (task_start cfg s)"
proof (cases "ws_waiting s")
  case (Cons t rest)
  show ?thesis
  proof (cases "int (length (ws_running s)) < worker_concurrency cfg")
    case True
    then have s': "task_start cfg s = s\<lparr>ws_waiting := rest, ws_running := ws_running s @ [t],
        ws_by_run := (ws_by_run s)(t_run_id t \<mapsto> t_id t)\<rparr>" by (simp add: task_start_def Cons)
    have "distinct (map t_id (inflight (task_start cfg s))) = distinct (map t_id (inflight s))"
      by (auto simp: s' inflight_def Cons)
    then show ?thesis using assms True by (auto simp: worker_inv_def s' inflight_def Cons list_all_iff)
  qed (use assms in \<open>simp add: task_start_def Cons\<close>)
qed (use assms in \<open>simp add: task_start_def\<close>)

lemma task_finish_inv:
  assumes i: "worker_inv cfg s" and t: "t \<in> set (ws_running s)"
  shows "worker_inv cfg (task_finish api cfg env ck wid t s)"
proof -
  let ?s = "task_finish api cfg env ck wid t s"
  let ?keep = "\<lambda>u. t_id u \<noteq> t_id t"
  have run: "ws_running ?s = filter ?keep (ws_running s)" and wait: "ws_waiting ?s = ws_waiting s" "ws_next ?s = ws_next s"
    by (simp_all add: task_finish_def)
  have d: "distinct (map t_id (ws_running s))" using i by (auto simp: worker_inv_def inflight_def)
  have "\<exists>u \<in> set (ws_running ?s). t_id u = n \<and> t_run_id u = k" if b: "ws_by_run ?s k = Some n" for k n
  proof -
    have "ws_by_run s k = Some n" and ne: "\<not> (k = t_run_id t \<and> n = t_id t)"
      using b by (auto simp: task_finish_def split: if_splits)
    then obtain u where u: "u \<in> set (ws_running s)" "t_id u = n" "t_run_id u = k"
      using i by (auto simp: worker_inv_def)
    have "t_id u \<noteq> t_id t"
    proof
      assume "t_id u = t_id t"
      then have "u = t" using d u(1) t by (auto simp: distinct_map inj_on_def)
      then show False using ne u by simp
    qed
    then show ?thesis using u by (auto simp: run)
  qed
  moreover have "length (filter ?keep (ws_running s)) \<le> length (ws_running s)" by (rule length_filter_le)
  then have "int (length (filter ?keep (ws_running s))) \<le> max 0 (worker_concurrency cfg)"
    and "int (length (ws_waiting s) + length (filter ?keep (ws_running s))) \<le> 2 * max 0 (worker_concurrency cfg)"
    using i unfolding worker_inv_def inflight_def length_append by linarith+
  moreover have "distinct (map t_id (ws_waiting s @ filter ?keep (ws_running s)))"
    and "list_all (\<lambda>t. t_id t < ws_next s) (ws_waiting s @ filter ?keep (ws_running s))"
    using i by (auto simp: worker_inv_def inflight_def list_all_iff distinct_map_filter)
  ultimately show ?thesis
    unfolding worker_inv_def inflight_def run wait by (simp only: length_append) blast
qed

context redis_consumer
begin

lemma step_effect:
  assumes st: "worker_step api cfg wid s s'" and i: "rinv (redis_of s)"
  shows "rinv (redis_of s')" and "worker_inv cfg s \<Longrightarrow> worker_inv cfg s'"
    and "e \<in> set (stream (redis_of s) (stream_key cfg)) \<Longrightarrow> e \<notin> set (stream (redis_of s') (stream_key cfg)) \<Longrightarrow>
      parse_run_id (snd e) = None \<or> (\<exists>t \<in> set (ws_running s). t_message t = fst e \<and> t \<notin> set (ws_running s'))"
proof -
  have "rinv (redis_of s') \<and> (worker_inv cfg s \<longrightarrow> worker_inv cfg s') \<and>
    (e \<in> set (stream (redis_of s) (stream_key cfg)) \<and> e \<notin> set (stream (redis_of s') (stream_key cfg)) \<longrightarrow>
      parse_run_id (snd e) = None \<or> (\<exists>t \<in> set (ws_running s). t_message t = fst e \<and> t \<notin> set (ws_running s')))" for e
    using st
  proof cases
    case step_read
    note T = worker_turn_effect[OF step_read(2) i]
    from T(1) obtain n where n: "accepts n s s'"
      "int (length (inflight s)) + int n \<le> max (int (length (inflight s))) (2 * worker_concurrency cfg)" by blast
    have "worker_inv cfg s'" if w: "worker_inv cfg s"
    proof (rule accepts_inv[OF w n(1)])
      have "int (length (inflight s)) \<le> 2 * max 0 (worker_concurrency cfg)" using w by (simp add: worker_inv_def)
      then show "int (length (inflight s)) + int n \<le> 2 * max 0 (worker_concurrency cfg)" using n(2) by linarith
    qed
    then show ?thesis using T(2,3) by blast
  next
    case step_start
    have "ws_world s' = ws_world s" by (auto simp: step_start task_start_def split: list.splits)
    then show ?thesis using i task_start_inv step_start by auto
  next
    case (step_task t env ck)
    obtain x w where h: "handle api cfg env ck wid (t_message t) (t_run_id t) (t_allow_running t) (ws_world s) = (x, w)"
      by (metis prod.exhaust)
    have w: "ws_world s' = w" and t: "t \<notin> set (ws_running s')" by (simp_all add: step_task task_finish_def h)
    have "worker_inv cfg s \<longrightarrow> worker_inv cfg s'" using task_finish_inv step_task(1,2) by blast
    moreover have "fst e = t_message t" if "e \<in> set (stream (redis_of s) (stream_key cfg))"
        "e \<notin> set (stream (redis_of s') (stream_key cfg))"
      using handle_effect(2)[OF i h] that w by blast
    ultimately show ?thesis using handle_effect(1)[OF i h] step_task(2) w t by auto
  next
    case (step_cancel_message data)
    then show ?thesis using i by (auto simp: cancel_message_def worker_inv_def inflight_def split: option.splits)
  next
    case step_stop
    then show ?thesis using i by (simp add: worker_inv_def inflight_def)
  qed
  then show "rinv (redis_of s')" "worker_inv cfg s \<Longrightarrow> worker_inv cfg s'"
    "e \<in> set (stream (redis_of s) (stream_key cfg)) \<Longrightarrow> e \<notin> set (stream (redis_of s') (stream_key cfg)) \<Longrightarrow>
      parse_run_id (snd e) = None \<or> (\<exists>t \<in> set (ws_running s). t_message t = fst e \<and> t \<notin> set (ws_running s'))"
    by blast+
qed

end


section \<open>The in-memory server\<close>

definition mem_pend :: "mem_redis \<Rightarrow> string \<Rightarrow> string \<Rightarrow> string set" where
  "mem_pend r k g = (case m_groups r (k, g) of None \<Rightarrow> {} | Some gs \<Rightarrow> nat_str ` fst ` set (pel gs))"

lemma on_group_frame:
  assumes "on_group k g f r = (x, r')"
  shows "mem_inv r' = mem_inv r" and "mem_stream r' = mem_stream r"
proof -
  have "r' = r \<or> (\<exists>gs. r' = r\<lparr>m_groups := gs\<rparr>)"
    using assms by (auto simp: on_group_def split: option.splits prod.splits)
  then show "mem_inv r' = mem_inv r" "mem_stream r' = mem_stream r"
    by (elim disjE exE; simp add: mem_inv_def mem_stream_def[abs_def])+
qed

lemma mem_readgroup_law:
  assumes "mem_xreadgroup k g c n r = (Inr ms, r')"
  shows "length ms \<le> nat n \<and> set ms \<subseteq> set (mem_stream r k)"
proof -
  obtain p where ms: "ms = map (\<lambda>e. (nat_str (fst e), snd e)) (take (nat n) (filter p (m_streams r k)))"
    using assms by (auto simp: mem_xreadgroup_def on_group_def Let_def split: option.splits)
  have "set (take (nat n) (filter p (m_streams r k))) \<subseteq> set (m_streams r k)"
    using set_take_subset[of "nat n" "filter p (m_streams r k)"] by auto
  then show ?thesis unfolding ms mem_stream_def set_map by (simp add: image_mono)
qed

lemma mem_autoclaim_law:
  assumes "mem_inv r" and "mem_xautoclaim k g c idle n r = (Inr ms, r')"
  shows "length ms \<le> nat n \<and> set ms \<subseteq> set (mem_stream r k)"
proof -
  obtain ids :: "nat list" where l: "length ids \<le> nat n"
    and ms: "ms = map (\<lambda>e. (nat_str (fst e), snd e)) (filter (\<lambda>e. fst e \<in> set ids) (m_streams r k))"
  proof (cases "m_groups r (k, g)")
    case (Some gs)
    let ?ids = "map fst (take (nat n) (filter (\<lambda>(i, _, t). idle * 1000 \<le> m_now r - t) (pel gs)))"
    show ?thesis by (rule that[of ?ids]) (use assms(2) Some in \<open>simp_all add: mem_xautoclaim_def on_group_def Let_def\<close>)
  qed (use assms(2) in \<open>simp add: mem_xautoclaim_def on_group_def\<close>)
  have "distinct (map fst (filter (\<lambda>e. fst e \<in> set ids) (m_streams r k)))"
    using assms(1) by (simp add: mem_inv_def distinct_map_filter)
  then have "length ms = card (fst ` set (filter (\<lambda>e. fst e \<in> set ids) (m_streams r k)))"
    using distinct_card[of "map fst (filter (\<lambda>e. fst e \<in> set ids) (m_streams r k))"] by (simp add: ms)
  also have "\<dots> \<le> card (set ids)" by (rule card_mono) auto
  also have "\<dots> \<le> nat n" using card_length[of ids] l by simp
  finally show ?thesis by (auto simp: ms mem_stream_def)
qed

lemma mem_xack_pend: "mem_xack k g m r = (Inr u, r') \<Longrightarrow> mem_pend r' k g = mem_pend r k g - {m}"
  by (force simp: mem_xack_def on_group_def mem_pend_def image_image image_iff split: option.splits)

interpretation memc: redis_consumer mem_api mem_inv mem_stream mem_zset mem_pend
proof (unfold_locales, goal_cases)
  case (1 r k f x r')
  then show ?case using mem.xadd[of r k f "nat_str (m_next r)" r']
    by (auto simp: mem_api_def mem_xadd_def)
next
  case (2 r k mem t y r')
  then show ?case using mem.zadd[of r k mem t "()" r'] by (auto simp: mem_api_def mem_zadd_def)
next
  case (3 r k g m y r')
  then show ?case using on_group_frame[of k g _ r y r'] by (auto simp: mem_api_def mem_xack_def)
next
  case (4 r k m y r')
  then show ?case using mem.xdel[of r k m "()" r'] by (auto simp: mem_api_def mem_xdel_def)
next
  case (5 r k g c n z r')
  then show ?case using on_group_frame[of k g _ r z r'] by (auto simp: mem_api_def mem_xreadgroup_def)
next
  case (6 r k g c idle n z r')
  then show ?case using on_group_frame[of k g _ r z r'] by (auto simp: mem_api_def mem_xautoclaim_def)
next
  case (7 r k g c n ms r')
  then show ?case using mem_readgroup_law by (simp add: mem_api_def)
next
  case (8 r k g c idle n ms r')
  then show ?case using mem_autoclaim_law by (simp add: mem_api_def)
next
  case (9 r k)
  then show ?case by (auto simp: mem_inv_def mem_stream_def distinct_map inj_on_def)
next
  case (10 r k g m u r')
  then show ?case using mem_xack_pend by (simp add: mem_api_def)
next
  case (11 r k m u r')
  then show ?case by (auto simp: mem_api_def mem_xdel_def mem_pend_def[abs_def])
qed


section \<open>Properties\<close>

text \<open>
  Claim C10: the bookkeeping of the worker. From the start of the process, through
  any interleaving of reading, starting and ending tasks, cancel messages, the
  stop signal, and changes that others make to the world: never more than
  \<^verbatim>\<open>WORKER_CONCURRENCY\<close> tasks run, never more than twice as many are in flight,
  and the table that the cancel listener uses points to running tasks of the right
  run only.
\<close>

theorem worker_invariant:
  assumes rc: "redis_consumer api rinv stream zset pend"
    and s0: "worker_start api cfg w = Inr s0" "rinv (w_redis (ws_world s0))"
    and steps: "(\<lambda>s s'. worker_step api cfg wid s s' \<or> (\<exists>w. rinv (w_redis w) \<and> s' = s\<lparr>ws_world := w\<rparr>))\<^sup>*\<^sup>* s0 s"
  shows "worker_inv cfg s"
proof -
  have "worker_inv cfg s \<and> rinv (w_redis (ws_world s))"
    using steps
  proof (induction rule: rtranclp_induct)
    case base
    then show ?case using s0 by (auto simp: worker_start_def worker_inv_def inflight_def split: prod.splits sum.splits)
  next
    case (step s1 s2)
    then show ?case
      using redis_consumer.step_effect(1,2)[OF rc, of cfg wid s1 s2] by auto
  qed
  then show ?thesis ..
qed

definition mem_started :: "mem_redis wstate" where
  "mem_started = \<lparr>ws_world = sample_world\<lparr>w_redis := snd (ensure_group_async mem_api default_settings
       (snd (enqueue_run mem_api default_settings 1 mem_empty)))\<rparr>, ws_next = 0, ws_waiting = [], ws_running = [],
     ws_by_run = (\<lambda>_. None), ws_cancel = [], ws_stop = False\<rparr>"

definition mem_read :: "mem_redis wstate" where
  "mem_read = snd (worker_turn mem_api default_settings ''w1'' mem_started)"

definition mem_busy :: "mem_redis wstate" where
  "mem_busy = task_start default_settings mem_read"

lemma mem_started_inv: "mem_inv (w_redis (ws_world mem_started))"
proof -
  have e: "mem_inv (snd (enqueue_run mem_api default_settings 1 mem_empty))"
  proof (rule mem.enqueue_run_ok(1)[OF mem_empty_inv])
    have "fst (enqueue_run mem_api default_settings 1 mem_empty) = Inr ''1''" by code_simp
    then show "enqueue_run mem_api default_settings 1 mem_empty =
        (Inr ''1'', snd (enqueue_run mem_api default_settings 1 mem_empty))" by (simp add: prod_eq_iff)
  qed
  then show ?thesis
    by (simp add: mem_started_def ensure_group_async_def mem_api_def mem_xgroup_create_def mem_inv_def
        split: option.splits prod.splits sum.splits exn.splits)
qed

lemma mem_read_step: "worker_step mem_api default_settings ''w1'' mem_started mem_read"
proof (rule step_read)
  show "\<not> ws_stop mem_started" by (simp add: mem_started_def)
  have "fst (worker_turn mem_api default_settings ''w1'' mem_started) = Inr ()" by code_simp
  then show "worker_turn mem_api default_settings ''w1'' mem_started = (Inr (), mem_read)"
    by (simp add: mem_read_def prod_eq_iff)
qed

lemma mem_busy_step: "worker_step mem_api default_settings ''w1'' mem_read mem_busy"
  unfolding mem_busy_def by (rule step_start)

theorem worker_invariant_witness:
  "map t_run_id (ws_running mem_busy) = [1] \<and> worker_inv default_settings mem_busy"
proof -
  let ?w = "sample_world\<lparr>w_redis := snd (enqueue_run mem_api default_settings 1 mem_empty)\<rparr>"
  have "fst (ensure_group_async mem_api default_settings (w_redis ?w)) = Inr ()" by code_simp
  then have "worker_start mem_api default_settings ?w = Inr mem_started"
    by (cases "ensure_group_async mem_api default_settings (w_redis ?w)") (simp add: worker_start_def mem_started_def)
  moreover have "(\<lambda>s s'. worker_step mem_api default_settings ''w1'' s s' \<or>
      (\<exists>w. mem_inv (w_redis w) \<and> s' = s\<lparr>ws_world := w\<rparr>))\<^sup>*\<^sup>* mem_started mem_busy"
    by (rule rtranclp.rtrancl_into_rtrancl[OF r_into_rtranclp[of _ mem_started mem_read]])
      (use mem_read_step mem_busy_step in blast)+
  ultimately have "worker_inv default_settings mem_busy"
    by (rule worker_invariant[OF memc.redis_consumer_axioms _ mem_started_inv])
  moreover have "map t_run_id (ws_running mem_busy) = [1]" by code_simp
  ultimately show ?thesis by simp
qed




text \<open>
  Claim C26: what the end of a task means. When \<^verbatim>\<open>handle\<close> returns, its message is
  acknowledged and deleted, so that it is neither delivered nor reclaimed again;
  and when \<^verbatim>\<open>process_run\<close> returned, with the executors of the worker, a run that
  could be claimed is in a terminal state.
\<close>

theorem handle_completes:
  assumes rc: "redis_consumer api rinv stream zset pend" and i: "rinv (w_redis w)"
    and wf: "wf_db (w_db w)" and op: "run_op meanwhile" and env: "env = worker_env cl os tx h meanwhile"
    and r: "get_run_row (w_db w) k = Some r" "r_status r \<in> set (claim_allowed b)"
    and h: "handle api cfg env ck wid m k b w = (Inr (), w')"
  shows "m \<notin> fst ` set (stream (w_redis w') (stream_key cfg)) \<and>
    m \<notin> pend (w_redis w') (stream_key cfg) (consumer_group cfg) \<and> wf_db (w_db w') \<and>
    (fst (process_run api cfg env ck k b wid w) = Inr () \<longrightarrow>
       (\<forall>r'. get_run_row (w_db w') k = Some r' \<longrightarrow> is_terminal (r_status r')))"
proof -
  have eo: "env_ok env" unfolding env by (rule worker_env_ok[OF op])
  obtain x w1 where p: "process_run api cfg env ck k b wid w = (x, w1)" by (metis prod.exhaust)
  obtain u r1 where a: "ack_message api cfg m (w_redis w1) = (Inr u, r1)" and w': "w' = w1\<lparr>w_redis := r1\<rparr>"
    using h p by (auto simp: handle_def eff_simps split: if_splits)
  have i1: "rinv (w_redis w1)"
    using keepsD[OF redis_consumer.kept_run[OF rc] p] i by (simp add: entries_kept_def)
  have "wf_db (w_db w1)" using keepsD[OF contract_process_run[OF eo] p] wf by (simp add: world_rel_def run_ok_def)
  then show ?thesis
    using redis_consumer.ack_ok(2,4)[OF rc i1 a] process_run_terminal_aux[OF wf eo r, of api cfg ck wid "()" w1] p
    by (auto simp: w')
qed

definition mem_script_os :: "script os_api" where
  "mem_script_os = \<lparr>os_mkdtemp = (\<lambda>h. (Inr ''/tmp/x'', h)), os_write_text = (\<lambda>p t h. (Inr (), h)),
     os_rmtree = (\<lambda>d h. ((), h)), os_spawn = (\<lambda>argv env cwd h. (Started, h)),
     os_wait = (\<lambda>t h. ((Exited, [(STDOUT, ''hello'' @ [CHR 0x0A])]), h)),
     os_drain = (\<lambda>h. ([], h)), os_killpg = (\<lambda>h. (True, h)), os_kill = (\<lambda>h. (True, h)),
     os_returncode = (\<lambda>h. (Some 0, h))\<rparr>"

theorem handle_completes_witness:
  "\<exists>w'. handle mem_api default_settings (worker_env script_client mem_script_os sample_text (0, []) id) sample_clock ''w1'' ''1'' 1 False
       (ws_world mem_busy) = (Inr (), w') \<and>
     mem_stream (w_redis w') ''jobs:stream'' = [(''2'', [(''run_id'', ''2'')])] \<and> ''1'' \<notin> mem_pend (w_redis w') ''jobs:stream'' ''workers'' \<and>
     status_of (w_db w') 1 = Some SUCCEEDED"
proof -
  let ?env = "worker_env script_client mem_script_os sample_text (0, []) id"
  let ?h = "handle mem_api default_settings ?env sample_clock ''w1'' ''1'' 1 False (ws_world mem_busy)"
  have ok: "fst ?h = Inr ()" "status_of (w_db (snd ?h)) 1 = Some SUCCEEDED" "mem_stream (w_redis (snd ?h)) ''jobs:stream'' = [(''2'', [(''run_id'', ''2'')])]"
    by code_simp+
  have i: "mem_inv (w_redis (ws_world mem_busy))"
    by (rule memc.step_effect(1)[OF mem_busy_step memc.step_effect(1)[OF mem_read_step mem_started_inv]])
  have db: "w_db (ws_world mem_busy) = sample_db" by code_simp
  have "''1'' \<notin> mem_pend (w_redis (snd ?h)) (stream_key default_settings) (consumer_group default_settings)"
    using handle_completes[OF memc.redis_consumer_axioms i, of id ?env script_client mem_script_os sample_text "(0, [])" 1
        "mk_run 1 1 MANUAL QUEUED 0" False default_settings sample_clock "''w1''" "''1''" "snd ?h"] ok(1)
    by (auto simp: db sample_wf run_op_id[folded id_def] claim_allowed_def mk_run_def prod_eq_iff)
  then show ?thesis using ok by (intro exI[of _ "snd ?h"]) (simp add: prod_eq_iff default_settings_def)
qed

end
