(* ===== verification/Cron.thy ===== *)
theory Cron
  imports Models
begin

text \<open>
  \<^verbatim>\<open>backend/scheduler/cron.py\<close>: when a schedule fires next and which tick is due.
  The time-zone database and croniter are parameters (\<open>cron_lib\<close>). The
  \<^verbatim>\<open>while True\<close> loop of \<^verbatim>\<open>due_tick\<close> is a partial function: not returning is
  \<^term>\<open>None\<close>, and returning is proved. The locale \<open>ticker\<close> is what the loop
  relies on; interval schedules provide it, cron schedules provide it when
  croniter returns the next element of a set of fire times.
\<close>

section \<open>Next fire time\<close>

text \<open>
  \<^verbatim>\<open>zone_info\<close> is \<^verbatim>\<open>ZoneInfo(name)\<close> (\<^verbatim>\<open>ZoneInfoNotFoundError\<close> is a \<^verbatim>\<open>KeyError\<close>);
  \<^verbatim>\<open>croniter_next expr zone after\<close> is \<^verbatim>\<open>croniter(expr, after).get_next(datetime)\<close>
  with \<^verbatim>\<open>after\<close> read in the zone.
\<close>

record 'z cron_lib =
  zone_info :: "string \<Rightarrow> exn + 'z"
  croniter_next :: "string \<Rightarrow> 'z \<Rightarrow> time \<Rightarrow> exn + time"

definition zone_of :: "'z cron_lib \<Rightarrow> string \<Rightarrow> exn + 'z" where
  "zone_of lib tz_name =
     (case zone_info lib tz_name of
        Inl e \<Rightarrow> if e \<in> {KeyError, ValueError} then zone_info lib ''UTC'' else Inl e
      | Inr z \<Rightarrow> Inr z)"

text \<open>The range of \<^verbatim>\<open>timedelta\<close> (days) and of \<^verbatim>\<open>datetime\<close> (9999-12-31T23:59:59.999999).\<close>

definition TIMEDELTA_MAX_DAYS :: int where "TIMEDELTA_MAX_DAYS = 999999999"
definition DATETIME_MAX :: time where "DATETIME_MAX = 253402300799999999"

definition add_seconds :: "time \<Rightarrow> int \<Rightarrow> exn + time" where
  "add_seconds t seconds =
     (if TIMEDELTA_MAX_DAYS < seconds div 86400 then Inl OverflowError
      else if DATETIME_MAX < t + sec seconds then Inl OverflowError
      else Inr (t + sec seconds))"

definition next_run_time ::
  "'z cron_lib \<Rightarrow> string \<Rightarrow> string option \<Rightarrow> string \<Rightarrow> time \<Rightarrow> exn + time option" where
  "next_run_time lib schedule_type schedule_expr tz_name after =
     (if schedule_type = ScheduleType_CRON then
        (case schedule_expr of
           None \<Rightarrow> Inr None
         | Some expr \<Rightarrow>
             if expr = [] then Inr None
             else (case zone_of lib tz_name of
                     Inl e \<Rightarrow> Inl e
                   | Inr z \<Rightarrow> (case croniter_next lib expr z after of
                                Inl e \<Rightarrow> Inl e
                              | Inr nxt \<Rightarrow> Inr (Some nxt))))
      else if schedule_type = ScheduleType_INTERVAL then
        (case schedule_expr of
           None \<Rightarrow> Inr None
         | Some expr \<Rightarrow>
             if expr = [] \<or> \<not> isdigit expr then Inr None
             else (case py_int expr of
                     None \<Rightarrow> Inl ValueError
                   | Some seconds \<Rightarrow>
                       if seconds \<le> 0 then Inr None
                       else (case add_seconds after seconds of
                               Inl e \<Rightarrow> Inl e
                             | Inr t \<Rightarrow> Inr (Some t))))
      else Inr None)"

section \<open>The due tick\<close>

partial_function (option) due_loop ::
  "(time \<Rightarrow> exn + time option) \<Rightarrow> time \<Rightarrow> time \<Rightarrow> (exn + time option) option" where
  "due_loop nx now tick =
     (case nx tick of
        Inl e \<Rightarrow> Some (Inl e)
      | Inr None \<Rightarrow> Some (Inr (Some tick))
      | Inr (Some nxt) \<Rightarrow> if now < nxt then Some (Inr (Some tick)) else due_loop nx now nxt)"

declare due_loop.simps [code]

definition due_from ::
  "(time \<Rightarrow> exn + time option) \<Rightarrow> time \<Rightarrow> time \<Rightarrow> (exn + time option) option" where
  "due_from nx base now =
     (case nx base of
        Inl e \<Rightarrow> Some (Inl e)
      | Inr None \<Rightarrow> Some (Inr None)
      | Inr (Some tick) \<Rightarrow> if now < tick then Some (Inr None) else due_loop nx now tick)"

definition due_tick ::
  "'z cron_lib \<Rightarrow> string \<Rightarrow> string option \<Rightarrow> string \<Rightarrow> time \<Rightarrow> time \<Rightarrow> (exn + time option) option" where
  "due_tick lib schedule_type schedule_expr tz_name base now =
     due_from (next_run_time lib schedule_type schedule_expr tz_name) base now"

section \<open>What the loop relies on\<close>

text \<open>
  \<open>fires\<close> are the fire times, \<open>D\<close> the instants from which the next one is asked
  for: the next fire time is the least one strictly after.
\<close>

locale ticker =
  fixes nx :: "time \<Rightarrow> exn + time option"
    and fires :: "time set"
    and D :: "time set"
  assumes next_least: "t \<in> D \<Longrightarrow> nx t = Inr (Some t') \<Longrightarrow>
      t < t' \<and> t' \<in> fires \<and> t' \<in> D \<and> (\<forall>u \<in> fires. t < u \<longrightarrow> t' \<le> u)"
    and next_none: "t \<in> D \<Longrightarrow> nx t = Inr None \<Longrightarrow> u \<in> fires \<Longrightarrow> u \<le> t"
begin

lemma due_loop_result:
  assumes "t \<in> D" and "t \<in> fires" and "t \<le> now"
  shows "(\<exists>e u. due_loop nx now t = Some (Inl e) \<and> u \<in> D \<and> t \<le> u \<and> u \<le> now \<and> nx u = Inl e) \<or>
         (\<exists>u. due_loop nx now t = Some (Inr (Some u)) \<and> u \<in> fires \<and> t \<le> u \<and> u \<le> now \<and>
              (\<forall>v \<in> fires. v \<le> now \<longrightarrow> v \<le> u))"
  using assms
proof (induction "nat (now - t)" arbitrary: t rule: less_induct)
  case less
  show ?case
  proof (cases "nx t")
    case (Inl e)
    then show ?thesis using less.prems by (subst (1 2) due_loop.simps) auto
  next
    case (Inr x)
    show ?thesis
    proof (cases x)
      case None
      then show ?thesis
        using less.prems next_none[of t] Inr by (subst (1 2) due_loop.simps) auto
    next
      case (Some t')
      note N = next_least[OF less.prems(1) Inr[unfolded Some]]
      show ?thesis
      proof (cases "now < t'")
        case True
        then show ?thesis using less.prems N Inr Some
          by (subst (1 2) due_loop.simps) fastforce
      next
        case False
        then have eq: "due_loop nx now t = due_loop nx now t'"
          using Inr Some by (subst due_loop.simps) simp
        have m: "nat (now - t') < nat (now - t)" and le: "t' \<in> D" "t' \<in> fires" "t' \<le> now" and "t \<le> t'"
          using N False by auto
        from less.hyps[OF m le] show ?thesis
        proof (elim disjE exE conjE)
          fix e u assume "due_loop nx now t' = Some (Inl e)" "u \<in> D" "t' \<le> u" "u \<le> now" "nx u = Inl e"
          with \<open>t \<le> t'\<close> show ?thesis unfolding eq
            by (intro disjI1 exI[of _ e] exI[of _ u]) simp
        next
          fix u assume "due_loop nx now t' = Some (Inr (Some u))" "u \<in> fires" "t' \<le> u" "u \<le> now"
            "\<forall>v \<in> fires. v \<le> now \<longrightarrow> v \<le> u"
          with \<open>t \<le> t'\<close> show ?thesis unfolding eq
            by (intro disjI2 exI[of _ u]) simp
        qed
      qed
    qed
  qed
qed

text \<open>It always returns: the exception of some evaluation, nothing due, or the latest due tick.\<close>

lemma due_from_result:
  assumes b: "b \<in> D"
  shows "(\<exists>e u. due_from nx b now = Some (Inl e) \<and> u \<in> D \<and> b \<le> u \<and> (u = b \<or> u \<le> now) \<and> nx u = Inl e) \<or>
         (due_from nx b now = Some (Inr None) \<and> (\<forall>v \<in> fires. b < v \<longrightarrow> now < v)) \<or>
         (\<exists>u. due_from nx b now = Some (Inr (Some u)) \<and> u \<in> fires \<and> b < u \<and> u \<le> now \<and>
              (\<forall>v \<in> fires. v \<le> now \<longrightarrow> v \<le> u))"
proof (cases "nx b")
  case (Inl e)
  then show ?thesis using b by (auto simp: due_from_def)
next
  case (Inr x)
  show ?thesis
  proof (cases x)
    case None
    then show ?thesis using Inr next_none[OF b] by (fastforce simp: due_from_def)
  next
    case (Some t)
    note N = next_least[OF b Inr[unfolded Some]]
    show ?thesis
    proof (cases "now < t")
      case True
      then have "due_from nx b now = Some (Inr None)" using Inr Some by (simp add: due_from_def)
      moreover have "\<forall>v \<in> fires. b < v \<longrightarrow> now < v" using N True by fastforce
      ultimately show ?thesis by simp
    next
      case False
      then have eq: "due_from nx b now = due_loop nx now t" using Inr Some by (simp add: due_from_def)
      have t: "t \<in> D" "t \<in> fires" "t \<le> now" and "b < t" using N False by auto
      from due_loop_result[OF t] show ?thesis
      proof (elim disjE exE conjE)
        fix e u assume "due_loop nx now t = Some (Inl e)" "u \<in> D" "t \<le> u" "u \<le> now" "nx u = Inl e"
        with \<open>b < t\<close> show ?thesis unfolding eq
          by (intro disjI1 exI[of _ e] exI[of _ u]) simp
      next
        fix u assume "due_loop nx now t = Some (Inr (Some u))" "u \<in> fires" "t \<le> u" "u \<le> now"
          "\<forall>v \<in> fires. v \<le> now \<longrightarrow> v \<le> u"
        with \<open>b < t\<close> show ?thesis unfolding eq
          by (intro disjI2 exI[of _ u]) simp
      qed
    qed
  qed
qed

end

section \<open>Interval schedules\<close>

lemma schedule_types_distinct [simp]:
  "ScheduleType_INTERVAL \<noteq> ScheduleType_CRON" "ScheduleType_CRON \<noteq> ScheduleType_INTERVAL"
  "ScheduleType_MANUAL \<noteq> ScheduleType_CRON" "ScheduleType_MANUAL \<noteq> ScheduleType_INTERVAL"
  by (simp_all add: ScheduleType_INTERVAL_def ScheduleType_CRON_def ScheduleType_MANUAL_def)

lemma next_run_time_interval:
  assumes "isdigit e" and "py_int e = Some s" and "0 < s"
  shows "next_run_time lib ScheduleType_INTERVAL (Some e) tz t =
           (case add_seconds t s of Inl x \<Rightarrow> Inl x | Inr u \<Rightarrow> Inr (Some u))"
  using assms by (auto simp: next_run_time_def isdigit_def)

lemma interval_ticker:
  assumes "isdigit e" and "py_int e = Some s" and s: "0 < s"
  shows "ticker (next_run_time lib ScheduleType_INTERVAL (Some e) tz)
           {b + k * sec s | k. 1 \<le> k} {b + k * sec s | k. 0 \<le> k}"
proof
  fix t t' assume t: "t \<in> {b + k * sec s | k. 0 \<le> k}"
    and n: "next_run_time lib ScheduleType_INTERVAL (Some e) tz t = Inr (Some t')"
  obtain k where k: "t = b + k * sec s" "0 \<le> k" using t by blast
  have t': "t' = t + sec s"
    using n by (auto simp: next_run_time_interval[OF assms] add_seconds_def split: if_splits)
  have pos: "0 < sec s" using s by (simp add: sec_def)
  have "t' = b + (k + 1) * sec s" using t' k by (simp add: algebra_simps)
  moreover have "t' \<le> u" if u: "u \<in> {b + k * sec s | k. 1 \<le> k}" "t < u" for u
  proof -
    obtain m where m: "u = b + m * sec s" using u(1) by auto
    then have "k < m" using u(2) k pos by (simp add: mult_less_cancel_right)
    then have "(k + 1) * sec s \<le> m * sec s" using pos by (intro mult_right_mono) auto
    then show ?thesis using m k t' by (simp add: algebra_simps)
  qed
  ultimately show "t < t' \<and> t' \<in> {b + k * sec s | k. 1 \<le> k} \<and> t' \<in> {b + k * sec s | k. 0 \<le> k} \<and>
      (\<forall>u \<in> {b + k * sec s | k. 1 \<le> k}. t < u \<longrightarrow> t' \<le> u)"
    using pos t' k(2) by (intro conjI CollectI exI[of _ "k + 1"]) auto
next
  fix t u assume "next_run_time lib ScheduleType_INTERVAL (Some e) tz t = Inr None"
  then show "u \<le> t"
    by (auto simp: next_run_time_interval[OF assms] split: sum.splits)
qed

lemma py_int_nat_str: "py_int (nat_str n) = Some (int n)"
  by (simp add: py_int_isdigit isdigit_nat_str dec_val_nat_str)

interpretation interval: ticker
  "next_run_time lib ScheduleType_INTERVAL (Some (nat_str (Suc n))) tz"
  "{b + k * sec (int (Suc n)) | k. 1 \<le> k}" "{b + k * sec (int (Suc n)) | k. 0 \<le> k}" for lib n tz b
  by (rule interval_ticker) (simp_all only: isdigit_nat_str py_int_nat_str of_nat_0_less_iff zero_less_Suc)


lemma interval_next_ok:
  assumes "isdigit e" and "py_int e = Some s" and "0 < s" and "t + sec s \<le> DATETIME_MAX" and "- DATETIME_MAX \<le> t"
  shows "next_run_time lib ScheduleType_INTERVAL (Some e) tz t = Inr (Some (t + sec s))"
  using assms by (simp add: next_run_time_interval add_seconds_def sec_def DATETIME_MAX_def TIMEDELTA_MAX_DAYS_def)

text \<open>The latest multiple of the period that is due.\<close>

lemma latest_multiple:
  fixes p :: int
  assumes p: "0 < p" and u: "u \<in> {b + k * p | k. 1 \<le> k}" "u \<le> now"
    and max: "\<forall>v \<in> {b + k * p | k. 1 \<le> k}. v \<le> now \<longrightarrow> v \<le> u"
  shows "u = b + (now - b) div p * p"
proof -
  obtain k where k: "u = b + k * p" "1 \<le> k" using u(1) by blast
  have "k \<le> (now - b) div p"
    using u(2) k p by (metis add_le_cancel_left diff_add_cancel add.commute nonzero_mult_div_cancel_right
        order_less_irrefl zdiv_mono1)
  moreover have "b + (now - b) div p * p \<le> now"
    using p pos_mod_sign[of p "now - b"] div_mult_mod_eq[of "now - b" p] by linarith
  moreover have "b + (now - b) div p * p \<in> {b + k * p | k. 1 \<le> k}"
    using calculation(1) k(2) by (intro CollectI exI[of _ "(now - b) div p"]) auto
  ultimately have "k \<le> (now - b) div p" "b + (now - b) div p * p \<le> b + k * p"
    using max k(1) by blast+
  then show ?thesis using k(1) p by simp
qed

section \<open>Cron schedules\<close>

text \<open>
  The documented behaviour of croniter for an expression in a zone: the next
  element of the set of its fire times, when it returns one.
\<close>

definition croniter_ok :: "'z cron_lib \<Rightarrow> string \<Rightarrow> string \<Rightarrow> time set \<Rightarrow> bool" where
  "croniter_ok lib expr tz F \<longleftrightarrow>
     (\<forall>z t t'. zone_of lib tz = Inr z \<longrightarrow> croniter_next lib expr z t = Inr t' \<longrightarrow>
        t' \<in> F \<and> t < t' \<and> (\<forall>u \<in> F. t < u \<longrightarrow> t' \<le> u))"

lemma cron_ticker:
  assumes "croniter_ok lib e tz F" and "e \<noteq> []"
  shows "ticker (next_run_time lib ScheduleType_CRON (Some e) tz) F UNIV"
  using assms by unfold_locales (auto simp: next_run_time_def croniter_ok_def split: sum.splits)


section \<open>Properties\<close>

text \<open>
  Claim C23: the catch-up loop of an interval schedule computes, for every base
  and instant within the range of \<^verbatim>\<open>datetime\<close>, in one jump what a closed formula
  gives: nothing while the first period has not elapsed, otherwise the latest
  multiple of the period after the base. So a long idle schedule fires once, and
  its ticks never drift off the grid of its anchor.
\<close>

theorem due_tick_interval:
  assumes e: "isdigit e" and s: "py_int e = Some s" "0 < s"
    and base: "- DATETIME_MAX \<le> base" "base \<le> now" and now: "now + sec s \<le> DATETIME_MAX"
  shows "due_tick lib ScheduleType_INTERVAL (Some e) tz base now =
    Some (Inr (if now < base + sec s then None else Some (base + (now - base) div sec s * sec s)))"
proof -
  let ?nx = "next_run_time lib ScheduleType_INTERVAL (Some e) tz"
  let ?F = "{base + k * sec s | k. 1 \<le> k}" and ?D = "{base + k * sec s | k. 0 \<le> k}"
  have p: "0 < sec s" using s by (simp add: sec_def)
  have noerr: "?nx u \<noteq> Inl x" if "base \<le> u" "u = base \<or> u \<le> now" for u x
    using interval_next_ok[OF e s, of u lib tz] that base now by auto
  have b: "base \<in> ?D" by (intro CollectI exI[of _ 0]) simp
  from ticker.due_from_result[OF interval_ticker[OF e s] b, of lib tz now]
  show ?thesis unfolding due_tick_def
  proof (elim disjE exE conjE)
    assume "due_from ?nx base now = Some (Inr None)" and "\<forall>v \<in> ?F. base < v \<longrightarrow> now < v"
    moreover have "base + sec s \<in> ?F" by (intro CollectI exI[of _ 1]) simp
    ultimately show "due_from ?nx base now =
        Some (Inr (if now < base + sec s then None else Some (base + (now - base) div sec s * sec s)))"
      using p by simp
  next
    fix u assume d: "due_from ?nx base now = Some (Inr (Some u))" and u: "u \<in> ?F" "u \<le> now"
      and m: "\<forall>v \<in> ?F. v \<le> now \<longrightarrow> v \<le> u"
    have "base + sec s \<le> u"
    proof -
      obtain k where "u = base + k * sec s" "1 \<le> k" using u by blast
      then show ?thesis using p mult_right_mono[of 1 k "sec s"] by simp
    qed
    then show "due_from ?nx base now =
        Some (Inr (if now < base + sec s then None else Some (base + (now - base) div sec s * sec s)))"
      using d u latest_multiple[OF p u m] by simp
  qed (use noerr in \<open>blast+\<close>)
qed

definition sample_lib :: "unit cron_lib" where
  "sample_lib = \<lparr>zone_info = (\<lambda>n. if n = ''UTC'' then Inr () else Inl KeyError),
     croniter_next = (\<lambda>e z t. Inr (sec 60 * (t div sec 60) + sec 60))\<rparr>"

theorem due_tick_interval_witness:
  "due_tick sample_lib ScheduleType_INTERVAL (Some ''90'') ''UTC'' 0 (sec 1000) = Some (Inr (Some (sec 990)))"
  using due_tick_interval[of "''90''" 90 0 "sec 1000" sample_lib "''UTC''"]
  by (simp add: isdigit_def py_int_def py_strip_def is_dig_def is_space_def dig_val_def sec_def DATETIME_MAX_def)

text \<open>
  Claim C24: the loop terminates for every cron expression for which croniter
  keeps its promise, and its answer is exact: the exception croniter raised, or
  \<^verbatim>\<open>None\<close> when no fire time lies strictly after the base and not after now, or
  the latest such fire time.
\<close>

theorem due_tick_cron:
  assumes "croniter_ok lib e tz F" and "e \<noteq> []"
  shows "(\<exists>x u. due_tick lib ScheduleType_CRON (Some e) tz base now = Some (Inl x) \<and>
            next_run_time lib ScheduleType_CRON (Some e) tz u = Inl x) \<or>
         (due_tick lib ScheduleType_CRON (Some e) tz base now = Some (Inr None) \<and>
            (\<forall>v \<in> F. base < v \<longrightarrow> now < v)) \<or>
         (\<exists>u. due_tick lib ScheduleType_CRON (Some e) tz base now = Some (Inr (Some u)) \<and>
            u \<in> F \<and> base < u \<and> u \<le> now \<and> (\<forall>v \<in> F. v \<le> now \<longrightarrow> v \<le> u))"
  using ticker.due_from_result[OF cron_ticker[OF assms], of base now] unfolding due_tick_def
  by blast

lemma next_multiple:
  fixes p t k :: int
  assumes "0 < p"
  shows "t < p * (t div p) + p" and "t < p * k \<Longrightarrow> p * (t div p) + p \<le> p * k"
proof -
  show "t < p * (t div p) + p"
    using assms pos_mod_bound[of p t] mult_div_mod_eq[of p t] by linarith
  show "p * (t div p) + p \<le> p * k" if "t < p * k"
  proof -
    have "p * (t div p) < p * k"
      using that assms pos_mod_sign[of p t] mult_div_mod_eq[of p t] by linarith
    then have "t div p + 1 \<le> k" using assms by simp
    then have "p * (t div p + 1) \<le> p * k" using assms by (intro mult_left_mono) auto
    then show ?thesis by (simp add: algebra_simps)
  qed
qed

lemma sample_lib_ok: "croniter_ok sample_lib e ''UTC'' (range (\<lambda>k. sec 60 * k))"
  unfolding croniter_ok_def
proof (intro allI impI)
  fix z t t' assume "croniter_next sample_lib e z t = Inr t'"
  then have t': "t' = sec 60 * (t div sec 60) + sec 60" by (simp add: sample_lib_def)
  then have "t' = sec 60 * (t div sec 60 + 1)" by (simp add: algebra_simps)
  moreover have "0 < sec 60" by (simp add: sec_def)
  ultimately show "t' \<in> range (\<lambda>k. sec 60 * k) \<and> t < t' \<and> (\<forall>u \<in> range (\<lambda>k. sec 60 * k). t < u \<longrightarrow> t' \<le> u)"
    using next_multiple[of "sec 60" t] t' by (metis (no_types, lifting) imageE rangeI)
qed

theorem due_tick_cron_witness:
  "due_tick sample_lib ScheduleType_CRON (Some ''* * * * *'') ''UTC'' 0 (sec 1000) = Some (Inr (Some (sec 960)))"
proof -
  have ne: "''* * * * *'' \<noteq> []" by simp
  have 16: "sec 960 = sec 60 * 16" by (simp add: sec_def)
  have no: "next_run_time sample_lib ScheduleType_CRON (Some ''* * * * *'') ''UTC'' u \<noteq> Inl x" for u x
    by (simp add: next_run_time_def zone_of_def sample_lib_def)
  from due_tick_cron[OF sample_lib_ok ne, of 0 "sec 1000"] show ?thesis
  proof (elim disjE exE conjE)
    assume "\<forall>v \<in> range (\<lambda>k. sec 60 * k). 0 < v \<longrightarrow> sec 1000 < v"
    then have "0 < sec 60 * 16 \<longrightarrow> sec 1000 < sec 60 * 16" by blast
    then show ?thesis by (simp add: sec_def)
  next
    fix u assume d: "due_tick sample_lib ScheduleType_CRON (Some ''* * * * *'') ''UTC'' 0 (sec 1000) = Some (Inr (Some u))"
      and u: "u \<in> range (\<lambda>k. sec 60 * k)" "u \<le> sec 1000"
      and m: "\<forall>v \<in> range (\<lambda>k. sec 60 * k). v \<le> sec 1000 \<longrightarrow> v \<le> u"
    obtain k where k: "u = sec 60 * k" using u(1) by blast
    have "sec 60 * 16 \<le> sec 1000 \<longrightarrow> sec 60 * 16 \<le> u" using m by blast
    then have "k = 16" using k u(2) by (simp add: sec_def)
    then show ?thesis using d k 16 by simp
  qed (use no in blast)
qed

text \<open>
  An interval beyond the range of \<^verbatim>\<open>datetime\<close> passes the digit test of
  the validation and makes the scheduler's computation raise \<^verbatim>\<open>OverflowError\<close>
  instead of reporting that nothing is due.
\<close>

lemma due_tick_overflow:
  assumes "isdigit e" and "py_int e = Some s" and "DATETIME_MAX < base + sec s" and "base \<le> DATETIME_MAX"
  shows "due_tick lib ScheduleType_INTERVAL (Some e) tz base now = Some (Inl OverflowError)"
proof -
  have "0 < s" using assms(3,4) by (simp add: sec_def DATETIME_MAX_def)
  then show ?thesis
    using assms by (simp add: due_tick_def due_from_def next_run_time_interval add_seconds_def)
qed

end
