(* ===== verification/Leader.thy ===== *)
theory Leader
  imports Models
begin

text \<open>
  \<^verbatim>\<open>backend/scheduler/leader.py\<close>: leader election among scheduler replicas with a
  session-level advisory lock. The PostgreSQL server and the connection pool
  are a parameter (\<open>pg_api\<close>); what the election relies on is the locale
  \<open>lock_server\<close>, interpreted on an in-memory server with a connection pool in
  which a connection that is closed keeps its session (and its locks) alive.
  Replicas and losses of sessions interleave in the step relation \<open>elect_step\<close>.
\<close>

section \<open>The class Leader\<close>

record 'p pg_api =
  pg_connect :: "('p, int) eff"
  pg_try_advisory_lock :: "int \<Rightarrow> int \<Rightarrow> ('p, bool) eff"
  pg_select_1 :: "int \<Rightarrow> ('p, unit) eff"
  pg_advisory_unlock :: "int \<Rightarrow> int \<Rightarrow> ('p, unit) eff"
  pg_close :: "int \<Rightarrow> ('p, unit) eff"

record leader =
  ld_lock_key :: int
  ld_conn :: "int option"
  ld_is_leader :: bool

definition Leader_init :: "int \<Rightarrow> leader" where
  "Leader_init lock_key = \<lparr>ld_lock_key = lock_key, ld_conn = None, ld_is_leader = False\<rparr>"

definition leader_reset :: "'p pg_api \<Rightarrow> leader \<Rightarrow> 'p \<Rightarrow> leader \<times> 'p" where
  "leader_reset api l p =
     (l\<lparr>ld_is_leader := False, ld_conn := None\<rparr>,
      case ld_conn l of None \<Rightarrow> p | Some c \<Rightarrow> snd (pg_close api c p))"

definition connection_alive :: "'p pg_api \<Rightarrow> leader \<Rightarrow> 'p \<Rightarrow> bool \<times> 'p" where
  "connection_alive api l p =
     (case ld_conn l of
        None \<Rightarrow> (False, p)
      | Some c \<Rightarrow> (case pg_select_1 api c p of (Inr _, p') \<Rightarrow> (True, p') | (Inl _, p') \<Rightarrow> (False, p')))"

text \<open>The part of \<^verbatim>\<open>acquire\<close> after the early return: reset, connect, try to lock.\<close>

definition leader_attempt :: "'p pg_api \<Rightarrow> leader \<Rightarrow> 'p \<Rightarrow> bool \<times> leader \<times> 'p" where
  "leader_attempt api l p =
     (case leader_reset api l p of (l1, p1) \<Rightarrow>
        (case pg_connect api p1 of
           (Inl _, p2) \<Rightarrow> (False, leader_reset api l1 p2)
         | (Inr c, p2) \<Rightarrow>
             let l2 = l1\<lparr>ld_conn := Some c\<rparr> in
             (case pg_try_advisory_lock api c (ld_lock_key l2) p2 of
                (Inl _, p3) \<Rightarrow> (False, leader_reset api l2 p3)
              | (Inr acquired, p3) \<Rightarrow>
                  let l3 = l2\<lparr>ld_is_leader := acquired\<rparr> in
                  if acquired then (True, l3, p3) else (False, leader_reset api l3 p3))))"

definition acquire :: "'p pg_api \<Rightarrow> leader \<Rightarrow> 'p \<Rightarrow> bool \<times> leader \<times> 'p" where
  "acquire api l p =
     (if ld_is_leader l then
        (case connection_alive api l p of
           (True, p1) \<Rightarrow> (True, l, p1)
         | (False, p1) \<Rightarrow> leader_attempt api l p1)
      else leader_attempt api l p)"

definition release :: "'p pg_api \<Rightarrow> leader \<Rightarrow> 'p \<Rightarrow> leader \<times> 'p" where
  "release api l p =
     (case ld_conn l of
        Some c \<Rightarrow> if ld_is_leader l
                  then leader_reset api l (snd (pg_advisory_unlock api c (ld_lock_key l) p))
                  else leader_reset api l p
      | None \<Rightarrow> leader_reset api l p)"

section \<open>Replicas and lost sessions\<close>

text \<open>
  Replicas are numbered; \<open>die c\<close> is the loss of the session of connection \<open>c\<close>
  (its process was killed, or the network dropped it).
\<close>

inductive elect_step ::
  "'p pg_api \<Rightarrow> (int \<Rightarrow> 'p \<Rightarrow> 'p) \<Rightarrow> 'p \<times> (nat \<Rightarrow> leader) \<Rightarrow> 'p \<times> (nat \<Rightarrow> leader) \<Rightarrow> bool"
  for api die where
  try_acquire: "acquire api (L i) p = (b, l', p') \<Longrightarrow> elect_step api die (p, L) (p', L(i := l'))"
| step_down: "release api (L i) p = (l', p') \<Longrightarrow> elect_step api die (p, L) (p', L(i := l'))"
| session_lost: "elect_step api die (p, L) (die c p, L)"

section \<open>What the election relies on\<close>

text \<open>
  Observers: the session that holds a lock, the sessions that are alive, the
  connections that are checked out of the pool. A try-lock that answers true
  found the lock free or its own; one that answers false found it held by
  another session. A command that raises may or may not have taken effect.
  Closing a connection touches no other session.
\<close>

definition others_keep :: "(int \<rightharpoonup> int) \<Rightarrow> int \<Rightarrow> (int \<rightharpoonup> int) \<Rightarrow> bool" where
  "others_keep h c h' \<longleftrightarrow> (\<forall>k x. x \<noteq> c \<longrightarrow> (h' k = Some x \<longleftrightarrow> h k = Some x))"

locale lock_server =
  fixes api :: "'p pg_api"
    and die :: "int \<Rightarrow> 'p \<Rightarrow> 'p"
    and pinv :: "'p \<Rightarrow> bool"
    and holder :: "'p \<Rightarrow> int \<Rightarrow> int option"
    and live :: "'p \<Rightarrow> int set"
    and out :: "'p \<Rightarrow> int set"
  assumes connect_ok: "pinv p \<Longrightarrow> pg_connect api p = (Inr c, p') \<Longrightarrow>
      pinv p' \<and> c \<notin> out p \<and> out p' = insert c (out p) \<and> holder p' = holder p \<and>
      live p' \<inter> out p = live p \<inter> out p"
    and connect_err: "pinv p \<Longrightarrow> pg_connect api p = (Inl e, p') \<Longrightarrow>
      pinv p' \<and> out p' = out p \<and> holder p' = holder p \<and> live p' \<inter> out p = live p \<inter> out p"
    and try_true: "pinv p \<Longrightarrow> pg_try_advisory_lock api c k p = (Inr True, p') \<Longrightarrow>
      pinv p' \<and> out p' = out p \<and> live p' = live p \<and> c \<in> live p \<and>
      (holder p k = None \<or> holder p k = Some c) \<and> holder p' = (holder p)(k \<mapsto> c)"
    and try_false: "pinv p \<Longrightarrow> pg_try_advisory_lock api c k p = (Inr False, p') \<Longrightarrow>
      pinv p' \<and> out p' = out p \<and> live p' = live p \<and> holder p' = holder p \<and>
      (\<exists>x. x \<noteq> c \<and> holder p k = Some x)"
    and try_err: "pinv p \<Longrightarrow> pg_try_advisory_lock api c k p = (Inl e, p') \<Longrightarrow>
      pinv p' \<and> out p' = out p \<and> live p' = live p \<and> others_keep (holder p) c (holder p')"
    and ping: "pinv p \<Longrightarrow> pg_select_1 api c p = (x, p') \<Longrightarrow>
      pinv p' \<and> out p' = out p \<and> live p' = live p \<and> holder p' = holder p \<and> (\<forall>u. x = Inr u \<longrightarrow> c \<in> live p)"
    and unlock: "pinv p \<Longrightarrow> pg_advisory_unlock api c k p = (y, p') \<Longrightarrow>
      pinv p' \<and> out p' = out p \<and> live p' = live p \<and> others_keep (holder p) c (holder p')"
    and close: "pinv p \<Longrightarrow> pg_close api c p = (z, p') \<Longrightarrow>
      pinv p' \<and> out p' = out p - {c} \<and> live p' \<inter> (out p - {c}) = live p \<inter> (out p - {c}) \<and>
      others_keep (holder p) c (holder p')"
    and dies: "pinv p \<Longrightarrow> pinv (die c p) \<and> out (die c p) = out p \<and> live (die c p) = live p - {c} \<and>
      holder (die c p) = (\<lambda>k. if holder p k = Some c then None else holder p k)"
begin

text \<open>
  The invariant: every replica uses the same key, connections of replicas are
  checked out and not shared, a standby holds no connection, and a replica that
  believes it leads has a connection whose session, as long as it is alive,
  holds the lock.
\<close>

definition elect_inv :: "int \<Rightarrow> 'p \<times> (nat \<Rightarrow> leader) \<Rightarrow> bool" where
  "elect_inv K s \<longleftrightarrow> (case s of (p, L) \<Rightarrow> pinv p \<and>
     (\<forall>i. ld_lock_key (L i) = K) \<and>
     (\<forall>i c. ld_conn (L i) = Some c \<longrightarrow> c \<in> out p) \<and>
     (\<forall>i j c. ld_conn (L i) = Some c \<longrightarrow> ld_conn (L j) = Some c \<longrightarrow> i = j) \<and>
     (\<forall>i. \<not> ld_is_leader (L i) \<longrightarrow> ld_conn (L i) = None) \<and>
     (\<forall>i. ld_is_leader (L i) \<longrightarrow> (\<exists>c. ld_conn (L i) = Some c \<and> (c \<in> live p \<longrightarrow> holder p K = Some c))))"

text \<open>The same for one replica, seen from the others: \<open>U\<close> are the connections of the others.\<close>

definition one_inv :: "int \<Rightarrow> int set \<Rightarrow> 'p \<Rightarrow> leader \<Rightarrow> bool" where
  "one_inv K U p l \<longleftrightarrow> pinv p \<and> ld_lock_key l = K \<and> U \<subseteq> out p \<and>
     (\<forall>c. ld_conn l = Some c \<longrightarrow> c \<in> out p \<and> c \<notin> U) \<and> (\<not> ld_is_leader l \<longrightarrow> ld_conn l = None) \<and>
     (ld_is_leader l \<longrightarrow> (\<exists>c. ld_conn l = Some c \<and> (c \<in> live p \<longrightarrow> holder p K = Some c)))"

text \<open>What the others keep: their live sessions and their locks.\<close>

definition kept :: "int set \<Rightarrow> 'p \<Rightarrow> 'p \<Rightarrow> bool" where
  "kept U p p' \<longleftrightarrow> (\<forall>x \<in> U. (x \<in> live p' \<longleftrightarrow> x \<in> live p) \<and>
     (\<forall>k. holder p k = Some x \<longrightarrow> holder p' k = Some x))"

lemma kept_refl: "kept U p p" by (simp add: kept_def)

lemma kept_trans: "kept U p q \<Longrightarrow> kept U q r \<Longrightarrow> kept U p r"
  by (auto simp: kept_def)

lemma others_kept:
  assumes "others_keep (holder p) c (holder p')" and "c \<notin> U" and "U \<subseteq> X" and "live p' \<inter> X = live p \<inter> X"
  shows "kept U p p'"
  unfolding kept_def
proof
  fix x assume "x \<in> U"
  then have "x \<noteq> c" "x \<in> X" using assms by auto
  then show "(x \<in> live p' \<longleftrightarrow> x \<in> live p) \<and> (\<forall>k. holder p k = Some x \<longrightarrow> holder p' k = Some x)"
    using assms(1,4) by (auto simp: others_keep_def)
qed

lemma close_kept:
  assumes "pinv p" and "U \<subseteq> out p" and "c \<notin> U" and "pg_close api c p = (z, p')"
  shows "pinv p' \<and> U \<subseteq> out p' \<and> kept U p p'"
  using close[OF assms(1,4)] assms(2,3) by (auto intro: others_kept[where X = "out p - {c}"])

lemma reset_one:
  assumes i: "pinv p" "U \<subseteq> out p" "\<forall>c. ld_conn l = Some c \<longrightarrow> c \<notin> U" "ld_lock_key l = K"
    and r: "leader_reset api l p = (l', p')"
  shows "one_inv K U p' l' \<and> kept U p p' \<and> ld_conn l' = None \<and> \<not> ld_is_leader l'"
proof (cases "ld_conn l")
  case None
  then show ?thesis using i r by (auto simp: leader_reset_def one_inv_def kept_refl)
next
  case (Some c)
  have "pinv p' \<and> U \<subseteq> out p' \<and> kept U p p'"
    by (rule close_kept[OF i(1,2), of c]) (use i(3) Some r in \<open>auto simp: leader_reset_def prod_eq_iff\<close>)
  then show ?thesis using i(4) r Some by (auto simp: leader_reset_def one_inv_def)
qed

end

context lock_server
begin

lemma try_kept:
  assumes "pinv p" and "d \<in> out p" and "pg_try_advisory_lock api d K p = (y, p')" and "d \<notin> U" "U \<subseteq> out p"
  shows "pinv p' \<and> U \<subseteq> out p' \<and> kept U p p'"
proof (cases y)
  case (Inl e)
  show ?thesis
    using try_err[OF assms(1) assms(3)[unfolded Inl]] assms by (auto intro: others_kept[where X = "out p"])
next
  case (Inr v)
  show ?thesis
    using try_true[of p d K p'] try_false[of p d K p'] assms Inr by (cases v) (auto simp: kept_def)
qed

lemma attempt_one:
  assumes i: "one_inv K U p l" and a: "leader_attempt api l p = (b, l', p')"
  shows "one_inv K U p' l' \<and> kept U p p' \<and> b = ld_is_leader l' \<and>
     (b \<longrightarrow> (\<exists>c. ld_conn l' = Some c \<and> c \<in> live p' \<and> holder p' K = Some c))"
proof -
  obtain l1 p1 where r1: "leader_reset api l p = (l1, p1)" by (metis prod.exhaust)
  have R: "one_inv K U p1 l1" "kept U p p1" "ld_conn l1 = None" "\<not> ld_is_leader l1"
    using reset_one[OF _ _ _ _ r1, of U K] i by (auto simp: one_inv_def)
  have p1: "pinv p1" "U \<subseteq> out p1" "ld_lock_key l1 = K" using R(1) by (auto simp: one_inv_def)
  obtain x p2 where c: "pg_connect api p1 = (x, p2)" by (metis prod.exhaust)
  show ?thesis
  proof (cases x)
    case (Inl e)
    have "leader_reset api l1 p2 = (l', p')" "\<not> b" using a r1 c Inl by (auto simp: leader_attempt_def)
    then show ?thesis
      using connect_err[OF p1(1) c[unfolded Inl]] p1 R by (auto simp: leader_reset_def one_inv_def kept_def)
  next
    case (Inr d)
    note C = connect_ok[OF p1(1) c[unfolded Inr]]
    have k2: "kept U p p2" using R(2) C p1(2) by (auto simp: kept_def)
    let ?l2 = "l1\<lparr>ld_conn := Some d\<rparr>"
    have d: "d \<notin> U" "U \<subseteq> out p2" using C p1(2) by auto
    obtain y p3 where t: "pg_try_advisory_lock api d K p2 = (y, p3)" by (metis prod.exhaust)
    have kept3: "pinv p3 \<and> U \<subseteq> out p3 \<and> kept U p2 p3" using C d by (intro try_kept[OF _ _ t]) auto
    show ?thesis
    proof (cases "y = Inr True")
      case True
      then have "b" "l' = ?l2\<lparr>ld_is_leader := True\<rparr>" "p' = p3"
        using a r1 c Inr t p1(3) by (auto simp: leader_attempt_def Let_def)
      moreover have "holder p3 K = Some d" "d \<in> live p3" "out p3 = out p2"
        using try_true[OF _ t[unfolded True]] C by auto
      ultimately show ?thesis
        using kept3 k2 kept_trans C d p1(3) by (auto simp: one_inv_def)
    next
      case False
      then have "\<not> b" and r: "\<exists>l3. leader_reset api l3 p3 = (l', p') \<and> ld_conn l3 = Some d \<and> ld_lock_key l3 = K"
        using a r1 c Inr t p1(3) by (auto simp: leader_attempt_def Let_def split: sum.splits if_splits)
      then obtain l3 where l3: "leader_reset api l3 p3 = (l', p')" "ld_conn l3 = Some d" "ld_lock_key l3 = K" by blast
      show ?thesis
        using reset_one[OF _ _ _ l3(3) l3(1), of U] l3(2) kept3 d(1) k2 kept_trans \<open>\<not> b\<close> by auto
    qed
  qed
qed

lemma acquire_one:
  assumes i: "one_inv K U p l" and a: "acquire api l p = (b, l', p')"
  shows "one_inv K U p' l' \<and> kept U p p' \<and> b = ld_is_leader l' \<and>
     (b \<longrightarrow> (\<exists>c. ld_conn l' = Some c \<and> c \<in> live p' \<and> holder p' K = Some c))"
proof (cases "ld_is_leader l")
  case False
  then show ?thesis using attempt_one[OF i] a by (simp add: acquire_def)
next
  case True
  then obtain c where c: "ld_conn l = Some c" "c \<in> live p \<longrightarrow> holder p K = Some c"
    using i by (auto simp: one_inv_def)
  obtain x q where pg: "pg_select_1 api c p = (x, q)" by (metis prod.exhaust)
  note P = ping[OF _ pg]
  have iq: "one_inv K U q l" and kq: "kept U p q"
    using i P by (auto simp: one_inv_def kept_def)
  show ?thesis
  proof (cases x)
    case (Inl e)
    then have "leader_attempt api l q = (b, l', p')"
      using a True c(1) pg by (simp add: acquire_def connection_alive_def)
    then show ?thesis using attempt_one[OF iq] kq kept_trans by blast
  next
    case (Inr u)
    then have "b" "l' = l" "p' = q"
      using a True c(1) pg by (simp_all add: acquire_def connection_alive_def)
    then show ?thesis using iq kq P c True Inr i by (auto simp: one_inv_def)
  qed
qed

lemma release_one:
  assumes i: "one_inv K U p l" and r: "release api l p = (l', p')"
  shows "one_inv K U p' l' \<and> kept U p p' \<and> \<not> ld_is_leader l'"
proof -
  have base: "pinv p" "U \<subseteq> out p" "\<forall>c. ld_conn l = Some c \<longrightarrow> c \<notin> U" "ld_lock_key l = K"
    using i by (auto simp: one_inv_def)
  show ?thesis
  proof (cases "ld_is_leader l")
    case False
    then have "leader_reset api l p = (l', p')" using r by (auto simp: release_def split: option.splits)
    then show ?thesis using reset_one[OF base] by blast
  next
    case True
    then obtain c where c: "ld_conn l = Some c" using i by (auto simp: one_inv_def)
    obtain y q where u: "pg_advisory_unlock api c K p = (y, q)" by (metis prod.exhaust)
    have rr: "leader_reset api l q = (l', p')" using r True c u base(4) by (simp add: release_def)
    have q: "pinv q" "U \<subseteq> out q" using unlock[OF base(1) u] base(2) by auto
    have "kept U p q"
      using unlock[OF base(1) u] base c by (auto intro: others_kept[where X = "out p"])
    then show ?thesis using reset_one[OF q base(3,4) rr] kept_trans by blast
  qed
qed

text \<open>From one replica to all of them.\<close>

lemma elect_inv_one:
  assumes "elect_inv K (p, L)"
  shows "one_inv K {c. \<exists>j. j \<noteq> i \<and> ld_conn (L j) = Some c} p (L i)"
  using assms unfolding elect_inv_def one_inv_def by auto

lemma elect_inv_update:
  assumes i: "elect_inv K (p, L)" and U: "U = {c. \<exists>j. j \<noteq> i \<and> ld_conn (L j) = Some c}"
    and o: "one_inv K U p' l'" and k: "kept U p p'"
  shows "elect_inv K (p', L(i := l'))"
proof -
  have lead: "\<exists>c. ld_conn (L j) = Some c \<and> (c \<in> live p' \<longrightarrow> holder p' K = Some c)"
    if j: "j \<noteq> i" "ld_is_leader (L j)" for j
  proof -
    obtain c where "ld_conn (L j) = Some c" "c \<in> live p \<longrightarrow> holder p K = Some c"
      using i j by (auto simp: elect_inv_def)
    moreover then have "c \<in> U" using j U by blast
    ultimately show ?thesis using k by (auto simp: kept_def)
  qed
  show ?thesis
    using i o lead U unfolding elect_inv_def one_inv_def
    by (auto split: if_splits)
qed

lemma elect_inv_step: "elect_step api die s s' \<Longrightarrow> elect_inv K s \<Longrightarrow> elect_inv K s'"
proof (induction rule: elect_step.induct)
  case (try_acquire L i p b l' p')
  show ?case
    using acquire_one[OF elect_inv_one[OF try_acquire(2)] try_acquire(1)]
    by (intro elect_inv_update[OF try_acquire(2) refl]) auto
next
  case (step_down L i p l' p')
  show ?case
    using release_one[OF elect_inv_one[OF step_down(2)] step_down(1)]
    by (intro elect_inv_update[OF step_down(2) refl]) auto
next
  case (session_lost p L c)
  then show ?case using dies[of p c] by (fastforce simp: elect_inv_def)
qed

lemma elect_inv_reachable:
  "(elect_step api die)\<^sup>*\<^sup>* s s' \<Longrightarrow> elect_inv K s \<Longrightarrow> elect_inv K s'"
  by (induction rule: rtranclp_induct) (auto intro: elect_inv_step)

lemma elect_inv_init: "pinv p \<Longrightarrow> elect_inv K (p, \<lambda>_. Leader_init K)"
  by (simp add: elect_inv_def Leader_init_def)

lemma elect_inv_leads:
  assumes "elect_inv K (p, L)" and "ld_is_leader (L i)" and "ld_conn (L i) = Some c" and "c \<in> live p"
  shows "holder p K = Some c"
  using assms by (force simp: elect_inv_def)

lemma elect_inv_unshared:
  "elect_inv K (p, L) \<Longrightarrow> ld_conn (L i) = Some c \<Longrightarrow> ld_conn (L j) = Some c \<Longrightarrow> i = j"
  by (simp add: elect_inv_def)

lemma mutual_exclusion:
  assumes "pinv p0" and "(elect_step api die)\<^sup>*\<^sup>* (p0, \<lambda>_. Leader_init K) (p, L)"
    and "ld_is_leader (L i)" "ld_conn (L i) = Some c" "c \<in> live p"
    and "ld_is_leader (L j)" "ld_conn (L j) = Some d" "d \<in> live p"
  shows "i = j"
proof -
  have i: "elect_inv K (p, L)"
    using elect_inv_reachable[OF assms(2) elect_inv_init[OF assms(1)]] .
  have "holder p K = Some c" "holder p K = Some d"
    using elect_inv_leads[OF i assms(3-5)] elect_inv_leads[OF i assms(6-8)] .
  then have "ld_conn (L j) = Some c" using assms(7) by simp
  with i assms(4) show ?thesis by (rule elect_inv_unshared)
qed

lemma acquire_true:
  assumes "pinv p0" and "(elect_step api die)\<^sup>*\<^sup>* (p0, \<lambda>_. Leader_init K) (p, L)"
    and a: "acquire api (L i) p = (True, l', p')"
  shows "\<exists>c. ld_conn l' = Some c \<and> c \<in> live p' \<and> holder p' K = Some c \<and>
     (\<forall>j d. j \<noteq> i \<longrightarrow> ld_is_leader (L j) \<longrightarrow> ld_conn (L j) = Some d \<longrightarrow> d \<notin> live p')"
proof -
  have i: "elect_inv K (p, L)"
    using elect_inv_reachable[OF assms(2) elect_inv_init[OF assms(1)]] .
  have i': "elect_inv K (p', L(i := l'))"
    using elect_step.try_acquire[of api L i p True l' p' die, OF a] i by (rule elect_inv_step)
  obtain c where c: "ld_conn l' = Some c" "c \<in> live p'" "holder p' K = Some c"
    using acquire_one[OF elect_inv_one[OF i] a] by auto
  have "d \<notin> live p'" if "j \<noteq> i" "ld_is_leader (L j)" "ld_conn (L j) = Some d" for j d
  proof
    assume "d \<in> live p'"
    then have "holder p' K = Some d" using elect_inv_leads[OF i', of j] that by simp
    then have "d = c" using c by simp
    then show False using elect_inv_unshared[OF i', of i c j] that c by simp
  qed
  with c show ?thesis by blast
qed

text \<open>When the lock is free, an attempt that no exception interrupts succeeds.\<close>

lemma failover:
  assumes "pinv p0" and "(elect_step api die)\<^sup>*\<^sup>* (p0, \<lambda>_. Leader_init K) (p, L)"
    and free: "holder p K = None" "\<not> ld_is_leader (L i)"
    and a: "acquire api (L i) p = (b, l', p')"
  shows "b \<or> (\<exists>e q. pg_connect api p = (Inl e, q)) \<or>
     (\<exists>c q e q'. pg_connect api p = (Inr c, q) \<and> pg_try_advisory_lock api c K q = (Inl e, q'))"
proof -
  have "elect_inv K (p, L)"
    using elect_inv_reachable[OF assms(2) elect_inv_init[OF assms(1)]] .
  then have l: "ld_conn (L i) = None" "ld_lock_key (L i) = K" "pinv p"
    using free(2) by (auto simp: elect_inv_def)
  obtain x q where c: "pg_connect api p = (x, q)" by (metis prod.exhaust)
  show ?thesis
  proof (cases x)
    case (Inl e)
    then show ?thesis using c by blast
  next
    case (Inr d)
    note C = connect_ok[OF l(3) c[unfolded Inr]]
    obtain y q' where t: "pg_try_advisory_lock api d K q = (y, q')" by (metis prod.exhaust)
    show ?thesis
    proof (cases y)
      case (Inl e)
      then show ?thesis using c Inr t by blast
    next
      case (Inr v)
      have v: "v = True" using try_false[of q d K q'] t Inr C free(1) by (cases v) auto
      have "acquire api (L i) p = (True, L i\<lparr>ld_conn := Some d, ld_is_leader := True\<rparr>, q')"
        using c \<open>x = Inr d\<close> t Inr v l free(2)
        by (simp add: acquire_def leader_attempt_def leader_reset_def Let_def)
      then show ?thesis using a by simp
    qed
  qed
qed

end


section \<open>An in-memory server with a connection pool\<close>

text \<open>
  Sessions are numbered. A closed connection goes back to the pool with its
  session and its locks; the pool hands out a pooled session that is alive, or
  opens a new one.
\<close>

record mem_pg =
  mp_next :: int
  mp_live :: "int list"
  mp_out :: "int list"
  mp_idle :: "int list"
  mp_locks :: "(int \<times> int) list"

definition mem_pg_empty :: mem_pg where
  "mem_pg_empty = \<lparr>mp_next = 1, mp_live = [], mp_out = [], mp_idle = [], mp_locks = []\<rparr>"

definition mem_pg_connect :: "(mem_pg, int) eff" where
  "mem_pg_connect p =
     (case filter (\<lambda>c. c \<in> set (mp_live p)) (mp_idle p) of
        c # _ \<Rightarrow> (Inr c, p\<lparr>mp_idle := removeAll c (mp_idle p), mp_out := c # mp_out p\<rparr>)
      | [] \<Rightarrow> (Inr (mp_next p), p\<lparr>mp_next := mp_next p + 1, mp_live := mp_next p # mp_live p,
                                mp_out := mp_next p # mp_out p\<rparr>))"

definition mem_pg_try :: "int \<Rightarrow> int \<Rightarrow> (mem_pg, bool) eff" where
  "mem_pg_try c k p =
     (if c \<notin> set (mp_live p) then (Inl ConnectionError, p)
      else case map_of (mp_locks p) k of
             None \<Rightarrow> (Inr True, p\<lparr>mp_locks := (k, c) # mp_locks p\<rparr>)
           | Some x \<Rightarrow> (Inr (x = c), p))"

definition mem_pg_ping :: "int \<Rightarrow> (mem_pg, unit) eff" where
  "mem_pg_ping c p = (if c \<in> set (mp_live p) then (Inr (), p) else (Inl ConnectionError, p))"

definition mem_pg_unlock :: "int \<Rightarrow> int \<Rightarrow> (mem_pg, unit) eff" where
  "mem_pg_unlock c k p =
     (if c \<in> set (mp_live p) then (Inr (), p\<lparr>mp_locks := filter (\<lambda>e. e \<noteq> (k, c)) (mp_locks p)\<rparr>)
      else (Inl ConnectionError, p))"

definition mem_pg_close :: "int \<Rightarrow> (mem_pg, unit) eff" where
  "mem_pg_close c p =
     (Inr (), if c \<in> set (mp_out p) then p\<lparr>mp_out := removeAll c (mp_out p), mp_idle := c # mp_idle p\<rparr> else p)"

definition mem_pg_die :: "int \<Rightarrow> mem_pg \<Rightarrow> mem_pg" where
  "mem_pg_die c p = p\<lparr>mp_live := removeAll c (mp_live p), mp_locks := filter (\<lambda>e. snd e \<noteq> c) (mp_locks p)\<rparr>"

definition mem_pg_api :: "mem_pg pg_api" where
  "mem_pg_api = \<lparr>pg_connect = mem_pg_connect, pg_try_advisory_lock = mem_pg_try,
     pg_select_1 = mem_pg_ping, pg_advisory_unlock = mem_pg_unlock, pg_close = mem_pg_close\<rparr>"

definition mem_pg_inv :: "mem_pg \<Rightarrow> bool" where
  "mem_pg_inv p \<longleftrightarrow> (\<forall>c \<in> set (mp_out p). c < mp_next p \<and> c \<notin> set (mp_idle p)) \<and>
     (\<forall>c \<in> set (mp_idle p). c < mp_next p) \<and> distinct (map fst (mp_locks p))"

lemma distinct_filter_fst: "distinct (map fst xs) \<Longrightarrow> distinct (map fst (filter P xs))"
  by (induction xs) auto

lemma map_of_filter_distinct:
  "distinct (map fst xs) \<Longrightarrow> map_of (filter P xs) k = Some v \<longleftrightarrow> map_of xs k = Some v \<and> P (k, v)"
  using distinct_filter_fst[of xs P] by (simp add: map_of_eq_Some_iff)

lemma map_of_filter_snd:
  assumes "distinct (map fst xs)"
  shows "map_of (filter (\<lambda>e. snd e \<noteq> c) xs) = (\<lambda>k. if map_of xs k = Some c then None else map_of xs k)"
proof
  fix k
  have iff: "map_of (filter (\<lambda>e. snd e \<noteq> c) xs) k = Some v \<longleftrightarrow> map_of xs k = Some v \<and> v \<noteq> c" for v
    using map_of_filter_distinct[OF assms, of "\<lambda>e. snd e \<noteq> c" k v] by simp
  show "map_of (filter (\<lambda>e. snd e \<noteq> c) xs) k = (if map_of xs k = Some c then None else map_of xs k)"
  proof (cases "map_of (filter (\<lambda>e. snd e \<noteq> c) xs) k")
    case None
    then have "map_of xs k = Some v \<Longrightarrow> v = c" for v using iff[of v] by auto
    then show ?thesis using None by (cases "map_of xs k") auto
  next
    case (Some v)
    then show ?thesis using iff[of v] by auto
  qed
qed

lemmas mem_pg_defs = mem_pg_api_def mem_pg_connect_def mem_pg_try_def mem_pg_ping_def mem_pg_unlock_def
  mem_pg_close_def mem_pg_die_def

lemma mem_pg_connect_law:
  assumes i: "mem_pg_inv p" and r: "pg_connect mem_pg_api p = (x, p')"
  shows "\<exists>c. x = Inr c \<and> mem_pg_inv p' \<and> c \<notin> set (mp_out p) \<and> set (mp_out p') = insert c (set (mp_out p)) \<and>
      mp_locks p' = mp_locks p \<and> set (mp_live p') \<inter> set (mp_out p) = set (mp_live p) \<inter> set (mp_out p)"
proof (cases "filter (\<lambda>c. c \<in> set (mp_live p)) (mp_idle p)")
  case Nil
  then have "x = Inr (mp_next p)" and p': "p' = p\<lparr>mp_next := mp_next p + 1, mp_live := mp_next p # mp_live p,
      mp_out := mp_next p # mp_out p\<rparr>"
    using r by (auto simp: mem_pg_defs)
  moreover have "mp_next p \<notin> set (mp_out p)" "mp_next p \<notin> set (mp_idle p)"
    using i by (auto simp: mem_pg_inv_def)
  moreover then have "mem_pg_inv p'" using i by (force simp: p' mem_pg_inv_def)
  ultimately show ?thesis by auto
next
  case (Cons a as)
  then have "a \<in> set (filter (\<lambda>c. c \<in> set (mp_live p)) (mp_idle p))" by simp
  then have "a \<in> set (mp_idle p)" by simp
  moreover then have "a \<notin> set (mp_out p)" "a < mp_next p" using i by (auto simp: mem_pg_inv_def)
  moreover have "x = Inr a" and p': "p' = p\<lparr>mp_idle := removeAll a (mp_idle p), mp_out := a # mp_out p\<rparr>"
    using r Cons by (auto simp: mem_pg_defs)
  moreover then have "mem_pg_inv p'" using i \<open>a < mp_next p\<close> by (auto simp: mem_pg_inv_def)
  ultimately show ?thesis by auto
qed

lemma mem_pg_try_law:
  assumes i: "mem_pg_inv p" and r: "pg_try_advisory_lock mem_pg_api c k p = (x, p')"
  shows "mem_pg_inv p' \<and> mp_out p' = mp_out p \<and> mp_live p' = mp_live p \<and>
     (x = Inr True \<longrightarrow> c \<in> set (mp_live p) \<and> (map_of (mp_locks p) k = None \<or> map_of (mp_locks p) k = Some c) \<and>
        map_of (mp_locks p') = (map_of (mp_locks p))(k \<mapsto> c)) \<and>
     (x = Inr False \<longrightarrow> p' = p \<and> (\<exists>y. y \<noteq> c \<and> map_of (mp_locks p) k = Some y)) \<and>
     (\<forall>e. x = Inl e \<longrightarrow> p' = p)"
proof (cases "map_of (mp_locks p) k")
  case None
  then have "k \<notin> fst ` set (mp_locks p)" by (simp add: map_of_eq_None_iff)
  with None show ?thesis using i r by (auto simp: mem_pg_defs mem_pg_inv_def split: if_splits)
next
  case (Some y)
  then show ?thesis using i r by (auto simp: mem_pg_defs fun_upd_idem split: if_splits)
qed

lemma mem_pg_unlock_law:
  assumes i: "mem_pg_inv p" and r: "pg_advisory_unlock mem_pg_api c k p = (x, p')"
  shows "mem_pg_inv p' \<and> mp_out p' = mp_out p \<and> mp_live p' = mp_live p \<and>
     others_keep (map_of (mp_locks p)) c (map_of (mp_locks p'))"
proof -
  have d: "distinct (map fst (mp_locks p))" using i by (simp add: mem_pg_inv_def)
  have "others_keep (map_of (mp_locks p)) c (map_of (filter (\<lambda>e. e \<noteq> (k, c)) (mp_locks p)))"
    unfolding others_keep_def map_of_filter_distinct[OF d] by auto
  then show ?thesis
    using i r distinct_filter_fst[OF d] by (auto simp: mem_pg_defs mem_pg_inv_def others_keep_def split: if_splits)
qed

interpretation mem_pg: lock_server mem_pg_api mem_pg_die mem_pg_inv
  "\<lambda>p. map_of (mp_locks p)" "\<lambda>p. set (mp_live p)" "\<lambda>p. set (mp_out p)"
proof (unfold_locales, goal_cases)
  case (1 p c p') then show ?case using mem_pg_connect_law[of p "Inr c" p'] by auto
next
  case (2 p e p') then show ?case using mem_pg_connect_law[of p "Inl e" p'] by auto
next
  case (3 p c k p') then show ?case using mem_pg_try_law[of p c k "Inr True" p'] by auto
next
  case (4 p c k p') then show ?case using mem_pg_try_law[of p c k "Inr False" p'] by auto
next
  case (5 p c k e p') then show ?case using mem_pg_try_law[of p c k "Inl e" p'] by (auto simp: others_keep_def)
next
  case (6 p c x p') then show ?case by (auto simp: mem_pg_defs split: if_splits)
next
  case (7 p c k y p') then show ?case using mem_pg_unlock_law[of p c k y p'] by auto
next
  case (8 p c z p') then show ?case
    by (cases "c \<in> set (mp_out p)") (auto simp: mem_pg_defs mem_pg_inv_def others_keep_def)
next
  case (9 p c) then show ?case
    by (auto simp: mem_pg_defs mem_pg_inv_def map_of_filter_snd distinct_filter_fst)
qed


lemma mem_pg_empty_inv: "mem_pg_inv mem_pg_empty"
  by (simp add: mem_pg_inv_def mem_pg_empty_def)

text \<open>A short election: replica 0 takes the lock, then its session is lost.\<close>

definition sample_elected :: "mem_pg \<times> (nat \<Rightarrow> leader)" where
  "sample_elected = (case acquire mem_pg_api (Leader_init 42) mem_pg_empty of
     (b, l, p) \<Rightarrow> (p, (\<lambda>_. Leader_init 42)(0 := l)))"

definition sample_lost :: "mem_pg \<times> (nat \<Rightarrow> leader)" where
  "sample_lost = (mem_pg_die 1 (fst sample_elected), snd sample_elected)"

lemma sample_elected_reachable:
  "(elect_step mem_pg_api mem_pg_die)\<^sup>*\<^sup>* (mem_pg_empty, \<lambda>_. Leader_init 42) sample_elected"
proof -
  obtain b l p where a: "acquire mem_pg_api (Leader_init 42) mem_pg_empty = (b, l, p)" by (metis prod.exhaust)
  have "elect_step mem_pg_api mem_pg_die (mem_pg_empty, \<lambda>_. Leader_init 42) (p, (\<lambda>_. Leader_init 42)(0 := l))"
    by (rule elect_step.try_acquire[where L = "\<lambda>_. Leader_init 42" and i = 0]) (rule a)
  then show ?thesis by (simp add: sample_elected_def a)
qed

lemma sample_lost_reachable:
  "(elect_step mem_pg_api mem_pg_die)\<^sup>*\<^sup>* (mem_pg_empty, \<lambda>_. Leader_init 42) sample_lost"
proof -
  have "elect_step mem_pg_api mem_pg_die sample_elected sample_lost"
    unfolding sample_lost_def by (metis elect_step.session_lost prod.collapse)
  then show ?thesis using sample_elected_reachable by (rule rtranclp.rtrancl_into_rtrancl[rotated])
qed

section \<open>Properties\<close>

text \<open>
  Claim C19: at most one active leader. In every interleaving of acquisitions,
  step-downs and lost sessions of any number of replicas, when a replica's
  \<^verbatim>\<open>acquire\<close> answers true, its live session holds the advisory lock, and every
  other replica that still believes to be the leader has lost its session.
\<close>

theorem single_leader:
  assumes "lock_server api die pinv holder live out" and "pinv p0"
    and "(elect_step api die)\<^sup>*\<^sup>* (p0, \<lambda>_. Leader_init K) (p, L)"
    and "acquire api (L i) p = (True, l', p')"
  shows "\<exists>c. ld_conn l' = Some c \<and> c \<in> live p' \<and> holder p' K = Some c \<and>
     (\<forall>j d. j \<noteq> i \<longrightarrow> ld_is_leader (L j) \<longrightarrow> ld_conn (L j) = Some d \<longrightarrow> d \<notin> live p')"
  by (rule lock_server.acquire_true[OF assms])

theorem single_leader_witness:
  "\<exists>l' p' c. acquire mem_pg_api (snd sample_lost 1) (fst sample_lost) = (True, l', p') \<and>
     ld_conn l' = Some c \<and> map_of (mp_locks p') 42 = Some c \<and> ld_is_leader (snd sample_lost 0) \<and>
     ld_conn (snd sample_lost 0) = Some 1 \<and> 1 \<notin> set (mp_live p')"
proof -
  let ?a = "acquire mem_pg_api (snd sample_lost 1) (fst sample_lost)"
  have t: "fst ?a = True" and l: "ld_is_leader (snd sample_lost 0)" "ld_conn (snd sample_lost 0) = Some 1"
    by code_simp+
  have a: "?a = (True, fst (snd ?a), snd (snd ?a))" using t by (simp add: prod_eq_iff)
  have r: "(elect_step mem_pg_api mem_pg_die)\<^sup>*\<^sup>* (mem_pg_empty, \<lambda>_. Leader_init 42) (fst sample_lost, snd sample_lost)"
    using sample_lost_reachable by simp
  from single_leader[OF mem_pg.lock_server_axioms mem_pg_empty_inv r a]
  show ?thesis using a l by (metis (no_types, lifting) zero_neq_one)
qed

text \<open>
  Failover. Once the leader's session is gone and the lock is free, the
  next \<^verbatim>\<open>acquire\<close> of any standby makes it the leader, unless the database itself
  raises on connecting or on the lock query; then the standby answers false.
\<close>

lemma standby_takes_over:
  assumes "lock_server api die pinv holder live out" and "pinv p0"
    and "(elect_step api die)\<^sup>*\<^sup>* (p0, \<lambda>_. Leader_init K) (p, L)"
    and "holder p K = None" and "\<not> ld_is_leader (L i)"
    and "acquire api (L i) p = (b, l', p')"
  shows "b \<or> (\<exists>e q. pg_connect api p = (Inl e, q)) \<or>
     (\<exists>c q e q'. pg_connect api p = (Inr c, q) \<and> pg_try_advisory_lock api c K q = (Inl e, q'))"
  by (rule lock_server.failover[OF assms])

end
