(* ===== verification/Scheduler.thy ===== *)
theory Scheduler
  imports Store Cron Leader
begin

text \<open>
  \<^verbatim>\<open>backend/scheduler/main.py\<close>: one tick of the scheduler (promote delayed runs,
  create the runs that are due, re-enqueue orphans) and its main loop under
  leader election. A result \<^term>\<open>None\<close> stands for a catch-up loop that does not
  return. Clock readings are arguments; \<^verbatim>\<open>logger\<close> and gauges are not modelled.
\<close>

section \<open>Creating the due runs\<close>

record sched_clock =
  sk_now :: time
  sk_create :: "int \<Rightarrow> time"
  sk_update :: "int \<Rightarrow> time"

text \<open>\<^verbatim>\<open>job.last_scheduled_for = tick\<close>, with the column \<^verbatim>\<open>updated_at\<close> set on flush.\<close>

definition set_last_scheduled :: "time \<Rightarrow> int \<Rightarrow> time \<Rightarrow> db \<Rightarrow> db" where
  "set_last_scheduled upd job_id tick =
     update_jobs (\<lambda>j. j_id j = job_id) (\<lambda>j. j\<lparr>j_last_scheduled_for := Some tick, j_updated_at := upd\<rparr>)"

definition schedule_base :: "job \<Rightarrow> time" where
  "schedule_base job = (case j_last_scheduled_for job of Some t \<Rightarrow> t | None \<Rightarrow> j_created_at job)"

definition job_due :: "'z cron_lib \<Rightarrow> time \<Rightarrow> job \<Rightarrow> (exn + time option) option" where
  "job_due lib now job =
     due_tick lib (j_schedule_type job) (j_schedule_expr job) (j_timezone job) (schedule_base job) now"

text \<open>The body of the loop; the savepoint makes a failing insert leave no trace.\<close>

definition schedule_job ::
  "'z cron_lib \<Rightarrow> sched_clock \<Rightarrow> job \<Rightarrow> db \<Rightarrow> ((exn + int option) \<times> db) option" where
  "schedule_job lib ck job d =
     (case job_due lib (sk_now ck) job of
        None \<Rightarrow> None
      | Some (Inl e) \<Rightarrow> Some (Inl e, d)
      | Some (Inr None) \<Rightarrow> Some (Inr None, d)
      | Some (Inr (Some tick)) \<Rightarrow>
          (case insert_run (sk_create ck (runs_seq d)) (j_id job) SCHEDULED QUEUED 1 (Some tick) d of
             (Inr run, d') \<Rightarrow> Some (Inr (Some (r_id run)), set_last_scheduled (sk_update ck (j_id job)) (j_id job) tick d')
           | (Inl e, d') \<Rightarrow>
               if e = IntegrityError
               then Some (Inr None, set_last_scheduled (sk_update ck (j_id job)) (j_id job) tick d)
               else Some (Inl e, d)))"

fun schedule_loop ::
  "'z cron_lib \<Rightarrow> sched_clock \<Rightarrow> job list \<Rightarrow> int list \<Rightarrow> db \<Rightarrow> ((exn + int list) \<times> db) option" where
  "schedule_loop lib ck [] enqueued d = Some (Inr enqueued, d)"
| "schedule_loop lib ck (job # js) enqueued d =
     (case schedule_job lib ck job d of
        None \<Rightarrow> None
      | Some (Inl e, d') \<Rightarrow> Some (Inl e, d')
      | Some (Inr None, d') \<Rightarrow> schedule_loop lib ck js enqueued d'
      | Some (Inr (Some i), d') \<Rightarrow> schedule_loop lib ck js (enqueued @ [i]) d')"

definition schedulable :: "db \<Rightarrow> job list" where
  "schedulable d = filter (\<lambda>j. j_enabled j \<and> j_schedule_type j \<in> {ScheduleType_CRON, ScheduleType_INTERVAL}) (jobs d)"

definition schedule_due_jobs ::
  "'z cron_lib \<Rightarrow> sched_clock \<Rightarrow> db \<Rightarrow> ((exn + int list) \<times> db) option" where
  "schedule_due_jobs lib ck d = schedule_loop lib ck (schedulable d) [] d"

definition requeue_orphans :: "settings \<Rightarrow> time \<Rightarrow> db \<Rightarrow> int list" where
  "requeue_orphans cfg now d =
     map r_id (filter (\<lambda>r. r_status r = QUEUED \<and> r_created_at r < now - sec (orphan_requeue_after_sec cfg)) (runs d))"

section \<open>The tick\<close>

definition tick ::
  "'r redis_api \<Rightarrow> settings \<Rightarrow> 'z cron_lib \<Rightarrow> sched_clock \<Rightarrow> 'r world \<Rightarrow> ((exn + unit) \<times> 'r world) option" where
  "tick api cfg lib ck w =
     (case promote_due_delayed api cfg (sk_now ck) (w_redis w) of
        (Inl e, r1) \<Rightarrow> Some (Inl e, w\<lparr>w_redis := r1\<rparr>)
      | (Inr promoted, r1) \<Rightarrow>
          (case schedule_due_jobs lib ck (w_db w) of
             None \<Rightarrow> None
           | Some (Inl e, _) \<Rightarrow> Some (Inl e, w\<lparr>w_redis := r1\<rparr>)
           | Some (Inr scheduled, d') \<Rightarrow>
               let orphans = requeue_orphans cfg (sk_now ck) d' in
               Some (andthen (on_redis (for_each scheduled (\<lambda>i. andthen (enqueue_run api cfg i) (\<lambda>_. ret ())))) (\<lambda>_.
                     andthen (on_redis (for_each orphans (\<lambda>i. andthen (enqueue_run api cfg i) (\<lambda>_. ret ())))) (\<lambda>_.
                     andthen (on_redis (pending_count api cfg)) (\<lambda>_. ret ()))) (w\<lparr>w_db := d', w_redis := r1\<rparr>))))"

section \<open>The main loop\<close>

record ('p, 'r) sched_state =
  ss_leader :: leader
  ss_pg :: 'p
  ss_world :: "'r world"

text \<open>One turn of the \<^verbatim>\<open>while\<close> loop: an exception of the tick is logged and dropped.\<close>

definition scheduler_turn ::
  "'p pg_api \<Rightarrow> 'r redis_api \<Rightarrow> settings \<Rightarrow> 'z cron_lib \<Rightarrow> sched_clock \<Rightarrow> ('p, 'r) sched_state \<Rightarrow> ('p, 'r) sched_state option" where
  "scheduler_turn pg api cfg lib ck s =
     (case acquire pg (ss_leader s) (ss_pg s) of
        (True, l, p) \<Rightarrow> (case tick api cfg lib ck (ss_world s) of
                           None \<Rightarrow> None
                         | Some (_, w) \<Rightarrow> Some \<lparr>ss_leader = l, ss_pg = p, ss_world = w\<rparr>)
      | (False, l, p) \<Rightarrow> Some \<lparr>ss_leader = l, ss_pg = p, ss_world = ss_world s\<rparr>)"

text \<open>The loop until the stop signal, as the list of clock readings of its turns, and the final release.\<close>

fun scheduler_loop ::
  "'p pg_api \<Rightarrow> 'r redis_api \<Rightarrow> settings \<Rightarrow> 'z cron_lib \<Rightarrow> sched_clock list \<Rightarrow> ('p, 'r) sched_state \<Rightarrow> ('p, 'r) sched_state option" where
  "scheduler_loop pg api cfg lib [] s =
     (case release pg (ss_leader s) (ss_pg s) of (l, p) \<Rightarrow> Some (s\<lparr>ss_leader := l, ss_pg := p\<rparr>))"
| "scheduler_loop pg api cfg lib (ck # cks) s =
     (case scheduler_turn pg api cfg lib ck s of None \<Rightarrow> None | Some s' \<Rightarrow> scheduler_loop pg api cfg lib cks s')"

definition scheduler_main ::
  "'p pg_api \<Rightarrow> 'r redis_api \<Rightarrow> settings \<Rightarrow> 'z cron_lib \<Rightarrow> sched_clock list \<Rightarrow> 'p \<Rightarrow> 'r world \<Rightarrow>
     (exn + ('p, 'r) sched_state) option" where
  "scheduler_main pg api cfg lib cks p w =
     (case ensure_group api cfg (w_redis w) of
        (Inl e, r) \<Rightarrow> Some (Inl e)
      | (Inr _, r) \<Rightarrow>
          map_option Inr (scheduler_loop pg api cfg lib cks
            \<lparr>ss_leader = Leader_init (scheduler_lock_key cfg), ss_pg = p, ss_world = w\<lparr>w_redis := r\<rparr>\<rparr>))"

section \<open>Lemmas on the job bookkeeping\<close>

lemma keeps_last: "keeps_job_keys (\<lambda>j. j\<lparr>j_last_scheduled_for := x, j_updated_at := y\<rparr>)"
  by (simp add: keeps_job_keys_def)

lemma set_last_frame [simp]:
  "runs (set_last_scheduled upd i t d) = runs d" "runs_seq (set_last_scheduled upd i t d) = runs_seq d"
  "deps (set_last_scheduled upd i t d) = deps d" "users (set_last_scheduled upd i t d) = users d"
  "j_id ` set (jobs (set_last_scheduled upd i t d)) = j_id ` set (jobs d)"
  by (simp_all add: set_last_scheduled_def)
    (simp add: update_jobs_def job_ids_update(2)[OF keeps_last])

lemma get_run_row_set_last [simp]: "get_run_row (set_last_scheduled upd i t d) k = get_run_row d k"
  by (simp add: get_run_row_def)

lemma run_ok_set_last: "run_ok d d' \<Longrightarrow> run_ok d (set_last_scheduled upd i t d')"
  unfolding set_last_scheduled_def run_ok_def
  by (auto simp: wf_update_jobs[OF keeps_last] get_run_row_def)


section \<open>What one pass creates\<close>

lemma schedule_job_not_due:
  "job_due lib (sk_now ck) job = Some (Inr None) \<Longrightarrow> schedule_job lib ck job d = Some (Inr None, d)"
  by (simp add: schedule_job_def)

lemma schedule_job_ok:
  assumes s: "schedule_job lib ck job d = Some (Inr x, d')" and job: "j_id job \<in> j_id ` set (jobs d)"
  shows "(job_due lib (sk_now ck) job = Some (Inr None) \<and> x = None \<and> d' = d) \<or>
    (\<exists>u. job_due lib (sk_now ck) job = Some (Inr (Some u)) \<and> x = None \<and>
        (j_id job, Some u) \<in> set (run_ticks (runs d)) \<and>
        d' = set_last_scheduled (sk_update ck (j_id job)) (j_id job) u d) \<or>
    (\<exists>u r d1. job_due lib (sk_now ck) job = Some (Inr (Some u)) \<and> x = Some (r_id r) \<and>
        insert_run (sk_create ck (runs_seq d)) (j_id job) SCHEDULED QUEUED 1 (Some u) d = (Inr r, d1) \<and>
        d' = set_last_scheduled (sk_update ck (j_id job)) (j_id job) u d1)"
proof -
  consider "job_due lib (sk_now ck) job = Some (Inr None)"
    | u where "job_due lib (sk_now ck) job = Some (Inr (Some u))"
    using s by (auto simp: schedule_job_def split: option.splits sum.splits)
  then show ?thesis
  proof cases
    case 1
    then show ?thesis using s by (simp add: schedule_job_def)
  next
    case (2 u)
    let ?ins = "insert_run (sk_create ck (runs_seq d)) (j_id job) SCHEDULED QUEUED 1 (Some u) d"
    show ?thesis
    proof (cases "(j_id job, Some u) \<in> set (run_ticks (runs d))")
      case True
      then have "?ins = (Inl IntegrityError, d)" using job by (simp add: insert_run_def)
      then show ?thesis using s 2 True by (simp add: schedule_job_def)
    next
      case False
      then obtain r d1 where "?ins = (Inr r, d1)" using job by (auto simp: insert_run_def Let_def)
      then show ?thesis using s 2 by (simp add: schedule_job_def)
    qed
  qed
qed

lemma run_ok_schedule_job:
  assumes w: "wf_db d" and s: "schedule_job lib ck job d = Some (x, d')"
  shows "run_ok d d'"
proof -
  have "run_ok d (snd (insert_run t (j_id job) SCHEDULED QUEUED 1 (Some u) d))" for t u
    by (rule run_ok_insert[OF w])
  then have "\<And>t u y d1. insert_run t (j_id job) SCHEDULED QUEUED 1 (Some u) d = (y, d1) \<Longrightarrow> run_ok d d1"
    by (metis snd_conv)
  then show ?thesis
    using s run_ok_refl[OF w]
    by (auto simp: schedule_job_def run_ok_set_last split: option.splits sum.splits prod.splits if_splits)
qed

lemma run_ok_schedule_loop:
  "wf_db d \<Longrightarrow> schedule_loop lib ck js acc d = Some (x, d') \<Longrightarrow> run_ok d d'"
proof (induction lib ck js acc d rule: schedule_loop.induct)
  case (1 lib ck acc d)
  then show ?case by (simp add: run_ok_refl)
next
  case (2 lib ck job js acc d)
  obtain y d1 where s: "schedule_job lib ck job d = Some (y, d1)"
    using 2(4) by (auto split: option.splits)
  have ok: "run_ok d d1" using run_ok_schedule_job[OF 2(3) s] .
  then have w1: "wf_db d1" by (simp add: run_ok_def)
  show ?case
  proof (cases y)
    case (Inl e)
    then show ?thesis using s 2(4) ok by simp
  next
    case (Inr z)
    have "run_ok d1 d'" using 2(1,2,4) s Inr w1 by (cases z) auto
    then show ?thesis using run_ok_trans[OF 2(3) ok] by blast
  qed
qed


text \<open>The row that a due tick of a job creates.\<close>

definition tick_run :: "'z cron_lib \<Rightarrow> time \<Rightarrow> job \<Rightarrow> job_run \<Rightarrow> bool" where
  "tick_run lib now job r \<longleftrightarrow> job_due lib now job = Some (Inr (r_scheduled_for r)) \<and>
     r_scheduled_for r \<noteq> None \<and> r_job_id r = j_id job \<and> r_trigger_type r = SCHEDULED \<and>
     r_status r = QUEUED \<and> r_attempt r = 1"

lemma run_ticks_append [simp]: "run_ticks (xs @ ys) = run_ticks xs @ run_ticks ys"
  by (simp add: run_ticks_def)

lemma in_run_ticks: "(j, Some u) \<in> set (run_ticks rs) \<longleftrightarrow> (\<exists>r \<in> set rs. r_job_id r = j \<and> r_scheduled_for r = Some u)"
  by (force simp: run_ticks_def)

lemma schedule_job_rows:
  assumes s: "schedule_job lib ck job d = Some (Inr x, d')" and job: "j_id job \<in> j_id ` set (jobs d)"
  obtains rs where "runs d' = runs d @ rs" and "map r_id rs = (case x of None \<Rightarrow> [] | Some i \<Rightarrow> [i])"
    and "\<forall>r \<in> set rs. tick_run lib (sk_now ck) job r"
    and "\<forall>u. job_due lib (sk_now ck) job = Some (Inr (Some u)) \<longrightarrow> (j_id job, Some u) \<in> set (run_ticks (runs d @ rs))"
    and "\<forall>u. job_due lib (sk_now ck) job = Some (Inr (Some u)) \<longrightarrow> (j_id job, Some u) \<in> set (run_ticks (runs d)) \<longrightarrow> rs = []"
    and "j_id ` set (jobs d') = j_id ` set (jobs d)"
  using schedule_job_ok[OF s job]
proof (elim disjE exE conjE)
  assume "job_due lib (sk_now ck) job = Some (Inr None)" "x = None" "d' = d"
  then show thesis by (intro that[of "[]"]) auto
next
  fix u assume "job_due lib (sk_now ck) job = Some (Inr (Some u))" "x = None"
    "(j_id job, Some u) \<in> set (run_ticks (runs d))" "d' = set_last_scheduled (sk_update ck (j_id job)) (j_id job) u d"
  then show thesis by (intro that[of "[]"]) auto
next
  fix u r d1 assume due: "job_due lib (sk_now ck) job = Some (Inr (Some u))" and x: "x = Some (r_id r)"
    and ins: "insert_run (sk_create ck (runs_seq d)) (j_id job) SCHEDULED QUEUED 1 (Some u) d = (Inr r, d1)"
    and d': "d' = set_last_scheduled (sk_update ck (j_id job)) (j_id job) u d1"
  note I = insert_run_Inr[OF ins]
  have r: "r_job_id r = j_id job" "r_scheduled_for r = Some u" "tick_run lib (sk_now ck) job r"
    using due by (simp_all add: I(1) tick_run_def)
  show thesis
  proof (rule that[of "[r]"])
    show "runs d' = runs d @ [r]" "j_id ` set (jobs d') = j_id ` set (jobs d)"
      using I(2) by (simp_all add: d')
    show "\<forall>u. job_due lib (sk_now ck) job = Some (Inr (Some u)) \<longrightarrow> (j_id job, Some u) \<in> set (run_ticks (runs d @ [r]))"
      using due r by (auto simp: in_run_ticks simp del: run_ticks_append)
    show "\<forall>u. job_due lib (sk_now ck) job = Some (Inr (Some u)) \<longrightarrow> (j_id job, Some u) \<in> set (run_ticks (runs d)) \<longrightarrow> [r] = []"
      using due I(4) by auto
  qed (use x r in auto)
qed

text \<open>The rows of one job and those of the later jobs have different jobs; a job without new rows was covered before.\<close>

lemma tick_rows_distinct:
  assumes "map r_id rs1 = (case x of None \<Rightarrow> [] | Some i \<Rightarrow> [i])" and "\<forall>r \<in> set rs1. tick_run lib now job r"
    and "\<forall>r \<in> set rs2. \<exists>job \<in> set js. tick_run lib now job r" and "distinct (map r_job_id rs2)"
    and "distinct (map j_id (job # js))"
  shows "distinct (map r_job_id (rs1 @ rs2))"
proof -
  have "length rs1 \<le> 1" using arg_cong[OF assms(1), of length] by (cases x) auto
  then have "distinct (map r_job_id rs1)" by (cases rs1) auto
  moreover have "r_job_id r \<noteq> r_job_id q" if "r \<in> set rs1" "q \<in> set rs2" for r q
  proof -
    have "r_job_id r = j_id job" using that(1) assms(2) by (auto simp: tick_run_def)
    moreover have "r_job_id q \<in> j_id ` set js" using that(2) assms(3) by (force simp: tick_run_def)
    ultimately show ?thesis using assms(5) by auto
  qed
  ultimately show ?thesis using assms(4) by auto
qed

lemma tick_rows_covered:
  assumes "\<forall>r \<in> set rs. tick_run lib now job r"
    and "\<forall>u. job_due lib now job = Some (Inr (Some u)) \<longrightarrow> (j_id job, Some u) \<in> T \<longrightarrow> rs = []"
    and "\<forall>u. job_due lib now job = Some (Inr (Some u)) \<longrightarrow> (j_id job, Some u) \<in> T"
  shows "rs = []"
proof (rule ccontr)
  assume ne: "rs \<noteq> []"
  then obtain r where "r \<in> set rs" by (cases rs) auto
  then have "\<exists>u. job_due lib now job = Some (Inr (Some u))" using assms(1) by (auto simp: tick_run_def)
  then show False using assms(2,3) ne by auto
qed

lemma schedule_loop_rows:
  assumes "schedule_loop lib ck js acc d = Some (Inr ids, d')" and "j_id ` set js \<subseteq> j_id ` set (jobs d)"
    and "distinct (map j_id js)"
  shows "\<exists>rs. runs d' = runs d @ rs \<and> ids = acc @ map r_id rs \<and>
     (\<forall>r \<in> set rs. \<exists>job \<in> set js. tick_run lib (sk_now ck) job r) \<and> distinct (map r_job_id rs) \<and>
     (\<forall>job \<in> set js. \<forall>u. job_due lib (sk_now ck) job = Some (Inr (Some u)) \<longrightarrow>
        (j_id job, Some u) \<in> set (run_ticks (runs d @ rs))) \<and>
     ((\<forall>job \<in> set js. \<forall>u. job_due lib (sk_now ck) job = Some (Inr (Some u)) \<longrightarrow>
        (j_id job, Some u) \<in> set (run_ticks (runs d))) \<longrightarrow> rs = [])"
  using assms
proof (induction lib ck js acc d rule: schedule_loop.induct)
  case (1 lib ck acc d)
  then show ?case by auto
next
  case (2 lib ck job js acc d)
  obtain x d1 where s: "schedule_job lib ck job d = Some (Inr x, d1)"
    using 2(3) by (auto split: option.splits sum.splits)
  obtain rs1 where 1: "runs d1 = runs d @ rs1" "map r_id rs1 = (case x of None \<Rightarrow> [] | Some i \<Rightarrow> [i])"
      "\<forall>r \<in> set rs1. tick_run lib (sk_now ck) job r"
      "\<forall>u. job_due lib (sk_now ck) job = Some (Inr (Some u)) \<longrightarrow> (j_id job, Some u) \<in> set (run_ticks (runs d @ rs1))"
      "\<forall>u. job_due lib (sk_now ck) job = Some (Inr (Some u)) \<longrightarrow> (j_id job, Some u) \<in> set (run_ticks (runs d)) \<longrightarrow> rs1 = []"
      "j_id ` set (jobs d1) = j_id ` set (jobs d)"
    by (rule schedule_job_rows[OF s]) (use 2(4) in auto)
  have rest: "schedule_loop lib ck js (acc @ map r_id rs1) d1 = Some (Inr ids, d')"
    using 2(3) s 1(2) by (cases x) auto
  have "j_id ` set js \<subseteq> j_id ` set (jobs d1)" "distinct (map j_id js)" using 2(4,5) 1(6) by auto
  then obtain rs2 where R: "runs d' = runs d1 @ rs2" "ids = (acc @ map r_id rs1) @ map r_id rs2"
      "\<forall>r \<in> set rs2. \<exists>job \<in> set js. tick_run lib (sk_now ck) job r" "distinct (map r_job_id rs2)"
      "\<forall>job \<in> set js. \<forall>u. job_due lib (sk_now ck) job = Some (Inr (Some u)) \<longrightarrow>
        (j_id job, Some u) \<in> set (run_ticks (runs d1 @ rs2))"
      "(\<forall>job \<in> set js. \<forall>u. job_due lib (sk_now ck) job = Some (Inr (Some u)) \<longrightarrow>
        (j_id job, Some u) \<in> set (run_ticks (runs d1))) \<longrightarrow> rs2 = []"
    using 2(1)[OF s refl] 2(2)[OF s refl] rest 1(2) by (cases x) auto
  show ?case
  proof (intro exI[of _ "rs1 @ rs2"] conjI)
    show "distinct (map r_job_id (rs1 @ rs2))" by (rule tick_rows_distinct[OF 1(2,3) R(3,4) 2(5)])
    show "(\<forall>job \<in> set (job # js). \<forall>u. job_due lib (sk_now ck) job = Some (Inr (Some u)) \<longrightarrow>
        (j_id job, Some u) \<in> set (run_ticks (runs d))) \<longrightarrow> rs1 @ rs2 = []"
    proof
      assume *: "\<forall>job \<in> set (job # js). \<forall>u. job_due lib (sk_now ck) job = Some (Inr (Some u)) \<longrightarrow>
        (j_id job, Some u) \<in> set (run_ticks (runs d))"
      then have "rs1 = []" by (intro tick_rows_covered[OF 1(3,5)]) simp
      then show "rs1 @ rs2 = []" using R(6) * 1(1) by simp
    qed
  qed (use 1 R in auto)
qed


text \<open>The bookkeeping column after one pass.\<close>

definition bump :: "'z cron_lib \<Rightarrow> sched_clock \<Rightarrow> job \<Rightarrow> job \<Rightarrow> job" where
  "bump lib ck job j =
     (case job_due lib (sk_now ck) job of
        Some (Inr (Some u)) \<Rightarrow> j\<lparr>j_last_scheduled_for := Some u, j_updated_at := sk_update ck (j_id j)\<rparr>
      | _ \<Rightarrow> j)"

lemma get_job_row_set_last:
  "get_job_row (set_last_scheduled upd i t d) k =
     map_option (\<lambda>j. if k = i then j\<lparr>j_last_scheduled_for := Some t, j_updated_at := upd\<rparr> else j) (get_job_row d k)"
  using get_job_row_SomeD[of d k]
  by (cases "get_job_row d k") (auto simp: set_last_scheduled_def get_job_row_update_jobs[OF keeps_last])

lemma schedule_job_job_row:
  assumes s: "schedule_job lib ck job d = Some (Inr x, d')" and job: "j_id job \<in> j_id ` set (jobs d)"
  shows "get_job_row d' k = map_option (\<lambda>j. if k = j_id job then bump lib ck job j else j) (get_job_row d k)"
proof -
  have k: "j_id j = k" if "get_job_row d k = Some j" for j using get_job_row_SomeD[OF that] by simp
  have ins: "get_job_row d1 k = get_job_row d k"
    if "insert_run t (j_id job) SCHEDULED QUEUED 1 (Some u) d = (Inr r, d1)" for t u r d1
    by (simp add: insert_run_Inr(2)[OF that] get_job_row_def)
  show ?thesis
    using schedule_job_ok[OF s job] k ins
    by (cases "get_job_row d k") (auto simp: bump_def get_job_row_set_last)
qed

lemma schedule_loop_job_row:
  assumes "schedule_loop lib ck js acc d = Some (Inr ids, d')" and "j_id ` set js \<subseteq> j_id ` set (jobs d)"
    and "distinct (map j_id js)"
  shows "get_job_row d' k =
     (case get_by j_id k js of None \<Rightarrow> get_job_row d k | Some job \<Rightarrow> map_option (bump lib ck job) (get_job_row d k))"
  using assms
proof (induction lib ck js acc d rule: schedule_loop.induct)
  case (2 lib ck job js acc d)
  obtain x d1 where s: "schedule_job lib ck job d = Some (Inr x, d1)"
    using 2(3) by (auto split: option.splits sum.splits)
  obtain rs where ids: "j_id ` set (jobs d1) = j_id ` set (jobs d)"
    by (rule schedule_job_rows[OF s]) (use 2(4) in auto)
  have row: "get_job_row d1 k = map_option (\<lambda>j. if k = j_id job then bump lib ck job j else j) (get_job_row d k)"
    by (rule schedule_job_job_row[OF s]) (use 2(4) in auto)
  obtain acc' where "schedule_loop lib ck js acc' d1 = Some (Inr ids, d')"
    using 2(3) s by (cases x) auto
  then have "get_job_row d' k =
     (case get_by j_id k js of None \<Rightarrow> get_job_row d1 k | Some job \<Rightarrow> map_option (bump lib ck job) (get_job_row d1 k))"
    using 2(1)[OF s refl] 2(2)[OF s refl] 2(3-5) s ids by (cases x) auto
  moreover have "get_by j_id k js = None" if "j_id job = k"
    using 2(5) that by (auto simp: get_by_None_iff)
  moreover have "map_option (\<lambda>j. j) y = y" for y :: "job option" by (cases y) auto
  ultimately show ?case using row by (auto split: option.splits simp: option.map_ident)
qed simp

lemma schedulable_sub: "j_id ` set (schedulable d) \<subseteq> j_id ` set (jobs d)"
  by (auto simp: schedulable_def)

lemma schedulable_distinct: "wf_db d \<Longrightarrow> distinct (map j_id (schedulable d))"
  unfolding schedulable_def using wf_db_jobs_distinct[of d] by (simp add: distinct_map inj_on_def)

lemma schedulable_row:
  assumes "wf_db d"
  shows "get_by j_id k (schedulable d) = Some job \<longleftrightarrow> get_job_row d k = Some job \<and> job \<in> set (schedulable d)"
  using get_by_distinct[OF schedulable_distinct[OF assms]] get_job_row_iff[OF assms]
  by (auto simp: schedulable_def)

section \<open>Schedules whose computation is in range\<close>

text \<open>
  An interval schedule within the range of \<^verbatim>\<open>datetime\<close>, or a cron schedule for
  which croniter keeps its promise and does not raise.
\<close>

definition job_clock_ok :: "'z cron_lib \<Rightarrow> time \<Rightarrow> job \<Rightarrow> bool" where
  "job_clock_ok lib now job \<longleftrightarrow>
     (\<exists>e. j_schedule_expr job = Some e \<and>
        (j_schedule_type job = ScheduleType_INTERVAL \<and>
           (\<exists>s. isdigit e \<and> py_int e = Some s \<and> 0 < s \<and> - DATETIME_MAX \<le> schedule_base job \<and>
                schedule_base job \<le> now \<and> now + sec s \<le> DATETIME_MAX) \<or>
         j_schedule_type job = ScheduleType_CRON \<and> e \<noteq> [] \<and>
           (\<exists>F. croniter_ok lib e (j_timezone job) F) \<and>
           (\<forall>t x. next_run_time lib ScheduleType_CRON (Some e) (j_timezone job) t \<noteq> Inl x)))"

lemma ticker_due_twice:
  assumes t: "ticker nx fires D" and b: "b \<in> D" and fD: "fires \<subseteq> D"
    and no: "\<And>u x. u = b \<or> b \<le> u \<and> u \<le> now \<Longrightarrow> nx u \<noteq> Inl x"
  shows "\<exists>x. due_from nx b now = Some (Inr x) \<and>
     (\<forall>u. x = Some u \<longrightarrow> b < u \<and> u \<le> now \<and> due_from nx u now = Some (Inr None))"
  using ticker.due_from_result[OF t b, of now]
proof (elim disjE exE conjE)
  fix u assume d: "due_from nx b now = Some (Inr (Some u))" and u: "u \<in> fires" "b < u" "u \<le> now"
    and m: "\<forall>v \<in> fires. v \<le> now \<longrightarrow> v \<le> u"
  have "u \<in> D" using u fD by auto
  from ticker.due_from_result[OF t this, of now] have "due_from nx u now = Some (Inr None)"
  proof (elim disjE exE conjE)
    fix v assume "v \<in> fires" "u < v" "v \<le> now"
    then show ?thesis using m by fastforce
  qed (use no u in \<open>auto\<close>)
  then show ?thesis using d u by auto
qed (use no in blast)+

lemma job_due_twice:
  assumes "job_clock_ok lib now job"
  shows "\<exists>x. job_due lib now job = Some (Inr x) \<and>
     (\<forall>u upd. x = Some u \<longrightarrow> job_due lib now (job\<lparr>j_last_scheduled_for := Some u, j_updated_at := upd\<rparr>) = Some (Inr None))"
proof -
  obtain e where e: "j_schedule_expr job = Some e" using assms by (auto simp: job_clock_ok_def)
  let ?b = "schedule_base job"
  let ?nx = "next_run_time lib (j_schedule_type job) (Some e) (j_timezone job)"
  obtain fires D where t: "ticker ?nx fires D" and b: "?b \<in> D" and fD: "fires \<subseteq> D"
    and no: "\<And>u x. u = ?b \<or> ?b \<le> u \<and> u \<le> now \<Longrightarrow> ?nx u \<noteq> Inl x"
  proof (cases "j_schedule_type job = ScheduleType_INTERVAL")
    case True
    then obtain s where s: "isdigit e" "py_int e = Some s" "0 < s" and r: "- DATETIME_MAX \<le> ?b" "?b \<le> now"
        "now + sec s \<le> DATETIME_MAX"
      using assms e by (auto simp: job_clock_ok_def)
    show thesis
    proof (rule that)
      show "ticker ?nx {?b + k * sec s | k. 1 \<le> k} {?b + k * sec s | k. 0 \<le> k}"
        unfolding True by (rule interval_ticker[OF s])
      show "?b \<in> {?b + k * sec s | k. 0 \<le> k}" by (intro CollectI exI[of _ 0]) simp
      show "?nx u \<noteq> Inl x" if "u = ?b \<or> ?b \<le> u \<and> u \<le> now" for u x
        using that r interval_next_ok[OF s, of u lib "j_timezone job"] unfolding True by auto
    qed force
  next
    case False
    then obtain F where "croniter_ok lib e (j_timezone job) F" "e \<noteq> []" and c: "j_schedule_type job = ScheduleType_CRON"
      and n: "\<forall>t x. next_run_time lib ScheduleType_CRON (Some e) (j_timezone job) t \<noteq> Inl x"
      using assms e by (auto simp: job_clock_ok_def)
    then show thesis using cron_ticker[of lib e "j_timezone job" F] by (intro that[of F UNIV]) (auto simp: c)
  qed
  obtain x where "due_from ?nx ?b now = Some (Inr x)"
    and "\<forall>u. x = Some u \<longrightarrow> due_from ?nx u now = Some (Inr None)"
    using ticker_due_twice[OF t b fD, of now] no by blast
  then show ?thesis by (auto simp: job_due_def due_tick_def e schedule_base_def)
qed


section \<open>Passes that create nothing\<close>

lemma schedule_loop_quiet:
  "(\<forall>job \<in> set js. job_due lib (sk_now ck) job = Some (Inr None)) \<Longrightarrow> schedule_loop lib ck js acc d = Some (Inr acc, d)"
  by (induction js) (simp_all add: schedule_job_not_due)

lemma schedule_loop_total:
  "(\<forall>job \<in> set js. \<exists>x. job_due lib (sk_now ck) job = Some (Inr x)) \<Longrightarrow>
   \<exists>ids d'. schedule_loop lib ck js acc d = Some (Inr ids, d')"
proof (induction js arbitrary: acc d)
  case (Cons job js)
  obtain x where x: "job_due lib (sk_now ck) job = Some (Inr x)" using Cons.prems by auto
  have "\<exists>y d1. schedule_job lib ck job d = Some (Inr y, d1)"
  proof (cases x)
    case None
    then show ?thesis using x by (simp add: schedule_job_not_due)
  next
    case (Some u)
    then show ?thesis using x insert_run_Inl
      by (cases "insert_run (sk_create ck (runs_seq d)) (j_id job) SCHEDULED QUEUED 1 (Some u) d")
        (fastforce simp: schedule_job_def split: sum.splits)
  qed
  then obtain y d1 where "schedule_job lib ck job d = Some (Inr y, d1)" by blast
  then show ?case using Cons by (cases y) auto
qed simp

lemma schedule_loop_no_error:
  "schedule_loop lib ck js acc d = Some (Inr ids, d') \<Longrightarrow> job \<in> set js \<Longrightarrow> job_due lib (sk_now ck) job \<noteq> Some (Inl e)"
proof (induction lib ck js acc d rule: schedule_loop.induct)
  case (2 lib ck job' js acc d)
  obtain x d1 where s: "schedule_job lib ck job' d = Some (Inr x, d1)"
    using 2(3) by (auto split: option.splits sum.splits)
  show ?case
  proof (cases "job = job'")
    case True
    then show ?thesis using s by (auto simp: schedule_job_def)
  next
    case False
    then show ?thesis using 2 s by (cases x) auto
  qed
qed simp

text \<open>A second pass at the same instant finds nothing due any more.\<close>

lemma second_pass_quiet:
  assumes w: "wf_db d" and ok: "\<forall>job \<in> set (schedulable d). job_clock_ok lib (sk_now ck) job"
    and s: "schedule_due_jobs lib ck d = Some (Inr ids, d1)" and j: "job \<in> set (schedulable d1)"
  shows "job_due lib (sk_now ck) job = Some (Inr None)"
proof -
  have "run_ok d d1" using run_ok_schedule_loop[OF w s[unfolded schedule_due_jobs_def]] .
  then have w1: "wf_db d1" by (simp add: run_ok_def)
  let ?k = "j_id job"
  have "get_job_row d1 ?k = Some job"
    using j get_job_row_iff[OF w1] by (auto simp: schedulable_def)
  moreover have "get_job_row d1 ?k = (case get_by j_id ?k (schedulable d) of None \<Rightarrow> get_job_row d ?k
      | Some job \<Rightarrow> map_option (bump lib ck job) (get_job_row d ?k))"
    by (rule schedule_loop_job_row[OF s[unfolded schedule_due_jobs_def] schedulable_sub schedulable_distinct[OF w]])
  ultimately have row: "(case get_by j_id ?k (schedulable d) of None \<Rightarrow> get_job_row d ?k
      | Some job \<Rightarrow> map_option (bump lib ck job) (get_job_row d ?k)) = Some job" by simp
  have in_d: "job \<in> set (schedulable d)" if "get_job_row d ?k = Some job"
    using j get_job_row_SomeD[OF that] by (simp add: schedulable_def)
  then obtain job0 where 0: "get_by j_id ?k (schedulable d) = Some job0"
    using row schedulable_row[OF w, of ?k job] by (cases "get_by j_id ?k (schedulable d)") auto
  then have "get_job_row d ?k = Some job0" "job0 \<in> set (schedulable d)" using schedulable_row[OF w] by auto
  then have b: "job = bump lib ck job0 job0" and c: "job_clock_ok lib (sk_now ck) job0" using row 0 ok by auto
  from job_due_twice[OF c] obtain x where x: "job_due lib (sk_now ck) job0 = Some (Inr x)"
    and again: "\<forall>u upd. x = Some u \<longrightarrow>
      job_due lib (sk_now ck) (job0\<lparr>j_last_scheduled_for := Some u, j_updated_at := upd\<rparr>) = Some (Inr None)" by blast
  show ?thesis using b x again by (cases x) (auto simp: bump_def)
qed

section \<open>The tick on Redis\<close>

context redis_server
begin

lemma tick_ok:
  assumes ri: "rinv (w_redis w)" and t: "tick api cfg lib ck w = Some (Inr (), w')"
  shows "\<exists>due scheduled es. schedule_due_jobs lib ck (w_db w) = Some (Inr scheduled, w_db w') \<and>
     distinct due \<and>
     set due = {m. \<exists>s. zset (w_redis w) (delayed_set_key cfg) m = Some s \<and> s \<le> sk_now ck} \<and>
     zset (w_redis w') = (zset (w_redis w))(delayed_set_key cfg := zset (w_redis w) (delayed_set_key cfg) |` (- set due)) \<and>
     stream (w_redis w') = (stream (w_redis w))(stream_key cfg := stream (w_redis w) (stream_key cfg) @ es) \<and>
     map snd es = map (\<lambda>m. [(''run_id'', m)])
       (due @ map int_str scheduled @ map int_str (requeue_orphans cfg (sk_now ck) (w_db w')))"
proof -
  let ?enq = "\<lambda>i. andthen (enqueue_run api cfg i) (\<lambda>_. ret ())"
  obtain n r1 scheduled d' r2 r3 y r4 where
    p: "promote_due_delayed api cfg (sk_now ck) (w_redis w) = (Inr n, r1)" and
    s: "schedule_due_jobs lib ck (w_db w) = Some (Inr scheduled, d')" and
    e1: "for_each scheduled ?enq r1 = (Inr (), r2)" and
    e2: "for_each (requeue_orphans cfg (sk_now ck) d') ?enq r2 = (Inr (), r3)" and
    q: "pending_count api cfg r3 = (Inr y, r4)" and w': "w' = w\<lparr>w_db := d', w_redis := r4\<rparr>"
    using t by (auto simp: tick_def Let_def eff_simps split: prod.splits sum.splits option.splits)
  obtain due es0 where P: "distinct due"
      "set due = {mem. \<exists>s. zset (w_redis w) (delayed_set_key cfg) mem = Some s \<and> s \<le> sk_now ck}" "rinv r1"
      "zset r1 = (zset (w_redis w))(delayed_set_key cfg := zset (w_redis w) (delayed_set_key cfg) |` (- set due))"
      "stream r1 = (stream (w_redis w))(stream_key cfg := stream (w_redis w) (stream_key cfg) @ es0)"
      "map snd es0 = map (\<lambda>member. [(''run_id'', member)]) due"
    using promote_due_ok[OF ri p] by blast
  obtain es1 where E1: "rinv r2" "zset r2 = zset r1"
      "stream r2 = (stream r1)(stream_key cfg := stream r1 (stream_key cfg) @ es1)"
      "map snd es1 = map (\<lambda>i. [(''run_id'', int_str i)]) scheduled"
    using enqueue_all_ok[OF P(3) e1] by blast
  obtain es2 where E2: "rinv r3" "zset r3 = zset r2"
      "stream r3 = (stream r2)(stream_key cfg := stream r2 (stream_key cfg) @ es2)"
      "map snd es2 = map (\<lambda>i. [(''run_id'', int_str i)]) (requeue_orphans cfg (sk_now ck) d')"
    using enqueue_all_ok[OF E1(1) e2] by blast
  have "stream r4 = stream r3 \<and> zset r4 = zset r3"
    using gauge_obs[of "XPENDING api (stream_key cfg) (consumer_group cfg)" r3] xpending[OF E2(1)] q
    by (auto simp: pending_count_def)
  then show ?thesis
    using s w' P E1 E2 by (intro exI[of _ due] exI[of _ scheduled] exI[of _ "es0 @ es1 @ es2"]) simp
qed

end

text \<open>Redis commands leave the database alone.\<close>

definition same_db :: "'r world \<Rightarrow> 'r world \<Rightarrow> bool" where
  "same_db w w' \<longleftrightarrow> w_db w' = w_db w"

interpretation redis_eff: eff_preorder same_db
  by unfold_locales (auto simp: same_db_def)

lemma keeps_same_db_redis: "keeps same_db (on_redis m)"
  by (rule keepsI) (simp add: same_db_def on_redis_def split: prod.splits)

lemma tick_db:
  assumes t: "tick api cfg lib ck w = Some (x, w')"
  shows "w_db w' = w_db w \<or> (\<exists>ids. schedule_due_jobs lib ck (w_db w) = Some (Inr ids, w_db w'))"
proof -
  have "keeps same_db (andthen (on_redis a) (\<lambda>_. andthen (on_redis b) (\<lambda>_. andthen (on_redis c) (\<lambda>_. ret ()))))"
    for a b :: "('r, unit) eff" and c :: "('r, int) eff"
    by (intro redis_eff.keeps_andthen keeps_same_db_redis redis_eff.keeps_ret)
  note D = keepsD[OF this, unfolded same_db_def]
  show ?thesis
    using t by (auto simp: tick_def Let_def dest!: D split: sum.splits option.splits prod.splits)
qed

lemma tick_returns:
  assumes "schedule_due_jobs lib ck (w_db w) = Some y"
  shows "\<exists>x. tick api cfg lib ck w = Some x"
proof -
  obtain p r1 where p: "promote_due_delayed api cfg (sk_now ck) (w_redis w) = (p, r1)" by (metis prod.exhaust)
  obtain z d' where "y = (z, d')" by (cases y)
  with assms p show ?thesis by (cases p; cases z) (simp_all add: tick_def Let_def)
qed

lemma run_ok_tick:
  assumes "wf_db (w_db w)" and "tick api cfg lib ck w = Some (x, w')"
  shows "run_ok (w_db w) (w_db w')"
  using tick_db[OF assms(2)] run_ok_refl[OF assms(1)] run_ok_schedule_loop[OF assms(1)]
  by (auto simp: schedule_due_jobs_def)


section \<open>Sample schedule\<close>

definition sched_db :: db where
  "sched_db = sample_db\<lparr>jobs := [mk_job 1 1 ''extract'' ''interval'' (Some ''60'') 2,
                               mk_job 2 1 ''load'' ''cron'' (Some ''* * * * *'') 0]\<rparr>"

definition sched_ck :: sched_clock where
  "sched_ck = \<lparr>sk_now = sec 1000, sk_create = (\<lambda>_. sec 1000), sk_update = (\<lambda>_. sec 1000)\<rparr>"

definition sched_world :: "mem_redis world" where
  "sched_world = \<lparr>w_db = sched_db, w_redis = mem_empty\<rparr>"

lemma sched_wf: "wf_db sched_db"
  by (simp add: sched_db_def sample_defs wf_all_defs)

lemma sched_schedulable: "schedulable sched_db = jobs sched_db"
  by (simp add: sched_db_def schedulable_def mk_job_def ScheduleType_CRON_def ScheduleType_INTERVAL_def)

lemma sched_pass: "\<exists>d1. schedule_due_jobs sample_lib sched_ck sched_db = Some (Inr [3, 4], d1)"
proof -
  have "map_option fst (schedule_due_jobs sample_lib sched_ck sched_db) = Some (Inr [3, 4])" by code_simp
  then show ?thesis by auto
qed

section \<open>Properties\<close>

text \<open>
  Claim C9: one pass of the scheduler creates exactly the due runs. The returned
  identifiers are those of the appended rows; each row is a queued first attempt
  for the due tick of an enabled cron or interval job, no job gets two rows, and
  every due tick is recorded afterwards. Existing runs stay, constraints hold.
\<close>

theorem schedule_due_jobs_exact:
  assumes w: "wf_db d" and s: "schedule_due_jobs lib ck d = Some (Inr ids, d')"
  shows "wf_db d' \<and> (\<exists>rs. runs d' = runs d @ rs \<and> ids = map r_id rs \<and>
     (\<forall>r \<in> set rs. \<exists>job \<in> set (schedulable d). tick_run lib (sk_now ck) job r) \<and> distinct (map r_job_id rs) \<and>
     (\<forall>job \<in> set (schedulable d). \<forall>u. job_due lib (sk_now ck) job = Some (Inr (Some u)) \<longrightarrow>
        (\<exists>r \<in> set (runs d'). r_job_id r = j_id job \<and> r_scheduled_for r = Some u)))"
proof -
  have "wf_db d'"
    using run_ok_schedule_loop[OF w s[unfolded schedule_due_jobs_def]] by (simp add: run_ok_def)
  then show ?thesis
    using schedule_loop_rows[OF s[unfolded schedule_due_jobs_def] schedulable_sub schedulable_distinct[OF w]]
    by (auto simp: in_run_ticks simp del: run_ticks_append)
qed

theorem schedule_due_jobs_exact_witness:
  "\<exists>d' rs. schedule_due_jobs sample_lib sched_ck sched_db = Some (Inr [3, 4], d') \<and>
     runs d' = runs sched_db @ rs \<and> map r_id rs = [3, 4] \<and> distinct (map r_job_id rs)"
proof -
  obtain d1 where s: "schedule_due_jobs sample_lib sched_ck sched_db = Some (Inr [3, 4], d1)"
    using sched_pass by blast
  from schedule_due_jobs_exact[OF sched_wf s] s show ?thesis by auto
qed

text \<open>
  Scheduling is total and idempotent for schedules in range. The pass
  returns, and a second pass at the same instant creates no run and changes
  nothing.
\<close>

lemma schedule_idempotent:
  assumes w: "wf_db d" and ok: "\<forall>job \<in> set (schedulable d). job_clock_ok lib (sk_now ck) job"
    and now: "sk_now ck' = sk_now ck"
  shows "\<exists>ids d1. schedule_due_jobs lib ck d = Some (Inr ids, d1) \<and>
     schedule_due_jobs lib ck' d1 = Some (Inr [], d1)"
proof -
  have "\<forall>job \<in> set (schedulable d). \<exists>x. job_due lib (sk_now ck) job = Some (Inr x)"
    using ok job_due_twice by blast
  then obtain ids d1 where s: "schedule_due_jobs lib ck d = Some (Inr ids, d1)"
    unfolding schedule_due_jobs_def using schedule_loop_total by blast
  have "schedule_due_jobs lib ck' d1 = Some (Inr [], d1)"
    unfolding schedule_due_jobs_def
    by (rule schedule_loop_quiet) (use second_pass_quiet[OF w ok s] now in simp)
  with s show ?thesis by blast
qed

text \<open>
  Two leaders cannot schedule the same tick twice. Even when a second
  scheduler works from the same stale snapshot of the job table as the first, its
  pass at the same instant enqueues nothing and leaves the run table as it is.
\<close>

lemma schedule_two_leaders:
  assumes w: "wf_db d" and a: "schedule_loop lib ck (schedulable d) [] d = Some (Inr ids, d1)"
    and b: "schedule_loop lib ck' (schedulable d) [] d1 = Some (Inr ids', d2)" and now: "sk_now ck' = sk_now ck"
  shows "ids' = [] \<and> runs d2 = runs d1 \<and> wf_db d2"
proof -
  note sub = schedulable_sub[of d] and dis = schedulable_distinct[OF w]
  obtain rs where "runs d1 = runs d @ rs" and ticks: "\<forall>job \<in> set (schedulable d). \<forall>u.
      job_due lib (sk_now ck) job = Some (Inr (Some u)) \<longrightarrow> (j_id job, Some u) \<in> set (run_ticks (runs d @ rs))"
    using schedule_loop_rows[OF a sub dis] by auto
  then have ticks1: "\<forall>job \<in> set (schedulable d). \<forall>u.
      job_due lib (sk_now ck') job = Some (Inr (Some u)) \<longrightarrow> (j_id job, Some u) \<in> set (run_ticks (runs d1))"
    using now by simp
  have w1: "wf_db d1" using run_ok_schedule_loop[OF w a] by (simp add: run_ok_def)
  have "j_id ` set (schedulable d) \<subseteq> j_id ` set (jobs d1)"
  proof
    fix k assume "k \<in> j_id ` set (schedulable d)"
    then obtain job where "get_by j_id k (schedulable d) = Some job" "get_job_row d k = Some job"
      using schedulable_row[OF w] get_job_row_iff[OF w] by (fastforce simp: schedulable_def)
    then have "get_job_row d1 k = Some (bump lib ck job job)"
      using schedule_loop_job_row[OF a sub dis, of k] by simp
    then show "k \<in> j_id ` set (jobs d1)" using get_job_row_SomeD by force
  qed
  from schedule_loop_rows[OF b this dis] ticks1 have "ids' = []" "runs d2 = runs d1" by auto
  moreover have "wf_db d2" using run_ok_schedule_loop[OF w1 b] by (simp add: run_ok_def)
  ultimately show ?thesis by blast
qed

text \<open>
  Claim C22: what a completed tick puts on the dispatch stream, in order: the due
  members of the delayed set (removed from it, nothing else is), then the runs
  just created for due schedules, then the runs that sat in queued beyond the
  threshold. The database is the one the scheduling pass committed.
\<close>

theorem tick_dispatch:
  assumes "redis_server api rinv stream zset" and "rinv (w_redis w)"
    and "tick api cfg lib ck w = Some (Inr (), w')"
  shows "\<exists>due scheduled es. schedule_due_jobs lib ck (w_db w) = Some (Inr scheduled, w_db w') \<and>
     distinct due \<and>
     set due = {m. \<exists>s. zset (w_redis w) (delayed_set_key cfg) m = Some s \<and> s \<le> sk_now ck} \<and>
     zset (w_redis w') = (zset (w_redis w))(delayed_set_key cfg := zset (w_redis w) (delayed_set_key cfg) |` (- set due)) \<and>
     stream (w_redis w') = (stream (w_redis w))(stream_key cfg := stream (w_redis w) (stream_key cfg) @ es) \<and>
     map snd es = map (\<lambda>m. [(''run_id'', m)])
       (due @ map int_str scheduled @ map int_str (requeue_orphans cfg (sk_now ck) (w_db w')))"
  by (rule redis_server.tick_ok[OF assms])

theorem tick_dispatch_witness:
  "\<exists>w' due scheduled es. tick mem_api default_settings sample_lib sched_ck sched_world = Some (Inr (), w') \<and>
     schedule_due_jobs sample_lib sched_ck sched_db = Some (Inr scheduled, w_db w') \<and> scheduled = [3, 4] \<and>
     map snd (es :: message list) = map (\<lambda>m. [(''run_id'', m)])
       (due @ map int_str scheduled @ map int_str (requeue_orphans default_settings (sec 1000) (w_db w')))"
proof -
  have "map_option fst (tick mem_api default_settings sample_lib sched_ck sched_world) = Some (Inr ())" by code_simp
  then obtain w' where t: "tick mem_api default_settings sample_lib sched_ck sched_world = Some (Inr (), w')" by auto
  have i: "mem_inv (w_redis sched_world)" by (simp add: sched_world_def mem_empty_inv)
  have n: "sk_now sched_ck = sec 1000" "w_db sched_world = sched_db" by (simp_all add: sched_ck_def sched_world_def)
  from tick_dispatch[OF mem.redis_server_axioms i t] obtain due scheduled es where
    s: "schedule_due_jobs sample_lib sched_ck sched_db = Some (Inr scheduled, w_db w')"
    and m: "map snd (es :: message list) = map (\<lambda>m. [(''run_id'', m)])
       (due @ map int_str scheduled @ map int_str (requeue_orphans default_settings (sec 1000) (w_db w')))"
    unfolding n by blast
  have "scheduled = [3, 4]" using s sched_pass by auto
  with t s m show ?thesis by blast
qed

text \<open>
  Claim C39: one bad schedule blocks all of them. If the due tick of some enabled
  job raises, the tick as a whole raises, its transaction is rolled back and no
  schedule of any job creates a run.
\<close>

theorem tick_poisoned:
  assumes "job \<in> set (schedulable (w_db w))" and "job_due lib (sk_now ck) job = Some (Inl e)"
    and "tick api cfg lib ck w = Some (x, w')"
  shows "(\<exists>e'. x = Inl e') \<and> w_db w' = w_db w"
proof -
  have no: "schedule_due_jobs lib ck (w_db w) \<noteq> Some (Inr ids, d')" for ids d'
    using schedule_loop_no_error[of lib ck "schedulable (w_db w)" "[]" "w_db w" ids d' job e] assms(1,2)
    by (auto simp: schedule_due_jobs_def)
  then show ?thesis
    using assms(3) by (auto simp: tick_def Let_def split: sum.splits prod.splits option.splits)
qed

theorem tick_poisoned_witness:
  "\<exists>e' w'. tick mem_api default_settings sample_lib sched_ck
      (sched_world\<lparr>w_db := sched_db\<lparr>jobs := mk_job 9 1 ''x'' ''interval'' (Some ''999999999999'') 0 # jobs sched_db\<rparr>\<rparr>)
        = Some (Inl e', w')"
proof -
  let ?job = "mk_job 9 1 ''x'' ''interval'' (Some ''999999999999'') 0"
  let ?w = "sched_world\<lparr>w_db := sched_db\<lparr>jobs := ?job # jobs sched_db\<rparr>\<rparr>"
  have d: "job_due sample_lib (sk_now sched_ck) ?job = Some (Inl OverflowError)"
    by (simp add: job_due_def due_tick_def due_from_def next_run_time_def add_seconds_def mk_job_def schedule_base_def
        ScheduleType_CRON_def ScheduleType_INTERVAL_def isdigit_def py_int_def py_strip_def is_dig_def is_space_def
        dig_val_def sec_def DATETIME_MAX_def TIMEDELTA_MAX_DAYS_def)
  have s: "\<exists>js. schedulable (w_db ?w) = ?job # js"
    by (simp add: schedulable_def mk_job_def ScheduleType_CRON_def ScheduleType_INTERVAL_def)
  then have "\<exists>x. schedule_due_jobs sample_lib sched_ck (w_db ?w) = Some x"
    using d by (auto simp: schedule_due_jobs_def schedule_job_def)
  then obtain x w' where t: "tick mem_api default_settings sample_lib sched_ck ?w = Some (x, w')"
    using tick_returns by (metis prod.exhaust)
  have j: "?job \<in> set (schedulable (w_db ?w))" using s by auto
  from tick_poisoned[OF j d t] t show ?thesis by auto
qed

lemma run_ok_turn:
  assumes "wf_db (w_db (ss_world s))" and "scheduler_turn pg api cfg lib ck s = Some s'"
  shows "run_ok (w_db (ss_world s)) (w_db (ss_world s'))"
  using assms run_ok_tick[OF assms(1), of api cfg lib ck] run_ok_refl[OF assms(1)]
  by (auto simp: scheduler_turn_def split: prod.splits bool.splits option.splits)

text \<open>
  The scheduler process as a whole. Over any number of turns, with
  ticks that fail at any point and leadership that comes and goes, the run table
  keeps the shared contract (constraints, canceled and terminal runs stay, ids
  are never reused); a turn without leadership changes neither database nor
  Redis; and after the loop the process no longer claims leadership.
\<close>

lemma scheduler_loop_safe:
  assumes "wf_db (w_db (ss_world s))" and "scheduler_loop pg api cfg lib cks s = Some s'"
  shows "run_ok (w_db (ss_world s)) (w_db (ss_world s')) \<and> \<not> ld_is_leader (ss_leader s') \<and>
    (\<forall>ck l p. acquire pg (ss_leader s) (ss_pg s) = (False, l, p) \<longrightarrow>
       scheduler_turn pg api cfg lib ck s = Some (s\<lparr>ss_leader := l, ss_pg := p\<rparr>))"
proof (intro conjI)
  show "run_ok (w_db (ss_world s)) (w_db (ss_world s'))"
    using assms
  proof (induction cks arbitrary: s)
    case Nil
    then show ?case by (auto simp: run_ok_refl split: prod.splits)
  next
    case (Cons ck cks)
    then obtain s1 where t: "scheduler_turn pg api cfg lib ck s = Some s1"
      and r: "scheduler_loop pg api cfg lib cks s1 = Some s'" by (auto split: option.splits)
    note ok = run_ok_turn[OF Cons.prems(1) t]
    then have "wf_db (w_db (ss_world s1))" by (simp add: run_ok_def)
    from run_ok_trans[OF Cons.prems(1) ok Cons.IH[OF this r]] show ?case .
  qed
  show "\<not> ld_is_leader (ss_leader s')"
    using assms(2)
    by (induction cks arbitrary: s)
      (auto simp: release_def leader_reset_def split: prod.splits option.splits if_splits)
qed (simp add: scheduler_turn_def)

end
