(* ===== verification/Schemas.thy ===== *)
theory Schemas
  imports Models
begin

text \<open>
  \<^verbatim>\<open>backend/common/schemas.py\<close>: the validation of job payloads. A payload is a
  record of decoded fields; \<^verbatim>\<open>croniter.is_valid\<close> is an argument. A validation
  error is a \<^verbatim>\<open>ValueError\<close>, as pydantic's \<^verbatim>\<open>ValidationError\<close> is one; its text is
  not modelled. In a partial update every field is absent, null or a value.
\<close>

section \<open>JobBase\<close>

record job_base =
  b_name :: string
  b_description :: "string option"
  b_category :: "string option"
  b_task_type :: string
  b_task_spec :: json_dict
  b_schedule_type :: string
  b_schedule_expr :: "string option"
  b_timezone :: string
  b_enabled :: bool
  b_max_retries :: int
  b_retry_backoff_sec :: int
  b_timeout_sec :: int
  b_depends_on :: "int list"

text \<open>The \<^verbatim>\<open>Field(...)\<close> bounds.\<close>

definition job_fields_ok :: "job_base \<Rightarrow> bool" where
  "job_fields_ok b \<longleftrightarrow>
     1 \<le> length (b_name b) \<and> length (b_name b) \<le> 255 \<and>
     (case b_category b of None \<Rightarrow> True | Some c \<Rightarrow> length c \<le> 64) \<and>
     0 \<le> b_max_retries b \<and> b_max_retries b \<le> 100 \<and>
     0 \<le> b_retry_backoff_sec b \<and> b_retry_backoff_sec b \<le> 86400 \<and>
     1 \<le> b_timeout_sec b \<and> b_timeout_sec b \<le> 86400"

definition validate_task_type :: "string \<Rightarrow> exn + string" where
  "validate_task_type v = (if v \<notin> set TaskType_ALL then Inl ValueError else Inr v)"

definition validate_schedule_type :: "string \<Rightarrow> exn + string" where
  "validate_schedule_type v = (if v \<notin> set ScheduleType_ALL then Inl ValueError else Inr v)"

text \<open>\<^verbatim>\<open>spec.get(key)\<close> as a truth value.\<close>

definition spec_has :: "json_dict \<Rightarrow> string \<Rightarrow> bool" where
  "spec_has spec k = (case map_of spec k of None \<Rightarrow> False | Some v \<Rightarrow> truthy v)"

definition validate_task_spec :: "job_base \<Rightarrow> exn + unit" where
  "validate_task_spec b =
     (let spec = b_task_spec b in
      if b_task_type b \<in> {TaskType_HTTP, TaskType_HTTP_ASYNC} then
        if \<not> spec_has spec ''url'' then Inl ValueError else Inr ()
      else if b_task_type b = TaskType_SHELL then
        if \<not> spec_has spec ''command'' then Inl ValueError else Inr ()
      else Inr ())"

definition positive_digits :: "string \<Rightarrow> bool" where
  "positive_digits e = (isdigit e \<and> (case py_int e of None \<Rightarrow> False | Some n \<Rightarrow> \<not> n \<le> 0))"

definition validate_schedule_expr :: "(string \<Rightarrow> bool) \<Rightarrow> job_base \<Rightarrow> exn + job_base" where
  "validate_schedule_expr cron_valid b =
     (let expr_ok =
        (if b_schedule_type b = ScheduleType_CRON then
           (case b_schedule_expr b of None \<Rightarrow> False | Some e \<Rightarrow> e \<noteq> [] \<and> cron_valid e)
         else if b_schedule_type b = ScheduleType_INTERVAL then
           (case b_schedule_expr b of None \<Rightarrow> False | Some e \<Rightarrow> e \<noteq> [] \<and> positive_digits e)
         else True)
      in if \<not> expr_ok then Inl ValueError
         else case validate_task_spec b of Inl e \<Rightarrow> Inl e | Inr _ \<Rightarrow> Inr b)"

text \<open>Field checks and field validators first, then the model validator.\<close>

definition JobBase_validate :: "(string \<Rightarrow> bool) \<Rightarrow> job_base \<Rightarrow> exn + job_base" where
  "JobBase_validate cron_valid b =
     (if \<not> job_fields_ok b then Inl ValueError
      else case validate_task_type (b_task_type b) of
             Inl e \<Rightarrow> Inl e
           | Inr _ \<Rightarrow>
               (case validate_schedule_type (b_schedule_type b) of
                  Inl e \<Rightarrow> Inl e
                | Inr _ \<Rightarrow> validate_schedule_expr cron_valid b))"

section \<open>JobUpdate\<close>

text \<open>\<^term>\<open>None\<close>: not in the request; \<^term>\<open>Some None\<close>: null; \<^term>\<open>Some (Some v)\<close>: a value.\<close>

record job_update =
  up_description :: "string option option"
  up_category :: "string option option"
  up_task_type :: "string option option"
  up_task_spec :: "json_dict option option"
  up_schedule_type :: "string option option"
  up_schedule_expr :: "string option option"
  up_timezone :: "string option option"
  up_enabled :: "bool option option"
  up_max_retries :: "int option option"
  up_retry_backoff_sec :: "int option option"
  up_timeout_sec :: "int option option"
  up_depends_on :: "int list option option"

definition empty_update :: job_update where
  "empty_update = \<lparr>up_description = None, up_category = None, up_task_type = None, up_task_spec = None,
     up_schedule_type = None, up_schedule_expr = None, up_timezone = None, up_enabled = None,
     up_max_retries = None, up_retry_backoff_sec = None, up_timeout_sec = None, up_depends_on = None\<rparr>"

section \<open>What validation guarantees\<close>

lemma JobBase_validate_Inr: "JobBase_validate cv b = Inr b' \<Longrightarrow> b' = b"
  by (auto simp: JobBase_validate_def validate_schedule_expr_def Let_def split: if_splits sum.splits)

lemma JobBase_validate_Inl: "JobBase_validate cv b = Inl e \<Longrightarrow> e = ValueError"
  by (auto simp: JobBase_validate_def validate_schedule_expr_def validate_task_type_def validate_task_spec_def
      validate_schedule_type_def Let_def split: if_splits sum.splits)

lemma positive_digits_value:
  assumes "positive_digits e"
  shows "py_int e = Some (int (dec_val 0 e)) \<and> 0 < dec_val 0 e"
  using assms py_int_isdigit[of e] by (auto simp: positive_digits_def)

end
