(* ===== verification/Crud.thy ===== *)
theory Crud
  imports Schemas Store
begin

text \<open>
  \<^verbatim>\<open>backend/api/crud.py\<close> and the handlers of \<^verbatim>\<open>backend/api/routers/jobs.py\<close> that
  call it. A handler is one transaction: an exception leaves the database as it
  was. Clock readings (\<^verbatim>\<open>created_at\<close>, \<^verbatim>\<open>updated_at\<close>) are arguments. Two JSON
  objects count as equal when they are stored alike.
\<close>

section \<open>Dependencies of a job\<close>

definition int_list_str :: "int list \<Rightarrow> string" where
  "int_list_str xs = ''['' @ concat (case xs of [] \<Rightarrow> [] | y # ys \<Rightarrow> int_str y # map (\<lambda>z. '', '' @ int_str z) ys) @ '']''"

definition crud_dependency_ids :: "db \<Rightarrow> int \<Rightarrow> int list" where
  "crud_dependency_ids d job_id = map d_depends_on_job_id (filter (\<lambda>x. d_job_id x = job_id) (deps d))"

definition validate_dependencies :: "int option \<Rightarrow> int option \<Rightarrow> int list \<Rightarrow> db \<Rightarrow> exn + unit" where
  "validate_dependencies job_id owner_user_id depends_on d =
     (if job_id \<noteq> None \<and> the job_id \<in> set depends_on then Inl (CrudError ''a job cannot depend on itself'')
      else if depends_on = [] then Inr ()
      else let found = map j_id (filter (\<lambda>j. j_id j \<in> set depends_on \<and>
                         owner_user_id \<noteq> None \<and> j_owner_user_id j = owner_user_id) (jobs d));
               missing = filter (\<lambda>i. i \<notin> set found) (fromkeys depends_on)
           in if missing \<noteq> []
              then Inl (CrudError (''unknown dependency job ids: '' @ int_list_str (sort missing)))
              else Inr ())"

fun dep_rows :: "int \<Rightarrow> int \<Rightarrow> int list \<Rightarrow> job_dependency list" where
  "dep_rows sq job_id [] = []"
| "dep_rows sq job_id (i # is) =
     \<lparr>d_id = sq, d_job_id = job_id, d_depends_on_job_id = i\<rparr> # dep_rows (sq + 1) job_id is"

definition set_dependencies :: "int \<Rightarrow> int list \<Rightarrow> db \<Rightarrow> db" where
  "set_dependencies job_id depends_on d =
     (let ds = fromkeys depends_on
      in d\<lparr>deps := filter (\<lambda>x. d_job_id x \<noteq> job_id) (deps d) @ dep_rows (deps_seq d) job_id ds,
           deps_seq := deps_seq d + int (length ds)\<rparr>)"

section \<open>Operations\<close>

record job_out =
  o_job :: job
  o_depends_on :: "int list"

definition job_to_dict :: "db \<Rightarrow> job \<Rightarrow> job_out" where
  "job_to_dict d j = \<lparr>o_job = j, o_depends_on = crud_dependency_ids d (j_id j)\<rparr>"

definition crud_create_job :: "time \<Rightarrow> time \<Rightarrow> job_base \<Rightarrow> int \<Rightarrow> (db, job) eff" where
  "crud_create_job created updated payload owner_user_id d =
     (case scalar_one_or_none (filter (\<lambda>j. j_owner_user_id j = Some owner_user_id \<and> j_name j = b_name payload) (jobs d)) of
        Inl e \<Rightarrow> (Inl e, d)
      | Inr (Some _) \<Rightarrow> (Inl (CrudError (''job name '' @ [CHR 0x27] @ b_name payload @ [CHR 0x27] @ '' already exists'')), d)
      | Inr None \<Rightarrow>
          (case validate_dependencies None (Some owner_user_id) (b_depends_on payload) d of
             Inl e \<Rightarrow> (Inl e, d)
           | Inr _ \<Rightarrow>
               if owner_user_id \<notin> u_id ` set (users d) then (Inl IntegrityError, d)
               else let j = \<lparr>j_id = jobs_seq d, j_owner_user_id = Some owner_user_id, j_name = b_name payload,
                             j_description = b_description payload, j_category = b_category payload,
                             j_task_type = b_task_type payload, j_task_spec = b_task_spec payload,
                             j_schedule_type = b_schedule_type payload, j_schedule_expr = b_schedule_expr payload,
                             j_timezone = b_timezone payload, j_enabled = b_enabled payload,
                             j_max_retries = b_max_retries payload, j_retry_backoff_sec = b_retry_backoff_sec payload,
                             j_timeout_sec = b_timeout_sec payload, j_last_scheduled_for = None,
                             j_created_at = created, j_updated_at = updated\<rparr>
                    in (Inr j, set_dependencies (j_id j) (b_depends_on payload)
                                 (d\<lparr>jobs := jobs d @ [j], jobs_seq := jobs_seq d + 1\<rparr>))))"

definition crud_get_job :: "int \<Rightarrow> int \<Rightarrow> db \<Rightarrow> exn + job option" where
  "crud_get_job job_id owner_user_id d =
     scalar_one_or_none (filter (\<lambda>j. j_id j = job_id \<and> j_owner_user_id j = Some owner_user_id) (jobs d))"

definition page :: "int \<Rightarrow> int \<Rightarrow> 'a list \<Rightarrow> 'a list" where
  "page limit offset xs = take (nat limit) (drop (nat offset) xs)"

definition crud_list_jobs :: "int \<Rightarrow> bool option \<Rightarrow> int \<Rightarrow> int \<Rightarrow> db \<Rightarrow> job list" where
  "crud_list_jobs owner_user_id enabled limit offset d =
     page limit offset (sort_key j_id (filter (\<lambda>j. j_owner_user_id j = Some owner_user_id \<and>
       (case enabled of None \<Rightarrow> True | Some b \<Rightarrow> j_enabled j = b)) (jobs d)))"

text \<open>
  \<^verbatim>\<open>merged\<close>: the stored value unless the request names the field. A null for a
  column that is not nullable fails the validation of \<^verbatim>\<open>JobBase\<close>.
\<close>

definition pick :: "'a \<Rightarrow> 'a option option \<Rightarrow> 'a option" where
  "pick old new = (case new of None \<Rightarrow> Some old | Some v \<Rightarrow> v)"

definition pick_null :: "'a option \<Rightarrow> 'a option option \<Rightarrow> 'a option" where
  "pick_null old new = (case new of None \<Rightarrow> old | Some v \<Rightarrow> v)"

definition merged :: "job \<Rightarrow> job_update \<Rightarrow> int list \<Rightarrow> job_base option" where
  "merged j u depends_on =
     (case (pick (j_task_type j) (up_task_type u), pick (j_task_spec j) (up_task_spec u),
            pick (j_schedule_type j) (up_schedule_type u), pick (j_timezone j) (up_timezone u),
            pick (j_enabled j) (up_enabled u), pick (j_max_retries j) (up_max_retries u),
            pick (j_retry_backoff_sec j) (up_retry_backoff_sec u), pick (j_timeout_sec j) (up_timeout_sec u)) of
        (Some tt, Some ts, Some st, Some tz, Some en, Some mr, Some rb, Some tm) \<Rightarrow>
          Some \<lparr>b_name = j_name j, b_description = pick_null (j_description j) (up_description u),
                b_category = pick_null (j_category j) (up_category u), b_task_type = tt, b_task_spec = ts,
                b_schedule_type = st, b_schedule_expr = pick_null (j_schedule_expr j) (up_schedule_expr u),
                b_timezone = tz, b_enabled = en, b_max_retries = mr, b_retry_backoff_sec = rb,
                b_timeout_sec = tm, b_depends_on = depends_on\<rparr>
      | _ \<Rightarrow> None)"

text \<open>The row with the values of a validated payload; \<^verbatim>\<open>updated_at\<close> moves when a column changes.\<close>

definition with_values :: "job_base \<Rightarrow> job \<Rightarrow> job" where
  "with_values b j =
     j\<lparr>j_description := b_description b, j_category := b_category b, j_task_type := b_task_type b,
       j_task_spec := b_task_spec b, j_schedule_type := b_schedule_type b, j_schedule_expr := b_schedule_expr b,
       j_timezone := b_timezone b, j_enabled := b_enabled b, j_max_retries := b_max_retries b,
       j_retry_backoff_sec := b_retry_backoff_sec b, j_timeout_sec := b_timeout_sec b\<rparr>"

definition touch :: "time \<Rightarrow> job_base \<Rightarrow> job \<Rightarrow> job" where
  "touch now b j = (let j' = with_values b j in if j' = j then j else j'\<lparr>j_updated_at := now\<rparr>)"

definition crud_update_job ::
  "(string \<Rightarrow> bool) \<Rightarrow> (job_base option \<Rightarrow> string) \<Rightarrow> time \<Rightarrow> job \<Rightarrow> job_update \<Rightarrow> (db, job) eff" where
  "crud_update_job cron_valid error_text now job payload d =
     (let depends_on = (case up_depends_on payload of None \<Rightarrow> None | Some v \<Rightarrow> v) in
      case (case depends_on of None \<Rightarrow> Inr ()
            | Some ds \<Rightarrow> validate_dependencies (Some (j_id job)) (j_owner_user_id job) ds d) of
        Inl e \<Rightarrow> (Inl e, d)
      | Inr _ \<Rightarrow>
          let mb = merged job payload (case depends_on of None \<Rightarrow> [] | Some ds \<Rightarrow> ds) in
          (case (case mb of None \<Rightarrow> Inl ValueError | Some b \<Rightarrow> JobBase_validate cron_valid b) of
             Inl _ \<Rightarrow> (Inl (CrudError (error_text mb)), d)
           | Inr b \<Rightarrow>
               let d1 = update_jobs (\<lambda>j. j_id j = j_id job) (touch now b) d;
                   d2 = (case depends_on of None \<Rightarrow> d1 | Some ds \<Rightarrow> set_dependencies (j_id job) ds d1)
               in (Inr (touch now b job), d2)))"

text \<open>
  \<^verbatim>\<open>session.delete(job)\<close>: the ORM cascades to runs, logs and own dependencies,
  the foreign key \<^verbatim>\<open>ON DELETE CASCADE\<close> removes dependencies of other jobs on it.
\<close>

definition crud_delete_job :: "int \<Rightarrow> db \<Rightarrow> db" where
  "crud_delete_job job_id d =
     (let gone = map r_id (filter (\<lambda>r. r_job_id r = job_id) (runs d))
      in d\<lparr>jobs := filter (\<lambda>j. j_id j \<noteq> job_id) (jobs d),
           deps := filter (\<lambda>x. d_job_id x \<noteq> job_id \<and> d_depends_on_job_id x \<noteq> job_id) (deps d),
           runs := filter (\<lambda>r. r_job_id r \<noteq> job_id) (runs d),
           logs := filter (\<lambda>l. l_run_id l \<notin> set gone) (logs d)\<rparr>)"

section \<open>Handlers (routers/jobs.py)\<close>

text \<open>\<^verbatim>\<open>except crud.CrudError as exc: raise HTTPException(code, detail=str(exc))\<close>.\<close>

definition crud_error_to :: "int \<Rightarrow> exn \<Rightarrow> exn" where
  "crud_error_to code e = (case e of CrudError msg \<Rightarrow> HTTPException code msg | _ \<Rightarrow> e)"

definition api_create_job :: "time \<Rightarrow> time \<Rightarrow> job_base \<Rightarrow> int \<Rightarrow> (db, job_out) eff" where
  "api_create_job created updated payload user_id d =
     (case crud_create_job created updated payload user_id d of
        (Inl e, d') \<Rightarrow> (Inl (crud_error_to 409 e), d')
      | (Inr job, d') \<Rightarrow> (Inr (job_to_dict d' job), d'))"

definition api_list_jobs :: "bool option \<Rightarrow> int \<Rightarrow> int \<Rightarrow> int \<Rightarrow> db \<Rightarrow> job_out list" where
  "api_list_jobs enabled limit offset user_id d = map (job_to_dict d) (crud_list_jobs user_id enabled limit offset d)"

definition job_not_found :: exn where
  "job_not_found = HTTPException 404 ''job not found''"

definition owned_job :: "int \<Rightarrow> int \<Rightarrow> db \<Rightarrow> exn + job" where
  "owned_job job_id user_id d =
     (case crud_get_job job_id user_id d of
        Inl e \<Rightarrow> Inl e
      | Inr None \<Rightarrow> Inl job_not_found
      | Inr (Some job) \<Rightarrow> Inr job)"

definition api_get_job :: "int \<Rightarrow> int \<Rightarrow> db \<Rightarrow> exn + job_out" where
  "api_get_job job_id user_id d =
     (case owned_job job_id user_id d of Inl e \<Rightarrow> Inl e | Inr job \<Rightarrow> Inr (job_to_dict d job))"

definition api_update_job ::
  "(string \<Rightarrow> bool) \<Rightarrow> (job_base option \<Rightarrow> string) \<Rightarrow> time \<Rightarrow> int \<Rightarrow> job_update \<Rightarrow> int \<Rightarrow> (db, job_out) eff" where
  "api_update_job cron_valid error_text now job_id payload user_id d =
     (case owned_job job_id user_id d of
        Inl e \<Rightarrow> (Inl e, d)
      | Inr job \<Rightarrow>
          (case crud_update_job cron_valid error_text now job payload d of
             (Inl e, d') \<Rightarrow> (Inl (crud_error_to 400 e), d')
           | (Inr job', d') \<Rightarrow> (Inr (job_to_dict d' job'), d')))"

definition api_delete_job :: "int \<Rightarrow> int \<Rightarrow> (db, unit) eff" where
  "api_delete_job job_id user_id d =
     (case owned_job job_id user_id d of
        Inl e \<Rightarrow> (Inl e, d)
      | Inr job \<Rightarrow> (Inr (), crud_delete_job (j_id job) d))"


section \<open>The constraints are kept\<close>

lemma dep_rows_ids: "map d_id (dep_rows sq i is) = map (\<lambda>n. sq + int n) [0..<length is]"
proof (induction "is" arbitrary: sq)
  case (Cons x "is")
  have "map (\<lambda>n. sq + int n) [0..<Suc (length is)] = sq # map (\<lambda>n. sq + 1 + int n) [0..<length is]"
    by (simp add: upt_conv_Cons map_Suc_upt[symmetric] o_def del: upt_Suc)
  then show ?case using Cons by simp
qed simp

lemma dep_rows_pairs:
  "map (\<lambda>x. (d_job_id x, d_depends_on_job_id x)) (dep_rows sq i is) = map (\<lambda>k. (i, k)) is"
  by (induction "is" arbitrary: sq) auto

lemma dep_rows_in: "x \<in> set (dep_rows sq i is) \<Longrightarrow> d_job_id x = i \<and> d_depends_on_job_id x \<in> set is"
  by (induction "is" arbitrary: sq) auto

lemma keyed_filter: "keyed key sq xs \<Longrightarrow> keyed key sq (filter P xs)"
  by (auto simp: keyed_def list_all_iff distinct_map inj_on_def)

lemma keyed_append_fresh:
  assumes k: "keyed key sq xs" and ys: "map key ys = map (\<lambda>n. sq + int n) [0..<m]"
  shows "keyed key (sq + int m) (xs @ ys)"
proof -
  have set: "key ` set ys = (\<lambda>n. sq + int n) ` {0..<m}" by (metis ys list.set_map set_upt)
  have "distinct (map key ys)" unfolding ys by (simp add: distinct_map inj_on_def)
  moreover have "key ` set xs \<inter> key ` set ys = {}" unfolding set using k by (fastforce simp: keyed_def list_all_iff)
  moreover have "key y < sq + int m" if "y \<in> set ys" for y
  proof -
    have "key y \<in> (\<lambda>n. sq + int n) ` {0..<m}" unfolding set[symmetric] using that by (rule imageI)
    then show ?thesis by auto
  qed
  ultimately show ?thesis using k by (fastforce simp: keyed_def list_all_iff)
qed

lemma wf_set_dependencies [wf_rules]:
  assumes w: "wf_db d" and i: "i \<in> j_id ` set (jobs d)" and ds: "set ds \<subseteq> j_id ` set (jobs d)"
  shows "wf_db (set_dependencies i ds d)"
proof -
  let ?old = "filter (\<lambda>x. d_job_id x \<noteq> i) (deps d)" and ?new = "dep_rows (deps_seq d) i (fromkeys ds)"
  have wd: "wf_deps (jobs d) (deps d) (deps_seq d)" using w by (simp add: wf_db_def)
  have "keyed d_id (deps_seq d + int (length (fromkeys ds))) (?old @ ?new)"
    using wd by (intro keyed_append_fresh keyed_filter) (simp_all add: wf_deps_def dep_rows_ids)
  moreover have "distinct (map (\<lambda>x. (d_job_id x, d_depends_on_job_id x)) (?old @ ?new))"
  proof -
    have "distinct (map (\<lambda>x. (d_job_id x, d_depends_on_job_id x)) ?old)"
      using wd by (auto simp: wf_deps_def distinct_map inj_on_def)
    moreover have "distinct (map (\<lambda>x. (d_job_id x, d_depends_on_job_id x)) ?new)"
      unfolding dep_rows_pairs by (simp add: distinct_map inj_on_def)
    ultimately show ?thesis by (auto dest: dep_rows_in)
  qed
  moreover have "\<forall>x \<in> set (?old @ ?new). d_job_id x \<in> j_id ` set (jobs d) \<and> d_depends_on_job_id x \<in> j_id ` set (jobs d)"
    using wd i ds by (auto simp: wf_deps_def dest!: dep_rows_in)
  ultimately have "wf_deps (jobs d) (?old @ ?new) (deps_seq d + int (length (fromkeys ds)))"
    by (simp only: wf_deps_def)
  then show ?thesis using w by (simp add: wf_db_def set_dependencies_def Let_def)
qed

lemma validate_dependencies_ok:
  assumes "validate_dependencies jid owner ds d = Inr u"
  shows "\<forall>i \<in> set ds. \<exists>j \<in> set (jobs d). j_id j = i \<and> j_owner_user_id j = owner" and "jid \<noteq> None \<Longrightarrow> the jid \<notin> set ds"
proof -
  show "jid \<noteq> None \<Longrightarrow> the jid \<notin> set ds"
    using assms by (auto simp: validate_dependencies_def split: if_splits)
  show "\<forall>i \<in> set ds. \<exists>j \<in> set (jobs d). j_id j = i \<and> j_owner_user_id j = owner"
    using assms by (auto simp: validate_dependencies_def Let_def filter_empty_conv split: if_splits)
qed

lemma scalar_none: "scalar_one_or_none xs = Inr None \<longleftrightarrow> xs = []"
  by (cases xs rule: scalar_one_or_none.cases) auto

lemma scalar_some: "scalar_one_or_none xs = Inr (Some x) \<longleftrightarrow> xs = [x]"
  by (cases xs rule: scalar_one_or_none.cases) auto

lemma set_dependencies_frame [simp]:
  "users (set_dependencies i ds d) = users d" "jobs (set_dependencies i ds d) = jobs d"
  "runs (set_dependencies i ds d) = runs d" "logs (set_dependencies i ds d) = logs d"
  "jobs_seq (set_dependencies i ds d) = jobs_seq d" "runs_seq (set_dependencies i ds d) = runs_seq d"
  by (simp_all add: set_dependencies_def Let_def)

lemma get_run_row_set_deps [simp]: "get_run_row (set_dependencies i ds d) k = get_run_row d k"
  by (simp add: get_run_row_def)

lemma wf_add_job:
  assumes w: "wf_db d" and j: "j_id j = jobs_seq d" "j_owner_user_id j = Some uid" "uid \<in> u_id ` set (users d)"
    and n: "\<And>x. x \<in> set (jobs d) \<Longrightarrow> \<not> (j_owner_user_id x = Some uid \<and> j_name x = j_name j)"
  shows "wf_db (d\<lparr>jobs := jobs d @ [j], jobs_seq := jobs_seq d + 1\<rparr>)"
proof -
  have "wf_jobs (users d) (jobs d @ [j]) (jobs_seq d + 1)"
    using w j n by (fastforce simp: wf_db_def wf_jobs_def intro: keyed_append)
  then show ?thesis using w by (auto simp: wf_db_def wf_deps_def wf_runs_def)
qed


lemma run_ok_same_runs:
  assumes "wf_db d'" and "runs d' = runs d" and "runs_seq d' = runs_seq d"
  shows "run_ok d d'"
  using assms by (simp add: run_ok_def get_run_row_def)

lemma crud_create_job_ok:
  assumes w: "wf_db d" and c: "crud_create_job created updated b uid d = (Inr j, d')"
  shows "wf_db d'" and "j_id j = jobs_seq d" and "j_owner_user_id j = Some uid" and "jobs d' = jobs d @ [j]"
    and "d' = set_dependencies (j_id j) (b_depends_on b) (d\<lparr>jobs := jobs d @ [j], jobs_seq := jobs_seq d + 1\<rparr>)"
    and "\<not> (\<exists>x \<in> set (jobs d). j_owner_user_id x = Some uid \<and> j_name x = b_name b)"
    and "\<forall>i \<in> set (b_depends_on b). \<exists>x \<in> set (jobs d). j_id x = i \<and> j_owner_user_id x = Some uid"
proof -
  have no: "filter (\<lambda>j. j_owner_user_id j = Some uid \<and> j_name j = b_name b) (jobs d) = []"
    and v: "validate_dependencies None (Some uid) (b_depends_on b) d = Inr ()"
    and u: "uid \<in> u_id ` set (users d)"
    and j: "j_id j = jobs_seq d" "j_owner_user_id j = Some uid" "j_name j = b_name b"
    and d': "d' = set_dependencies (j_id j) (b_depends_on b) (d\<lparr>jobs := jobs d @ [j], jobs_seq := jobs_seq d + 1\<rparr>)"
    using c by (auto simp: crud_create_job_def Let_def scalar_none split: sum.splits option.splits if_splits)
  then show "\<not> (\<exists>x \<in> set (jobs d). j_owner_user_id x = Some uid \<and> j_name x = b_name b)"
    by (auto simp: filter_empty_conv)
  show own: "\<forall>i \<in> set (b_depends_on b). \<exists>x \<in> set (jobs d). j_id x = i \<and> j_owner_user_id x = Some uid"
    by (rule validate_dependencies_ok(1)[OF v])
  show "j_id j = jobs_seq d" "j_owner_user_id j = Some uid" by fact+
  show "d' = set_dependencies (j_id j) (b_depends_on b) (d\<lparr>jobs := jobs d @ [j], jobs_seq := jobs_seq d + 1\<rparr>)" by fact
  then show "jobs d' = jobs d @ [j]" by simp
  have "wf_db (d\<lparr>jobs := jobs d @ [j], jobs_seq := jobs_seq d + 1\<rparr>)"
    by (rule wf_add_job[OF w j(1,2) u]) (use no j in \<open>auto simp: filter_empty_conv\<close>)
  then show "wf_db d'" unfolding d' by (rule wf_set_dependencies) (use own in \<open>auto simp: image_iff\<close>)
qed

lemma crud_create_job_err: "crud_create_job created updated b uid d = (Inl e, d') \<Longrightarrow> d' = d"
  by (auto simp: crud_create_job_def Let_def split: sum.splits option.splits if_splits)

lemma run_ok_create_job: "wf_db d \<Longrightarrow> run_ok d (snd (api_create_job created updated b uid d))"
proof (cases "crud_create_job created updated b uid d")
  case (Pair x d')
  assume w: "wf_db d"
  show ?thesis
  proof (cases x)
    case (Inl e)
    then have "d' = d" using Pair by (auto dest: crud_create_job_err)
    then show ?thesis using Pair Inl run_ok_refl[OF w] by (simp add: api_create_job_def)
  next
    case (Inr j)
    note C = crud_create_job_ok[OF w Pair[unfolded Inr]]
    have "run_ok d d'" using C(1) by (rule run_ok_same_runs) (simp_all add: C(5))
    then show ?thesis using Pair Inr by (simp add: api_create_job_def)
  qed
qed

interpretation create_job_op: run_op "\<lambda>d. snd (api_create_job created updated b uid d)" for created updated b uid
  by unfold_locales (rule run_ok_create_job)

lemma touch_keys: "keeps_job_keys (touch now b)"
  by (simp add: keeps_job_keys_def touch_def with_values_def Let_def)

lemma owned_job_iff:
  assumes w: "wf_db d"
  shows "owned_job i uid d = Inr j \<longleftrightarrow> get_job_row d i = Some j \<and> j_owner_user_id j = Some uid"
    and "(\<forall>j. get_job_row d i = Some j \<longrightarrow> j_owner_user_id j \<noteq> Some uid) \<longleftrightarrow> owned_job i uid d = Inl job_not_found"
proof -
  let ?f = "filter (\<lambda>j. j_id j = i \<and> j_owner_user_id j = Some uid) (jobs d)"
  have one: "?f = [] \<or> (\<exists>j. ?f = [j])"
  proof (cases ?f rule: scalar_one_or_none.cases)
    case (3 x y zs)
    then have "x \<in> set ?f" "y \<in> set ?f" by simp_all
    then have xy: "x \<in> set (jobs d)" "y \<in> set (jobs d)" "j_id x = i" "j_id y = i" by auto
    have "distinct ?f" using wf_db_jobs_distinct[OF w] by (simp add: distinct_map)
    then have "x \<noteq> y" using 3 by simp
    moreover have "x = y" using wf_db_jobs_distinct[OF w] xy by (auto simp: distinct_map inj_on_def)
    ultimately show ?thesis by blast
  qed auto
  have nil: "?f = [] \<longleftrightarrow> (\<forall>j. get_job_row d i = Some j \<longrightarrow> j_owner_user_id j \<noteq> Some uid)"
    using get_job_row_iff[OF w] by (auto simp: filter_empty_conv)
  have "get_job_row d i = Some j \<and> j_owner_user_id j = Some uid" if "?f = [j]" for j
  proof -
    have "j \<in> set ?f" using that by simp
    then show ?thesis using get_job_row_iff[OF w] by auto
  qed
  note single = this
  show "owned_job i uid d = Inr j \<longleftrightarrow> get_job_row d i = Some j \<and> j_owner_user_id j = Some uid"
    using one
  proof (elim disjE exE)
    assume "?f = []"
    then show ?thesis unfolding owned_job_def crud_get_job_def using nil by auto
  next
    fix x assume x: "?f = [x]"
    then show ?thesis unfolding owned_job_def crud_get_job_def x using single[OF x] by auto
  qed
  show "(\<forall>j. get_job_row d i = Some j \<longrightarrow> j_owner_user_id j \<noteq> Some uid) \<longleftrightarrow> owned_job i uid d = Inl job_not_found"
    unfolding nil[symmetric] using one by (auto simp: owned_job_def crud_get_job_def)
qed

lemma update_jobs_row:
  assumes w: "wf_db d" and j: "get_job_row d (j_id j) = Some j" and g: "g j = f j"
  shows "update_jobs (\<lambda>x. j_id x = j_id j) g d = update_jobs (\<lambda>x. x = j) f d"
proof -
  have "x = j" if "x \<in> set (jobs d)" "j_id x = j_id j" for x
    using that j get_job_row_iff[OF w] by (metis option.inject)
  then have "update_where (\<lambda>x. j_id x = j_id j) g (jobs d) = update_where (\<lambda>x. x = j) f (jobs d)"
    using g by (auto simp: update_where_def)
  then show ?thesis by (simp add: update_jobs_def)
qed

lemma crud_update_job_ok:
  assumes w: "wf_db d" and j: "get_job_row d (j_id j) = Some j"
    and c: "crud_update_job cv et now j u d = (Inr j', d')"
  obtains b ds where "ds = (case up_depends_on u of None \<Rightarrow> None | Some v \<Rightarrow> v)"
    and "merged j u (case ds of None \<Rightarrow> [] | Some xs \<Rightarrow> xs) = Some b" and "JobBase_validate cv b = Inr b"
    and "j' = touch now b j"
    and "d' = (case ds of None \<Rightarrow> update_jobs (\<lambda>x. x = j) (touch now b) d
              | Some xs \<Rightarrow> set_dependencies (j_id j) xs (update_jobs (\<lambda>x. x = j) (touch now b) d))"
    and "wf_db d'" and "\<And>xs. ds = Some xs \<Longrightarrow> j_id j \<notin> set xs \<and> (\<forall>i \<in> set xs. \<exists>x \<in> set (jobs d). j_id x = i \<and> j_owner_user_id x = j_owner_user_id j)"
proof -
  let ?ds = "case up_depends_on u of None \<Rightarrow> None | Some v \<Rightarrow> v"
  have v: "(case ?ds of None \<Rightarrow> Inr () | Some ds \<Rightarrow> validate_dependencies (Some (j_id j)) (j_owner_user_id j) ds d) = Inr ()"
    using c by (auto simp: crud_update_job_def Let_def split: sum.splits)
  then obtain b where b: "merged j u (case ?ds of None \<Rightarrow> [] | Some xs \<Rightarrow> xs) = Some b" "JobBase_validate cv b = Inr b"
    and j': "j' = touch now b j"
    and d': "d' = (case ?ds of None \<Rightarrow> update_jobs (\<lambda>x. j_id x = j_id j) (touch now b) d
       | Some xs \<Rightarrow> set_dependencies (j_id j) xs (update_jobs (\<lambda>x. j_id x = j_id j) (touch now b) d))"
    using c JobBase_validate_Inr[of cv] by (fastforce simp: crud_update_job_def Let_def split: sum.splits option.splits)
  have eq: "update_jobs (\<lambda>x. j_id x = j_id j) (touch now b) d = update_jobs (\<lambda>x. x = j) (touch now b) d"
    by (rule update_jobs_row[OF w j]) (rule refl)
  have own: "j_id j \<notin> set xs \<and> (\<forall>i \<in> set xs. \<exists>x \<in> set (jobs d). j_id x = i \<and> j_owner_user_id x = j_owner_user_id j)"
    if "?ds = Some xs" for xs
    using validate_dependencies_ok[of "Some (j_id j)" "j_owner_user_id j" xs d "()"] v that by simp
  have w1: "wf_db (update_jobs p (touch now b) d)" for p by (rule wf_update_jobs[OF touch_keys w])
  have ids: "j_id ` set (jobs (update_jobs p (touch now b) d)) = j_id ` set (jobs d)" for p
    by (simp add: update_jobs_def job_ids_update(2)[OF touch_keys])
  have "wf_db d'"
  proof (cases ?ds)
    case None
    then show ?thesis using w1 d' by simp
  next
    case (Some xs)
    have "set xs \<subseteq> j_id ` set (jobs d)" using own[OF Some] by (auto simp: image_iff)
    moreover have "j_id j \<in> j_id ` set (jobs d)" using get_job_row_SomeD[OF j] by blast
    ultimately show ?thesis
      using wf_set_dependencies[OF w1] d' Some by (simp add: ids)
  qed
  show thesis
  proof (rule that[OF refl b j'])
    show "d' = (case ?ds of None \<Rightarrow> update_jobs (\<lambda>x. x = j) (touch now b) d
       | Some xs \<Rightarrow> set_dependencies (j_id j) xs (update_jobs (\<lambda>x. x = j) (touch now b) d))"
      using d' unfolding eq .
  qed (fact own \<open>wf_db d'\<close>)+
qed

lemma run_ok_update_job: "wf_db d \<Longrightarrow> run_ok d (snd (api_update_job cv et now i u uid d))"
proof (cases "owned_job i uid d")
  case (Inl e)
  assume "wf_db d" then show ?thesis using Inl by (simp add: api_update_job_def run_ok_refl)
next
  case (Inr j)
  assume w: "wf_db d"
  have j: "get_job_row d (j_id j) = Some j" using Inr owned_job_iff(1)[OF w] get_job_row_SomeD by blast
  obtain x d' where c: "crud_update_job cv et now j u d = (x, d')" by (metis prod.exhaust)
  show ?thesis
  proof (cases x)
    case (Inl e)
    have "d' = d" using c Inl by (auto simp: crud_update_job_def Let_def split: sum.splits option.splits)
    then show ?thesis using Inr c Inl w by (simp add: api_update_job_def run_ok_refl)
  next
    case (Inr j')
    obtain ds b where "wf_db d'" and d': "d' = (case ds of None \<Rightarrow> update_jobs (\<lambda>x. x = j) (touch now b) d
              | Some xs \<Rightarrow> set_dependencies (j_id j) xs (update_jobs (\<lambda>x. x = j) (touch now b) d))"
      by (rule crud_update_job_ok[OF w j c[unfolded Inr]]) blast
    then have "run_ok d d'" by (intro run_ok_same_runs) (auto split: option.splits)
    then show ?thesis using \<open>owned_job i uid d = Inr j\<close> c Inr by (simp add: api_update_job_def)
  qed
qed

interpretation update_job_op: run_op "\<lambda>d. snd (api_update_job cv et now i u uid d)" for cv et now i u uid
  by unfold_locales (rule run_ok_update_job)


lemma get_by_filter_distinct:
  "distinct (map key xs) \<Longrightarrow> get_by key k (filter P xs) = (case get_by key k xs of None \<Rightarrow> None | Some x \<Rightarrow> if P x then Some x else None)"
  by (induction xs) (auto simp: get_by_None_iff dest!: get_by_SomeD split: option.splits)

lemma delete_run_row:
  assumes "wf_db d"
  shows "get_run_row (crud_delete_job i d) k =
     (case get_run_row d k of None \<Rightarrow> None | Some r \<Rightarrow> if r_job_id r = i then None else Some r)"
  using get_by_filter_distinct[OF wf_db_runs_distinct[OF assms], of k "\<lambda>r. r_job_id r \<noteq> i"]
  by (auto simp: get_run_row_def crud_delete_job_def Let_def split: option.splits)

lemma distinct_map_filter: "distinct (map f xs) \<Longrightarrow> distinct (map f (filter P xs))"
  by (auto simp: distinct_map inj_on_def)

lemma wf_delete_job [wf_rules]:
  assumes w: "wf_db d"
  shows "wf_db (crud_delete_job i d)"
proof -
  let ?jobs = "filter (\<lambda>j. j_id j \<noteq> i) (jobs d)"
  let ?deps = "filter (\<lambda>x. d_job_id x \<noteq> i \<and> d_depends_on_job_id x \<noteq> i) (deps d)"
  let ?runs = "filter (\<lambda>r. r_job_id r \<noteq> i) (runs d)"
  let ?logs = "filter (\<lambda>l. l_run_id l \<notin> set (map r_id (filter (\<lambda>r. r_job_id r = i) (runs d)))) (logs d)"
  have J: "wf_jobs (users d) (jobs d) (jobs_seq d)" and D: "wf_deps (jobs d) (deps d) (deps_seq d)"
    and R: "wf_runs (jobs d) (runs d) (runs_seq d)" and L: "wf_logs (runs d) (logs d) (logs_seq d)"
    using w by (auto simp: wf_db_def)
  have "distinct (map (\<lambda>j. (j_owner_user_id j, j_name j)) (filter (\<lambda>j. j_owner_user_id j \<noteq> None) ?jobs))"
  proof -
    have "filter (\<lambda>j. j_owner_user_id j \<noteq> None) ?jobs = filter (\<lambda>j. j_id j \<noteq> i) (filter (\<lambda>j. j_owner_user_id j \<noteq> None) (jobs d))"
      by (simp add: conj_commute)
    then show ?thesis using J by (simp only: wf_jobs_def distinct_map_filter)
  qed
  then have "wf_jobs (users d) ?jobs (jobs_seq d)" using J by (auto simp: wf_jobs_def keyed_filter)
  moreover have "wf_deps ?jobs ?deps (deps_seq d)"
    using D by (auto simp: wf_deps_def keyed_filter distinct_map_filter image_iff)
  moreover have "wf_runs ?jobs ?runs (runs_seq d)"
  proof -
    have "run_ticks ?runs = filter (\<lambda>e. fst e \<noteq> i) (run_ticks (runs d))"
      by (induction "runs d") (auto simp: run_ticks_def filter_map o_def conj_commute)
    then show ?thesis using R by (auto simp: wf_runs_def keyed_filter image_iff)
  qed
  moreover have "wf_logs ?runs ?logs (logs_seq d)"
    using L by (auto simp: wf_logs_def keyed_filter image_iff)
  ultimately show ?thesis using w by (simp add: wf_db_def crud_delete_job_def Let_def)
qed

lemma run_ok_delete_job: "wf_db d \<Longrightarrow> run_ok d (snd (api_delete_job i uid d))"
proof -
  assume w: "wf_db d"
  have "runs_seq (crud_delete_job k d) = runs_seq d" for k by (simp add: crud_delete_job_def Let_def)
  then have "run_ok d (crud_delete_job k d)" for k
    using w by (auto simp: run_ok_def wf_delete_job delete_run_row split: option.splits if_splits)
  then show ?thesis using run_ok_refl[OF w] by (auto simp: api_delete_job_def split: sum.splits)
qed

interpretation delete_job_op: run_op "\<lambda>d. snd (api_delete_job i uid d)" for i uid
  by unfold_locales (rule run_ok_delete_job)


section \<open>Properties\<close>

lemma created_deps:
  assumes w: "wf_db d" and c: "crud_create_job created updated b uid d = (Inr j, d')"
  shows "crud_dependency_ids d' (j_id j) = fromkeys (b_depends_on b)"
proof -
  note C = crud_create_job_ok[OF w c]
  have "d_job_id x \<noteq> jobs_seq d" if "x \<in> set (deps d)" for x
  proof -
    have "d_job_id x \<in> j_id ` set (jobs d)" "jobs_seq d \<notin> j_id ` set (jobs d)"
      using w that by (simp_all add: wf_db_def wf_deps_def wf_jobs_def keyed_fresh)
    then show ?thesis by metis
  qed
  then have old: "filter (\<lambda>x. d_job_id x = jobs_seq d) (filter (\<lambda>x. d_job_id x \<noteq> jobs_seq d) (deps d)) = []"
    by (simp add: filter_empty_conv)
  have new: "map d_depends_on_job_id (filter (\<lambda>x. d_job_id x = i) (dep_rows sq i is)) = is" for sq i "is"
    by (induction "is" arbitrary: sq) auto
  show ?thesis
    unfolding C(5) C(2) crud_dependency_ids_def set_dependencies_def Let_def using old new by simp
qed

text \<open>
  Claim C34: creating a job and reading it back. A created job has a name no other
  job of its owner has, depends only on jobs of the same owner, and its owner
  reads back exactly what was returned, with the de-duplicated dependencies; the
  constraints hold. An attempt that raises changes nothing.
\<close>

theorem create_job_roundtrip:
  assumes w: "wf_db d"
  shows "(\<forall>out d'. api_create_job created updated b uid d = (Inr out, d') \<longrightarrow>
      wf_db d' \<and> api_get_job (j_id (o_job out)) uid d' = Inr out \<and>
      o_depends_on out = fromkeys (b_depends_on b) \<and> j_name (o_job out) = b_name b \<and>
      \<not> (\<exists>x \<in> set (jobs d). j_owner_user_id x = Some uid \<and> j_name x = b_name b) \<and>
      (\<forall>i \<in> set (b_depends_on b). \<exists>x \<in> set (jobs d). j_id x = i \<and> j_owner_user_id x = Some uid) \<and>
      runs d' = runs d) \<and>
    (\<forall>e d'. api_create_job created updated b uid d = (Inl e, d') \<longrightarrow> d' = d)"
proof (intro conjI allI impI)
  fix out d' assume a: "api_create_job created updated b uid d = (Inr out, d')"
  then obtain j where c: "crud_create_job created updated b uid d = (Inr j, d')" and out: "out = job_to_dict d' j"
    by (auto simp: api_create_job_def split: prod.splits sum.splits)
  note C = crud_create_job_ok[OF w c]
  have "get_job_row d' (j_id j) = Some j"
    using get_job_row_iff[OF C(1)] C(4) by simp
  then have "owned_job (j_id j) uid d' = Inr j" using owned_job_iff(1)[OF C(1)] C(3) by simp
  then show "api_get_job (j_id (o_job out)) uid d' = Inr out" by (simp add: api_get_job_def out job_to_dict_def)
  show "j_name (o_job out) = b_name b"
    using c by (auto simp: out job_to_dict_def crud_create_job_def Let_def split: sum.splits option.splits if_splits)
  show "o_depends_on out = fromkeys (b_depends_on b)" using created_deps[OF w c] by (simp add: out job_to_dict_def)
  show "runs d' = runs d" by (simp add: C(5))
qed (use w crud_create_job_ok crud_create_job_err in \<open>auto simp: api_create_job_def split: prod.splits sum.splits\<close>)

definition sample_payload :: job_base where
  "sample_payload = \<lparr>b_name = ''report'', b_description = None, b_category = None, b_task_type = ''shell'',
     b_task_spec = [(''command'', JStr ''true'')], b_schedule_type = ''manual'', b_schedule_expr = None,
     b_timezone = ''UTC'', b_enabled = True, b_max_retries = 0, b_retry_backoff_sec = 30, b_timeout_sec = 300,
     b_depends_on = [1, 2, 1]\<rparr>"

theorem create_job_roundtrip_witness:
  "\<exists>out d'. api_create_job 5 5 sample_payload 1 sample_db = (Inr out, d') \<and> o_depends_on out = [1, 2] \<and>
     api_get_job (j_id (o_job out)) 1 d' = Inr out"
proof -
  let ?r = "api_create_job 5 5 sample_payload 1 sample_db"
  have "\<exists>out. fst ?r = Inr out"
    by (simp add: api_create_job_def crud_create_job_def validate_dependencies_def Let_def sample_defs sample_payload_def)
  then obtain out where r: "?r = (Inr out, snd ?r)" by (metis prod.collapse)
  have "fromkeys (b_depends_on sample_payload) = [1, 2]" by (simp add: sample_payload_def)
  with conjunct1[OF create_job_roundtrip[OF sample_wf, of 5 5 sample_payload 1], rule_format, OF r] r
  show ?thesis by (intro exI[of _ out] exI[of _ "snd ?r"]) simp
qed

text \<open>
  Ownership. A job of another user, or one that does not exist, cannot
  be read, changed or deleted: each of the three handlers answers 404 and leaves
  the database as it is.
\<close>

lemma jobs_isolated:
  assumes w: "wf_db d" and no: "\<forall>j. get_job_row d i = Some j \<longrightarrow> j_owner_user_id j \<noteq> Some uid"
  shows "api_get_job i uid d = Inl job_not_found \<and>
    api_update_job cv et now i u uid d = (Inl job_not_found, d) \<and>
    api_delete_job i uid d = (Inl job_not_found, d)"
  using owned_job_iff(2)[OF w] no by (simp add: api_get_job_def api_update_job_def api_delete_job_def)

lemma dep_ids_set:
  "crud_dependency_ids (set_dependencies i ds d) k = (if k = i then fromkeys ds else crud_dependency_ids d k)"
proof -
  have own: "map d_depends_on_job_id (filter (\<lambda>x. d_job_id x = i) (dep_rows sq i is)) = is" for sq "is"
    by (induction "is" arbitrary: sq) auto
  have other: "k \<noteq> i \<Longrightarrow> filter (\<lambda>x. d_job_id x = k) (dep_rows sq i is) = []" for sq "is"
    by (induction "is" arbitrary: sq) auto
  have old: "filter (\<lambda>x. d_job_id x \<noteq> i \<and> d_job_id x = i) xs = []" for xs :: "job_dependency list"
    by (induction xs) auto
  have keep: "k \<noteq> i \<Longrightarrow> filter (\<lambda>x. d_job_id x \<noteq> i \<and> d_job_id x = k) xs = filter (\<lambda>x. d_job_id x = k) xs"
    for xs :: "job_dependency list"
    by (induction xs) auto
  show ?thesis
    using own other keep old by (auto simp: crud_dependency_ids_def set_dependencies_def Let_def)
qed

lemma dep_ids_update_jobs [simp]: "crud_dependency_ids (update_jobs p f d) k = crud_dependency_ids d k"
  by (simp add: crud_dependency_ids_def)

text \<open>What the update of one row, with or without new dependencies, leaves of rows and dependencies.\<close>

lemma updated_rows:
  assumes w: "wf_db d" and job: "get_job_row d i = Some job"
    and d': "d' = (case ds of None \<Rightarrow> update_jobs (\<lambda>x. x = job) (touch now b) d
              | Some xs \<Rightarrow> set_dependencies i xs (update_jobs (\<lambda>x. x = job) (touch now b) d))"
  shows "get_job_row d' k = (if k = i then Some (touch now b job) else get_job_row d k)"
    and "crud_dependency_ids d' k = (if k = i then (case ds of None \<Rightarrow> crud_dependency_ids d i | Some xs \<Rightarrow> fromkeys xs)
      else crud_dependency_ids d k)"
proof -
  have "get_job_row d' k = map_option (\<lambda>j. if j = job then touch now b j else j) (get_job_row d k)"
    using get_job_row_update_jobs[OF touch_keys, of "\<lambda>x. x = job" now b d k]
    by (auto simp: d' get_job_row_def split: option.splits)
  moreover have "j \<noteq> job" if "get_job_row d k = Some j" "k \<noteq> i" for j
    using get_job_row_SomeD[OF that(1)] get_job_row_SomeD[OF job] that(2) by auto
  ultimately show "get_job_row d' k = (if k = i then Some (touch now b job) else get_job_row d k)"
    using job by (cases "get_job_row d k") auto
  show "crud_dependency_ids d' k = (if k = i then (case ds of None \<Rightarrow> crud_dependency_ids d i | Some xs \<Rightarrow> fromkeys xs)
      else crud_dependency_ids d k)"
    by (auto simp: d' dep_ids_set split: option.splits)
qed



text \<open>
  Deleting a job removes exactly what belongs to it: the job, its runs
  with their logs, and the dependencies from and to it. Everything else stays in
  place and the constraints (no dangling reference) hold.
\<close>

lemma delete_job_cascade:
  assumes w: "wf_db d" and j: "get_job_row d i = Some j" "j_owner_user_id j = Some uid"
  shows "\<exists>d'. api_delete_job i uid d = (Inr (), d') \<and> wf_db d' \<and>
     set (jobs d') = {x \<in> set (jobs d). j_id x \<noteq> i} \<and>
     set (runs d') = {r \<in> set (runs d). r_job_id r \<noteq> i} \<and>
     set (deps d') = {x \<in> set (deps d). d_job_id x \<noteq> i \<and> d_depends_on_job_id x \<noteq> i} \<and>
     set (logs d') = {l \<in> set (logs d). \<forall>r \<in> set (runs d). r_id r = l_run_id l \<longrightarrow> r_job_id r \<noteq> i} \<and>
     users d' = users d"
proof -
  have "api_delete_job i uid d = (Inr (), crud_delete_job i d)"
    using owned_job_iff(1)[OF w, of i uid j] j get_job_row_SomeD[OF j(1)] by (simp add: api_delete_job_def)
  then show ?thesis
    using wf_delete_job[OF w, of i] by (auto simp: crud_delete_job_def Let_def image_iff)
qed

end
