(* ===== verification/Jobs_Api.thy ===== *)
theory Jobs_Api
  imports Crud
begin

text \<open>
  \<^verbatim>\<open>backend/api/routers/jobs.py\<close>: triggering a job together with its unmet
  dependencies, and the read handlers of a job's runs and logs. The recursion
  of \<^verbatim>\<open>_prepare_trigger_run\<close> is bounded by the interpreter's recursion limit
  (an argument); exceeding it raises \<^verbatim>\<open>RecursionError\<close>.
\<close>

section \<open>Triggering\<close>

definition jobs_dependency_ids :: "db \<Rightarrow> int \<Rightarrow> int list" where
  "jobs_dependency_ids d job_id = map d_depends_on_job_id (filter (\<lambda>x. d_job_id x = job_id) (deps d))"

definition active_run :: "db \<Rightarrow> int \<Rightarrow> job_run option" where
  "active_run d job_id =
     first_by (\<lambda>r. (r_created_at r, r_id r))
       (filter (\<lambda>r. r_job_id r = job_id \<and> r_status r \<in> {PENDING, QUEUED, RUNNING}) (runs d))"

fun join :: "string \<Rightarrow> string list \<Rightarrow> string" where
  "join sep [] = []"
| "join sep [s] = s"
| "join sep (s # t # ss) = s @ sep @ join sep (t # ss)"

definition cycle_error :: "int list \<Rightarrow> exn" where
  "cycle_error nodes = HTTPException 409 (''job dependency cycle detected: '' @ join '' -> '' (map int_str nodes))"

text \<open>The session and the list \<^verbatim>\<open>runs_to_publish\<close>.\<close>

type_synonym trig_state = "db \<times> job_run list"

text \<open>The loop over the dependencies: each one without an active run is prepared.\<close>

fun prepare_deps :: "(int \<Rightarrow> (trig_state, job_run) eff) \<Rightarrow> int list \<Rightarrow> (trig_state, unit) eff" where
  "prepare_deps prep [] s = (Inr (), s)"
| "prepare_deps prep (dep_id # ds) s =
     (if active_run (fst s) dep_id = None
      then (case prep dep_id s of (Inl e, s') \<Rightarrow> (Inl e, s') | (Inr _, s') \<Rightarrow> prepare_deps prep ds s')
      else prepare_deps prep ds s)"

primrec prepare_trigger_run ::
  "nat \<Rightarrow> (int \<Rightarrow> time) \<Rightarrow> int \<Rightarrow> trigger_type \<Rightarrow> int list \<Rightarrow> (trig_state, job_run) eff" where
  "prepare_trigger_run 0 ck job_id trigger stack s = (Inl RecursionError, s)"
| "prepare_trigger_run (Suc n) ck job_id trigger stack s =
     (if job_id \<in> set stack then (Inl (cycle_error (stack @ [job_id])), s)
      else let ids = jobs_dependency_ids (fst s) job_id in
        if ids = [] then
          (case create_run (ck (runs_seq (fst s))) job_id trigger None 1 QUEUED (fst s) of
             (Inl e, d') \<Rightarrow> (Inl e, (d', snd s))
           | (Inr run, d') \<Rightarrow> (Inr run, (d', snd s @ [run])))
        else
          (case prepare_deps (\<lambda>dep_id. prepare_trigger_run n ck dep_id DEPENDENCY (stack @ [job_id])) ids s of
             (Inl e, s') \<Rightarrow> (Inl e, s')
           | (Inr _, s') \<Rightarrow>
               (case active_run (fst s') job_id of
                  Some existing \<Rightarrow> (Inr existing, s')
                | None \<Rightarrow>
                    (case create_run (ck (runs_seq (fst s'))) job_id trigger None 1 PENDING (fst s') of
                       (Inl e, d') \<Rightarrow> (Inl e, (d', snd s'))
                     | (Inr run, d') \<Rightarrow> (Inr run, (d', snd s'))))))"

definition trigger_job ::
  "'r redis_api \<Rightarrow> settings \<Rightarrow> nat \<Rightarrow> (int \<Rightarrow> time) \<Rightarrow> int \<Rightarrow> int \<Rightarrow> ('r world, job_run) eff" where
  "trigger_job api cfg depth ck job_id user_id w =
     (case owned_job job_id user_id (w_db w) of
        Inl e \<Rightarrow> (Inl e, w)
      | Inr _ \<Rightarrow>
          (case prepare_trigger_run depth ck job_id MANUAL [] (w_db w, []) of
             (Inl e, _) \<Rightarrow> (Inl e, w)
           | (Inr run, (d', runs_to_publish)) \<Rightarrow>
               andthen (on_redis (for_each runs_to_publish (publish api cfg))) (\<lambda>_. ret run) (w\<lparr>w_db := d'\<rparr>)))"

section \<open>Reading\<close>

text \<open>\<^verbatim>\<open>ORDER BY created_at DESC\<close>.\<close>

definition newest_first :: "job_run list \<Rightarrow> job_run list" where
  "newest_first rs = sort_key (\<lambda>r. - r_created_at r) rs"

definition latest_run_row :: "db \<Rightarrow> int \<Rightarrow> job_run option" where
  "latest_run_row d job_id =
     (case newest_first (filter (\<lambda>r. r_job_id r = job_id) (runs d)) of [] \<Rightarrow> None | r # _ \<Rightarrow> Some r)"

definition get_latest_job_run :: "int \<Rightarrow> int \<Rightarrow> db \<Rightarrow> exn + job_run option" where
  "get_latest_job_run job_id user_id d =
     (case owned_job job_id user_id d of Inl e \<Rightarrow> Inl e | Inr _ \<Rightarrow> Inr (latest_run_row d job_id))"

definition log_page :: "db \<Rightarrow> int \<Rightarrow> int \<Rightarrow> int \<Rightarrow> job_run_log list" where
  "log_page d run_id limit offset =
     page limit offset (sort_key (\<lambda>l. (l_ts l, l_id l)) (filter (\<lambda>l. l_run_id l = run_id) (logs d)))"

definition get_latest_job_run_logs :: "int \<Rightarrow> int \<Rightarrow> int \<Rightarrow> int \<Rightarrow> db \<Rightarrow> exn + job_run_log list" where
  "get_latest_job_run_logs job_id limit offset user_id d =
     (case get_latest_job_run job_id user_id d of
        Inl e \<Rightarrow> Inl e
      | Inr None \<Rightarrow> Inr []
      | Inr (Some latest) \<Rightarrow> Inr (log_page d (r_id latest) limit offset))"

definition list_job_runs :: "int \<Rightarrow> string option \<Rightarrow> int \<Rightarrow> int \<Rightarrow> int \<Rightarrow> db \<Rightarrow> exn + job_run list" where
  "list_job_runs job_id status_filter limit offset user_id d =
     (case owned_job job_id user_id d of
        Inl e \<Rightarrow> Inl e
      | Inr _ \<Rightarrow>
          Inr (page limit offset (newest_first (filter (\<lambda>r. r_job_id r = job_id \<and>
                (case status_filter of None \<Rightarrow> True | Some s \<Rightarrow> status_str (r_status r) = s)) (runs d)))))"

definition list_recent_jobs :: "int \<Rightarrow> int \<Rightarrow> db \<Rightarrow> (job_out \<times> job_run option) list" where
  "list_recent_jobs limit user_id d =
     map (\<lambda>j. (job_to_dict d j, latest_run_row d (j_id j)))
       (take (nat limit) (sort_key (\<lambda>j. - j_created_at j) (filter (\<lambda>j. j_owner_user_id j = Some user_id) (jobs d))))"

section \<open>What preparing does to the state\<close>

text \<open>
  Rows are only appended: a queued row for a job without dependencies, which is
  also put on the publish list, and a pending row for a job with dependencies.
\<close>

definition new_run_ok :: "db \<Rightarrow> job_run \<Rightarrow> bool" where
  "new_run_ok d r \<longleftrightarrow> r_status r = (if jobs_dependency_ids d (r_job_id r) = [] then QUEUED else PENDING) \<and>
     r_attempt r = 1 \<and> r_scheduled_for r = None \<and> r_trigger_type r \<in> {MANUAL, DEPENDENCY}"

definition grown :: "trig_state \<Rightarrow> trig_state \<Rightarrow> bool" where
  "grown s s' \<longleftrightarrow> jobs (fst s') = jobs (fst s) \<and> deps (fst s') = deps (fst s) \<and>
     (wf_db (fst s) \<longrightarrow> run_ok (fst s) (fst s')) \<and>
     (\<exists>rs. runs (fst s') = runs (fst s) @ rs \<and> snd s' = snd s @ filter (\<lambda>r. r_status r = QUEUED) rs \<and>
           (\<forall>r \<in> set rs. new_run_ok (fst s) r))"

lemma dep_ids_cong: "deps d' = deps d \<Longrightarrow> jobs_dependency_ids d' j = jobs_dependency_ids d j"
  by (simp add: jobs_dependency_ids_def)

lemma new_run_ok_cong: "deps d' = deps d \<Longrightarrow> new_run_ok d' r = new_run_ok d r"
  by (simp add: new_run_ok_def jobs_dependency_ids_def)

interpretation trig_eff: eff_preorder grown
proof
  show "grown s s" for s by (auto simp: grown_def run_ok_refl intro: exI[of _ "[]"])
next
  fix s t u assume a: "grown s t" and b: "grown t u"
  obtain rs1 where 1: "runs (fst t) = runs (fst s) @ rs1" "snd t = snd s @ filter (\<lambda>r. r_status r = QUEUED) rs1"
      "\<forall>r \<in> set rs1. new_run_ok (fst s) r" and d1: "jobs (fst t) = jobs (fst s)" "deps (fst t) = deps (fst s)"
    using a by (auto simp: grown_def)
  obtain rs2 where 2: "runs (fst u) = runs (fst t) @ rs2" "snd u = snd t @ filter (\<lambda>r. r_status r = QUEUED) rs2"
      "\<forall>r \<in> set rs2. new_run_ok (fst t) r" and d2: "jobs (fst u) = jobs (fst t)" "deps (fst u) = deps (fst t)"
    using b by (auto simp: grown_def)
  have "run_ok (fst s) (fst u)" if "wf_db (fst s)"
  proof -
    have "run_ok (fst s) (fst t)" using a that by (simp add: grown_def)
    moreover then have "run_ok (fst t) (fst u)" using b by (simp add: grown_def run_ok_def)
    ultimately show ?thesis using run_ok_trans[OF that] by blast
  qed
  then show "grown s u"
    unfolding grown_def using 1 2 d1 d2 new_run_ok_cong[OF d1(2)] by (auto intro!: exI[of _ "rs1 @ rs2"])
qed

lemma keeps_prepare_deps:
  assumes "\<And>i. keeps grown (prep i)"
  shows "keeps grown (prepare_deps prep ds)"
proof (rule keepsI)
  show "grown s (snd (prepare_deps prep ds s))" for s
  proof (induction ds arbitrary: s)
    case (Cons i ds)
    obtain x t where p: "prep i s = (x, t)" by (metis prod.exhaust)
    have "grown s t" using keepsD[OF assms p] .
    then show ?case using Cons[of s] Cons[of t] p trig_eff.R_trans by (cases x) auto
  qed (simp add: trig_eff.R_refl)
qed

lemma create_run_grown:
  assumes c: "create_run now j trg None 1 st d = (x, d')" and trg: "trg \<in> {MANUAL, DEPENDENCY}"
    and st: "st = (if jobs_dependency_ids d j = [] then QUEUED else PENDING)"
  shows "grown (d, pub) (d', case x of Inl e \<Rightarrow> pub | Inr r \<Rightarrow> pub @ (if st = QUEUED then [r] else []))"
proof (cases x)
  case (Inl e)
  then have "d' = d" using c insert_run_Inl by (auto simp: create_run_def)
  then show ?thesis using Inl trig_eff.R_refl by simp
next
  case (Inr r)
  have ins: "insert_run now j trg st 1 None d = (Inr r, d')" using c Inr by (simp add: create_run_def)
  note I = insert_run_Inr[OF ins]
  have "run_ok d d'" if "wf_db d" using run_ok_insert[OF that, of now j trg st 1 None] ins by simp
  moreover have "new_run_ok d r" "r_status r = st" using st trg by (simp_all add: new_run_ok_def I(1))
  ultimately show ?thesis using Inr I(2) by (auto simp: grown_def intro!: exI[of _ "[r]"])
qed

text \<open>The ways in which one call goes: the cases of the proofs below.\<close>

lemma prepare_step:
  assumes "prepare_trigger_run (Suc n) ck j trg stack (d, pub) = (x, s')"
  obtains (cycle) "j \<in> set stack" "x = Inl (cycle_error (stack @ [j]))" "s' = (d, pub)"
  | (leaf) d' where "j \<notin> set stack" "jobs_dependency_ids d j = []"
      "create_run (ck (runs_seq d)) j trg None 1 QUEUED d = (x, d')" "s' = (d', case x of Inl e \<Rightarrow> pub | Inr r \<Rightarrow> pub @ [r])"
  | (failed) e where "j \<notin> set stack" "jobs_dependency_ids d j \<noteq> []" "x = Inl e"
      "prepare_deps (\<lambda>i. prepare_trigger_run n ck i DEPENDENCY (stack @ [j])) (jobs_dependency_ids d j) (d, pub) = (Inl e, s')"
  | (existing) r where "j \<notin> set stack" "jobs_dependency_ids d j \<noteq> []" "x = Inr r" "active_run (fst s') j = Some r"
      "prepare_deps (\<lambda>i. prepare_trigger_run n ck i DEPENDENCY (stack @ [j])) (jobs_dependency_ids d j) (d, pub) = (Inr (), s')"
  | (fresh) d1 pub1 d' where "j \<notin> set stack" "jobs_dependency_ids d j \<noteq> []"
      "prepare_deps (\<lambda>i. prepare_trigger_run n ck i DEPENDENCY (stack @ [j])) (jobs_dependency_ids d j) (d, pub) = (Inr (), (d1, pub1))"
      "create_run (ck (runs_seq d1)) j trg None 1 PENDING d1 = (x, d')" "s' = (d', pub1)"
proof (cases "j \<in> set stack \<or> jobs_dependency_ids d j = []")
  case True
  then show thesis using assms cycle leaf by (cases "j \<in> set stack") (auto split: prod.splits sum.splits)
next
  case out: False
  obtain y d1 pub1 where l: "prepare_deps (\<lambda>i. prepare_trigger_run n ck i DEPENDENCY (stack @ [j])) (jobs_dependency_ids d j) (d, pub) =
      (y, (d1, pub1))" by (metis prod.exhaust)
  show thesis
  proof (cases y)
    case (Inl e)
    then show thesis using assms out l failed by simp
  next
    case (Inr u)
    then show thesis
      using assms out l existing fresh by (cases "active_run d1 j") (auto split: prod.splits sum.splits)
  qed
qed

lemma keeps_prepare: "trg \<in> {MANUAL, DEPENDENCY} \<Longrightarrow> keeps grown (prepare_trigger_run n ck j trg stack)"
proof (induction n arbitrary: j trg stack)
  case 0
  show ?case by (rule keepsI) (simp add: trig_eff.R_refl)
next
  case (Suc n)
  note loop = keepsD[OF keeps_prepare_deps[OF Suc.IH[of DEPENDENCY]]]
  have "grown (d, pub) s'" if "prepare_trigger_run (Suc n) ck j trg stack (d, pub) = (x, s')" for d pub x s'
    using that
  proof (cases rule: prepare_step)
    case (leaf d')
    then show ?thesis using create_run_grown[OF leaf(3) Suc.prems, of pub] by (cases x) simp_all
  next
    case (fresh d1 pub1 d')
    have g: "grown (d, pub) (d1, pub1)" using loop[OF _ fresh(3)] by simp
    then have st: "PENDING = (if jobs_dependency_ids d1 j = [] then QUEUED else PENDING)"
      using fresh(2) by (simp add: grown_def jobs_dependency_ids_def)
    have "grown (d1, pub1) (d', pub1)"
      using create_run_grown[OF fresh(4) Suc.prems st, of pub1] by (cases x) simp_all
    then show ?thesis using trig_eff.R_trans[OF g] fresh(5) by simp
  qed (use loop in \<open>simp_all add: trig_eff.R_refl\<close>)
  then show ?case by (intro keepsI) (metis prod.collapse)
qed


section \<open>Success\<close>

definition has_active :: "db \<Rightarrow> int \<Rightarrow> bool" where
  "has_active d j \<longleftrightarrow> (\<exists>r \<in> set (runs d). r_job_id r = j \<and> r_status r \<in> {PENDING, QUEUED, RUNNING})"

lemma active_run_None_iff: "active_run d j = None \<longleftrightarrow> \<not> has_active d j"
  unfolding active_run_def has_active_def by (auto simp: filter_empty_conv)

lemma active_run_SomeD:
  "active_run d j = Some r \<Longrightarrow> r \<in> set (runs d) \<and> r_job_id r = j \<and> r_status r \<in> {PENDING, QUEUED, RUNNING}"
  unfolding active_run_def by (drule first_by_SomeD(1)) simp

lemma grown_active: "grown s s' \<Longrightarrow> has_active (fst s) j \<Longrightarrow> has_active (fst s') j"
  unfolding has_active_def by (auto simp: grown_def)

lemma grown_dep_ids: "grown s s' \<Longrightarrow> jobs_dependency_ids (fst s') j = jobs_dependency_ids (fst s) j"
  by (simp add: grown_def jobs_dependency_ids_def)

definition settled :: "db \<Rightarrow> int \<Rightarrow> bool" where
  "settled d j \<longleftrightarrow> (\<forall>p \<in> set (jobs_dependency_ids d j). has_active d p)"

definition closed_up :: "trig_state \<Rightarrow> trig_state \<Rightarrow> bool" where
  "closed_up s s' \<longleftrightarrow> (\<forall>q \<in> set (drop (length (runs (fst s))) (runs (fst s'))).
     r_status q = PENDING \<longrightarrow> settled (fst s') (r_job_id q))"

lemma settled_grown: "grown s s' \<Longrightarrow> settled (fst s) j \<Longrightarrow> settled (fst s') j"
  by (auto simp: settled_def grown_dep_ids dest: grown_active)

lemma closed_up_refl: "closed_up s s"
  by (simp add: closed_up_def)

lemma closed_up_trans:
  assumes g: "grown s t" "grown t u" and c: "closed_up s t" "closed_up t u"
  shows "closed_up s u"
proof -
  obtain rs1 rs2 where r: "runs (fst t) = runs (fst s) @ rs1" "runs (fst u) = runs (fst t) @ rs2"
    using g by (auto simp: grown_def)
  have "settled (fst u) (r_job_id q)" if "q \<in> set rs1" "r_status q = PENDING" for q
    using c(1) that r settled_grown[OF g(2)] by (simp add: closed_up_def)
  then show ?thesis using c(2) r by (auto simp: closed_up_def)
qed

lemma prepare_deps_success:
  assumes k: "\<And>i. keeps grown (prep i)"
    and ok: "\<And>i s r s'. prep i s = (Inr r, s') \<Longrightarrow> has_active (fst s') i \<and> closed_up s s'"
    and p: "prepare_deps prep ds s = (Inr (), s')"
  shows "(\<forall>i \<in> set ds. has_active (fst s') i) \<and> closed_up s s'"
  using p
proof (induction ds arbitrary: s)
  case Nil
  then show ?case by (simp add: closed_up_refl)
next
  case (Cons i ds)
  have g: "grown t s'" if "prepare_deps prep ds t = (Inr (), s')" for t
    using keepsD[OF keeps_prepare_deps[OF k] that] .
  show ?case
  proof (cases "has_active (fst s) i")
    case False
    then obtain r t where 1: "prep i s = (Inr r, t)" and 2: "prepare_deps prep ds t = (Inr (), s')"
      using Cons.prems by (auto simp: active_run_None_iff split: prod.splits sum.splits)
    note IH = Cons.IH[OF 2]
    have "has_active (fst s') i" using ok[OF 1] grown_active[OF g[OF 2]] by blast
    then show ?thesis
      using IH ok[OF 1] closed_up_trans[OF keepsD[OF k 1] g[OF 2]] by auto
  next
    case True
    then have 2: "prepare_deps prep ds s = (Inr (), s')" using Cons.prems by (simp add: active_run_None_iff)
    then show ?thesis using Cons.IH[OF 2] grown_active[OF g[OF 2]] True by auto
  qed
qed

lemma create_run_row:
  assumes "create_run now j trg None 1 st d = (Inr r, d')"
  shows "runs d' = runs d @ [r] \<and> r_job_id r = j \<and> r_status r = st \<and> deps d' = deps d"
  using insert_run_Inr(1,2)[OF assms[unfolded create_run_def]] by simp

lemma prepare_success:
  assumes "trg \<in> {MANUAL, DEPENDENCY}" and "prepare_trigger_run n ck j trg stack s = (Inr r, s')"
  shows "r \<in> set (runs (fst s')) \<and> r_job_id r = j \<and> r_status r \<in> {PENDING, QUEUED, RUNNING} \<and> closed_up s s' \<and>
    settled (fst s') j"
  using assms
proof (induction n arbitrary: j trg stack s r s')
  case (Suc n)
  let ?prep = "\<lambda>i. prepare_trigger_run n ck i DEPENDENCY (stack @ [j])"
  obtain d pub where s: "s = (d, pub)" by (cases s)
  have loop: "grown s (d1, pub1) \<and> closed_up s (d1, pub1) \<and> settled d1 j"
    if l: "prepare_deps ?prep (jobs_dependency_ids d j) s = (Inr (), (d1, pub1))" for d1 pub1
  proof -
    have prep: "has_active (fst s') i \<and> closed_up s s'" if "?prep i s = (Inr r, s')" for i s r s'
      using Suc.IH[OF _ that] by (auto simp: has_active_def)
    have g: "grown s (d1, pub1)" using keepsD[OF keeps_prepare_deps l] keeps_prepare by blast
    moreover have "(\<forall>i \<in> set (jobs_dependency_ids d j). has_active d1 i) \<and> closed_up s (d1, pub1)"
      using prepare_deps_success[OF _ prep l] keeps_prepare by auto
    ultimately show ?thesis by (simp add: settled_def grown_def s jobs_dependency_ids_def)
  qed
  show ?case using Suc.prems(2)[unfolded s]
  proof (cases rule: prepare_step)
    case (leaf d')
    then show ?thesis using create_run_row[OF leaf(3)]
      by (simp add: s closed_up_def settled_def jobs_dependency_ids_def)
  next
    case (existing q)
    then show ?thesis using active_run_SomeD[OF existing(4)] loop[of "fst s'" "snd s'"] by (simp add: s)
  next
    case (fresh d1 pub1 d')
    note L = loop[unfolded s, OF fresh(3)] and R = create_run_row[OF fresh(4)]
    have st: "settled d' j" using L R by (auto simp: settled_def jobs_dependency_ids_def has_active_def)
    then have "closed_up (d1, pub1) s'" using R fresh(5) by (simp add: closed_up_def)
    moreover have "grown (d1, pub1) s'"
      using create_run_grown[OF fresh(4) Suc.prems(1), of pub1] fresh(2,5) L
      by (simp add: grown_def jobs_dependency_ids_def)
    ultimately have "closed_up s s'" using closed_up_trans L unfolding s by blast
    then show ?thesis using R st fresh(5) by simp
  qed simp_all
qed simp


section \<open>Failure\<close>

definition dep_edge :: "db \<Rightarrow> int \<Rightarrow> int \<Rightarrow> bool" where
  "dep_edge d a b \<longleftrightarrow> (\<exists>x \<in> set (deps d). d_job_id x = a \<and> d_depends_on_job_id x = b)"

text \<open>A list of nodes that follows dependencies and comes back to a node it has visited.\<close>

definition dep_cycle :: "db \<Rightarrow> int list \<Rightarrow> bool" where
  "dep_cycle d nodes \<longleftrightarrow> nodes \<noteq> [] \<and> successively (dep_edge d) nodes \<and> last nodes \<in> set (butlast nodes)"

lemma dep_ids_edge: "b \<in> set (jobs_dependency_ids d a) \<longleftrightarrow> dep_edge d a b"
  by (auto simp: jobs_dependency_ids_def dep_edge_def)

text \<open>Which exceptions can leave the preparation, given that creating a run cannot fail.\<close>

definition prep_error :: "db \<Rightarrow> nat \<Rightarrow> int list \<Rightarrow> exn \<Rightarrow> bool" where
  "prep_error d n stack e \<longleftrightarrow> (\<exists>nodes. e = cycle_error nodes \<and> dep_cycle d nodes) \<or>
     (e = RecursionError \<and> n + length stack \<le> card (d_job_id ` set (deps d)))"

lemma create_run_total:
  "j \<in> j_id ` set (jobs d) \<Longrightarrow> \<exists>r d'. create_run now j trg None 1 st d = (Inr r, d')"
  unfolding create_run_def by (rule insert_run_untimed)

lemma prep_error_cong: "deps d' = deps d \<Longrightarrow> prep_error d' n stack e = prep_error d n stack e"
  by (simp add: prep_error_def dep_cycle_def dep_edge_def)

lemma prepare_deps_error:
  assumes k: "\<And>i. keeps grown (prep i)"
    and err: "\<And>i s e s'. i \<in> set ds \<Longrightarrow> jobs (fst s) = J \<Longrightarrow> deps (fst s) = D \<Longrightarrow> prep i s = (Inl e, s') \<Longrightarrow> P e"
    and s: "jobs (fst s) = J" "deps (fst s) = D" and p: "prepare_deps prep ds s = (Inl e, s')"
  shows "P e"
  using err s p
proof (induction ds arbitrary: s)
  case (Cons i ds)
  show ?case
  proof (cases "active_run (fst s) i = None")
    case True
    obtain x t where 1: "prep i s = (x, t)" by (metis prod.exhaust)
    have t: "jobs (fst t) = J" "deps (fst t) = D" using keepsD[OF k 1] Cons.prems(2,3) by (auto simp: grown_def)
    show ?thesis
    proof (cases x)
      case (Inl e')
      then show ?thesis using Cons.prems(1)[of i s e' t] Cons.prems(2-4) True 1 by simp
    next
      case (Inr r)
      then have "prepare_deps prep ds t = (Inl e, s')" using Cons.prems(4) True 1 by simp
      then show ?thesis using Cons.IH[OF _ t] Cons.prems(1) by (metis list.set_intros(2))
    qed
  next
    case False
    then show ?thesis using Cons.IH[OF _ Cons.prems(2,3)] Cons.prems(1,4) by (metis list.set_intros(2) prepare_deps.simps(2))
  qed
qed simp

lemma prepare_failure:
  assumes "\<forall>x \<in> set D. d_job_id x \<in> j_id ` set J \<and> d_depends_on_job_id x \<in> j_id ` set J"
    and "j \<in> j_id ` set J" and "jobs (fst s) = J" and "deps (fst s) = D" and "D = deps d0"
    and "distinct stack" and "set stack \<subseteq> d_job_id ` set D" and "successively (dep_edge d0) (stack @ [j])"
    and "trg \<in> {MANUAL, DEPENDENCY}"
    and "prepare_trigger_run n ck j trg stack s = (Inl e, s')"
  shows "prep_error d0 n stack e"
  using assms
proof (induction n arbitrary: j trg stack s e s')
  case 0
  have "length stack \<le> card (d_job_id ` set D)"
    using 0(6,7) by (metis card_mono distinct_card finite_imageI List.finite_set)
  then show ?case using 0 by (simp add: prep_error_def)
next
  case (Suc n)
  let ?prep = "\<lambda>i. prepare_trigger_run n ck i DEPENDENCY (stack @ [j])"
  obtain d pub where s: "s = (d, pub)" by (cases s)
  have total: "create_run now j trg None 1 st d1 \<noteq> (Inl e, d')" if "jobs d1 = J" for now st d1 d'
    using create_run_total[of j d1] Suc.prems(2) that by (metis Inl_Inr_False prod.inject)
  have kp: "keeps grown (?prep i)" for i by (rule keeps_prepare) simp
  show ?case using Suc.prems(10)[unfolded s]
  proof (cases rule: prepare_step)
    case cycle
    have "dep_cycle d0 (stack @ [j])" using Suc.prems(8) cycle(1) by (simp add: dep_cycle_def)
    then show ?thesis using cycle(2) by (auto simp: prep_error_def)
  next
    case (failed e')
    have jd: "j \<in> d_job_id ` set D" using failed(2) Suc.prems(4) by (auto simp: s jobs_dependency_ids_def filter_empty_conv)
    have "prep_error d0 n (stack @ [j]) e'"
    proof (rule prepare_deps_error[OF kp _ Suc.prems(3,4)[unfolded s] failed(4)])
      fix i t e1 t' assume i: "i \<in> set (jobs_dependency_ids d j)" and t: "jobs (fst t) = J" "deps (fst t) = D"
        and p: "?prep i t = (Inl e1, t')"
      have edge: "dep_edge d0 j i" using i Suc.prems(4,5) by (simp add: s dep_ids_edge) (simp add: dep_edge_def)
      have iJ: "i \<in> j_id ` set J" using i Suc.prems(1,4) by (auto simp: s jobs_dependency_ids_def)
      show "prep_error d0 n (stack @ [j]) e1"
      proof (rule Suc.IH[OF Suc.prems(1) iJ t Suc.prems(5) _ _ _ _ p])
        show "successively (dep_edge d0) ((stack @ [j]) @ [i])"
          using Suc.prems(8) edge by (simp add: successively_append_iff)
      qed (use Suc.prems(6,7) failed(1) jd in auto)
    qed
    then show ?thesis using failed(3) by (auto simp: prep_error_def)
  next
    case (leaf d')
    then show ?thesis using total[of d] Suc.prems(3) by (simp add: s)
  next
    case (fresh d1 pub1 d')
    have "grown s (d1, pub1)" unfolding s by (rule keepsD[OF keeps_prepare_deps[OF kp] fresh(3)])
    then have "jobs d1 = J" using Suc.prems(3) by (simp add: grown_def)
    then show ?thesis using total[of d1] fresh(4) by simp
  qed simp
qed


section \<open>The handler\<close>

lemma publish_all: "for_each rs (publish api cfg) = for_each (map r_id rs) (\<lambda>i. andthen (enqueue_run api cfg i) (\<lambda>_. ret ()))"
  by (induction rs) (simp_all add: publish_def)

lemma trigger_db:
  "w_db (snd (trigger_job api cfg depth ck j uid w)) =
     (case owned_job j uid (w_db w) of
        Inl e \<Rightarrow> w_db w
      | Inr _ \<Rightarrow> (case prepare_trigger_run depth ck j MANUAL [] (w_db w, []) of
                   (Inl e, _) \<Rightarrow> w_db w | (Inr _, (d', _)) \<Rightarrow> d'))"
  by (auto simp: trigger_job_def andthen_def on_redis_def ret_def split: sum.splits prod.splits)

lemma run_ok_trigger:
  assumes "wf_db (w_db w)"
  shows "run_ok (w_db w) (w_db (snd (trigger_job api cfg depth ck j uid w)))"
proof -
  have "run_ok (w_db w) d'" if "prepare_trigger_run depth ck j MANUAL [] (w_db w, []) = (x, (d', pub))" for x d' pub
    using keepsD[OF keeps_prepare that] assms by (simp add: grown_def)
  then show ?thesis using run_ok_refl[OF assms] by (auto simp: trigger_db split: sum.splits prod.splits)
qed

interpretation trigger_op: run_op "\<lambda>d. w_db (snd (trigger_job api cfg depth ck j uid \<lparr>w_db = d, w_redis = r\<rparr>))"
  for api cfg depth ck j uid r
proof
  show "run_ok d (w_db (snd (trigger_job api cfg depth ck j uid \<lparr>w_db = d, w_redis = r\<rparr>)))" if "wf_db d" for d
    using run_ok_trigger[of "\<lparr>w_db = d, w_redis = r\<rparr>"] that by simp
qed

lemma prepare_root_failure:
  assumes w: "wf_db d" and o: "owned_job j uid d = Inr job" and n: "card (d_job_id ` set (deps d)) < n"
    and p: "prepare_trigger_run n ck j MANUAL [] (d, []) = (Inl e, s')"
  shows "\<exists>nodes. dep_cycle d nodes \<and> e = cycle_error nodes"
proof -
  have "j \<in> j_id ` set (jobs d)" using o owned_job_iff(1)[OF w] by (force dest: get_job_row_SomeD)
  moreover have "\<forall>x \<in> set (deps d). d_job_id x \<in> j_id ` set (jobs d) \<and> d_depends_on_job_id x \<in> j_id ` set (jobs d)"
    using w by (simp add: wf_db_def wf_deps_def)
  ultimately have "prep_error d n [] e"
    using prepare_failure[of "deps d" "jobs d" j "(d, [])" d "[]" MANUAL n ck e s'] p by simp
  then show ?thesis using n by (auto simp: prep_error_def)
qed

section \<open>Properties\<close>

text \<open>
  Claim C13: what an accepted trigger does. It returns an active run of the job and
  only appends rows: a queued first attempt for each job without dependencies, a
  pending one for each job with dependencies, and when a job is left pending (and
  for the triggered job) every job it depends on has an active run, so something
  is under way that can promote it. Exactly the new queued runs are put on the
  dispatch stream, in order.
\<close>

theorem trigger_job_accepted:
  assumes rs: "redis_server api rinv stream zset" and w: "wf_db (w_db w)" and ri: "rinv (w_redis w)"
    and t: "trigger_job api cfg depth ck j uid w = (Inr run, w')"
  shows "wf_db (w_db w') \<and> run \<in> set (runs (w_db w')) \<and> r_job_id run = j \<and> r_status run \<in> {PENDING, QUEUED, RUNNING} \<and>
    settled (w_db w') j \<and>
    (\<exists>rs es. runs (w_db w') = runs (w_db w) @ rs \<and> (\<forall>r \<in> set rs. new_run_ok (w_db w) r) \<and>
       (\<forall>r \<in> set rs. r_status r = PENDING \<longrightarrow> settled (w_db w') (r_job_id r)) \<and>
       stream (w_redis w') = (stream (w_redis w))(stream_key cfg := stream (w_redis w) (stream_key cfg) @ es) \<and>
       map snd es = map (\<lambda>r. [(''run_id'', int_str (r_id r))]) (filter (\<lambda>r. r_status r = QUEUED) rs))"
proof -
  obtain d' pub r' where p: "prepare_trigger_run depth ck j MANUAL [] (w_db w, []) = (Inr run, (d', pub))"
    and f: "for_each pub (publish api cfg) (w_redis w) = (Inr (), r')" and w': "w' = w\<lparr>w_db := d', w_redis := r'\<rparr>"
    using t by (auto simp: trigger_job_def eff_simps split: sum.splits prod.splits)
  have g: "grown (w_db w, []) (d', pub)" using keepsD[OF keeps_prepare p] by simp
  obtain rs where r: "runs d' = runs (w_db w) @ rs" "pub = filter (\<lambda>r. r_status r = QUEUED) rs"
      "\<forall>r \<in> set rs. new_run_ok (w_db w) r" and wf: "wf_db d'"
    using g w by (auto simp: grown_def run_ok_def)
  have S: "run \<in> set (runs d')" "r_job_id run = j" "r_status run \<in> {PENDING, QUEUED, RUNNING}"
      "closed_up (w_db w, []) (d', pub)" "settled d' j"
    using prepare_success[OF _ p] by auto
  have set: "\<forall>q \<in> set rs. r_status q = PENDING \<longrightarrow> settled d' (r_job_id q)"
    using S(4) r(1) by (simp add: closed_up_def)
  obtain es where es: "stream r' = (stream (w_redis w))(stream_key cfg := stream (w_redis w) (stream_key cfg) @ es)"
      "map snd es = map (\<lambda>i. [(''run_id'', int_str i)]) (map r_id pub)"
    using redis_server.enqueue_all_ok[OF rs ri f[unfolded publish_all]] by blast
  show ?thesis
    using S(1-3,5) wf r set es
    by (intro conjI exI[of _ rs] exI[of _ es]) (simp_all add: w')
qed

definition sample_world_t :: "mem_redis world" where
  "sample_world_t = \<lparr>w_db = sample_db\<lparr>runs := [], runs_seq := 1\<rparr>, w_redis = mem_empty\<rparr>"

lemma sample_t_wf: "wf_db (w_db sample_world_t)"
  by (simp add: sample_world_t_def sample_defs wf_all_defs)

theorem trigger_job_accepted_witness:
  "\<exists>run w'. trigger_job mem_api default_settings 10 (\<lambda>_. 7) 2 1 sample_world_t = (Inr run, w') \<and>
     r_status run \<in> {PENDING, QUEUED, RUNNING} \<and> settled (w_db w') 2"
proof -
  let ?t = "trigger_job mem_api default_settings 10 (\<lambda>_. 7) 2 1 sample_world_t"
  have "map_sum (\<lambda>_. ()) (\<lambda>_. ()) (fst ?t) = Inr ()" by code_simp
  then obtain run where t: "?t = (Inr run, snd ?t)" by (cases "fst ?t") (auto simp: prod_eq_iff)
  have i: "mem_inv (w_redis sample_world_t)" by (simp add: sample_world_t_def mem_empty_inv)
  from trigger_job_accepted[OF mem.redis_server_axioms sample_t_wf i t] t show ?thesis by blast
qed

text \<open>
  Claim C25: cycles and termination. With a recursion limit above the number of
  jobs that have dependencies, triggering an own job always terminates with one of
  two outcomes: the runs are prepared, or the answer is 409 naming a list of jobs
  that really is a cycle of the dependency table, and nothing has changed.
\<close>

theorem trigger_job_cycle:
  assumes w: "wf_db (w_db w)" and o: "owned_job j uid (w_db w) = Inr job"
    and n: "card (d_job_id ` set (deps (w_db w))) < depth"
  shows "(\<exists>run d' pub. prepare_trigger_run depth ck j MANUAL [] (w_db w, []) = (Inr run, (d', pub))) \<or>
    (\<exists>nodes. dep_cycle (w_db w) nodes \<and> trigger_job api cfg depth ck j uid w = (Inl (cycle_error nodes), w))"
proof -
  obtain x s' where Pair: "prepare_trigger_run depth ck j MANUAL [] (w_db w, []) = (x, s')" by (metis prod.exhaust)
  show ?thesis
  proof (cases x)
    case (Inl e)
    from prepare_root_failure[OF w o n Pair[unfolded Inl]] show ?thesis
      using Pair Inl o by (auto simp: trigger_job_def)
  next
    case (Inr run)
    then show ?thesis using Pair by (cases s') auto
  qed
qed

definition cyclic_world :: "mem_redis world" where
  "cyclic_world = sample_world_t\<lparr>w_db := (w_db sample_world_t)\<lparr>deps := [mk_dep 1 2 1, mk_dep 2 1 2], deps_seq := 3\<rparr>\<rparr>"

theorem trigger_job_cycle_witness:
  "\<exists>nodes. dep_cycle (w_db cyclic_world) nodes \<and>
     trigger_job mem_api default_settings 10 (\<lambda>_. 7) 2 1 cyclic_world = (Inl (cycle_error nodes), cyclic_world)"
proof -
  have w: "wf_db (w_db cyclic_world)"
    by (simp add: cyclic_world_def sample_world_t_def sample_defs wf_all_defs)
  have "map_sum (\<lambda>_. ()) (\<lambda>_. ()) (owned_job 2 1 (w_db cyclic_world)) = Inr ()" by code_simp
  then obtain job where o: "owned_job 2 1 (w_db cyclic_world) = Inr job" by (cases "owned_job 2 1 (w_db cyclic_world)") auto
  have n: "card (d_job_id ` set (deps (w_db cyclic_world))) < 10"
    by (simp add: cyclic_world_def mk_dep_def)
  have "map_sum (\<lambda>_. ()) (\<lambda>_. ()) (fst (prepare_trigger_run 10 (\<lambda>_. 7) 2 MANUAL [] (w_db cyclic_world, []))) = Inl ()"
    by code_simp
  then show ?thesis using trigger_job_cycle[OF w o n, of "\<lambda>_. 7" mem_api default_settings] by auto
qed

end
