(* ===== verification/Runs_Api.thy ===== *)
theory Runs_Api
  imports Jobs_Api
begin

text \<open>
  \<^verbatim>\<open>backend/api/routers/runs.py\<close>: reading, retrying and canceling runs. The
  handler of a cancellation reads the run in its own session and cancels it in a
  separate transaction of \<^verbatim>\<open>store\<close>; what other processes commit in between is
  an argument (\<open>between\<close>).
\<close>

section \<open>Handlers\<close>

text \<open>\<^verbatim>\<open>select(JobRun).join(Job).where(JobRun.id == run_id, Job.owner_user_id == owner)\<close>.\<close>

definition owned_by :: "db \<Rightarrow> int \<Rightarrow> job_run \<Rightarrow> bool" where
  "owned_by d user_id r \<longleftrightarrow> filter (\<lambda>j. j_id j = r_job_id r \<and> j_owner_user_id j = Some user_id) (jobs d) \<noteq> []"

definition get_owned_run :: "int \<Rightarrow> int \<Rightarrow> db \<Rightarrow> exn + job_run option" where
  "get_owned_run run_id user_id d =
     scalar_one_or_none (filter (\<lambda>r. r_id r = run_id \<and> owned_by d user_id r) (runs d))"

definition run_not_found :: exn where
  "run_not_found = HTTPException 404 ''run not found''"

definition list_runs :: "string option \<Rightarrow> int \<Rightarrow> int \<Rightarrow> int \<Rightarrow> db \<Rightarrow> job_run list" where
  "list_runs status_filter limit offset user_id d =
     page limit offset (newest_first (filter (\<lambda>r. owned_by d user_id r \<and>
       (case status_filter of None \<Rightarrow> True | Some s \<Rightarrow> status_str (r_status r) = s)) (runs d)))"

definition get_run :: "int \<Rightarrow> int \<Rightarrow> db \<Rightarrow> exn + job_run" where
  "get_run run_id user_id d =
     (case get_owned_run run_id user_id d of
        Inl e \<Rightarrow> Inl e
      | Inr None \<Rightarrow> Inl run_not_found
      | Inr (Some run) \<Rightarrow> Inr run)"

definition get_run_logs :: "int \<Rightarrow> int \<Rightarrow> int \<Rightarrow> int \<Rightarrow> db \<Rightarrow> exn + job_run_log list" where
  "get_run_logs run_id limit offset user_id d =
     (case get_run run_id user_id d of Inl e \<Rightarrow> Inl e | Inr _ \<Rightarrow> Inr (log_page d run_id limit offset))"

definition not_terminal_error :: "run_status \<Rightarrow> exn" where
  "not_terminal_error st =
     HTTPException 409 (''run is not in a terminal state (current: '' @ status_str st @ '')'')"

definition already_terminal_error :: "run_status \<Rightarrow> exn" where
  "already_terminal_error st = HTTPException 409 (''run is already terminal (current: '' @ status_str st @ '')'')"

definition not_canceled_error :: exn where
  "not_canceled_error = HTTPException 409 ''run could not be canceled''"

definition retry_run ::
  "'r redis_api \<Rightarrow> settings \<Rightarrow> time \<Rightarrow> int \<Rightarrow> int \<Rightarrow> ('r world, job_run) eff" where
  "retry_run api cfg now run_id user_id w =
     (case get_run run_id user_id (w_db w) of
        Inl e \<Rightarrow> (Inl e, w)
      | Inr run \<Rightarrow>
          if r_status run \<notin> set TERMINAL then (Inl (not_terminal_error (r_status run)), w)
          else andthen (on_db (create_run now (r_job_id run) RETRY None (r_attempt run + 1) QUEUED)) (\<lambda>new_run.
               andthen (on_redis (publish api cfg new_run)) (\<lambda>_. ret new_run)) w)"

definition api_cancel_run ::
  "'r redis_api \<Rightarrow> settings \<Rightarrow> time \<Rightarrow> (db \<Rightarrow> db) \<Rightarrow> int \<Rightarrow> int \<Rightarrow> ('r world, job_run) eff" where
  "api_cancel_run api cfg now between run_id user_id w =
     (case get_run run_id user_id (w_db w) of
        Inl e \<Rightarrow> (Inl e, w)
      | Inr run \<Rightarrow>
          if r_status run \<in> set TERMINAL then (Inl (already_terminal_error (r_status run)), w)
          else case store_cancel_run now run_id (between (w_db w)) of
                 (ok, d') \<Rightarrow>
                   if \<not> ok then (Inl not_canceled_error, w\<lparr>w_db := d'\<rparr>)
                   else andthen (on_redis (publish_cancel api cfg run_id)) (\<lambda>_ w'.
                          case get_run run_id user_id (w_db w') of
                            Inl e \<Rightarrow> (Inl e, w')
                          | Inr canceled \<Rightarrow> (Inr canceled, w')) (w\<lparr>w_db := d'\<rparr>))"

section \<open>Lemmas\<close>

lemma owned_by_iff:
  assumes "wf_db d"
  shows "owned_by d uid r \<longleftrightarrow> (\<exists>j. get_job_row d (r_job_id r) = Some j \<and> j_owner_user_id j = Some uid)"
  by (auto simp: owned_by_def filter_empty_conv get_job_row_iff[OF assms])

lemma get_owned_run_eq:
  assumes w: "wf_db d"
  shows "get_owned_run i uid d = Inr (case get_run_row d i of None \<Rightarrow> None | Some r \<Rightarrow> if owned_by d uid r then Some r else None)"
proof -
  let ?f = "filter (\<lambda>r. r_id r = i \<and> owned_by d uid r) (runs d)"
  have "?f = [] \<or> (\<exists>r. ?f = [r])"
  proof (cases ?f rule: scalar_one_or_none.cases)
    case (3 x y zs)
    then have "x \<in> set ?f" "y \<in> set ?f" by simp_all
    then have "x = y" using get_run_row_iff[OF w] by (auto) (metis option.inject)
    moreover have "distinct ?f" using wf_db_runs_distinct[OF w] by (simp add: distinct_map)
    then have "x \<noteq> y" using 3 by simp
    ultimately show ?thesis by blast
  qed auto
  then show ?thesis
  proof (elim disjE exE)
    assume f: "?f = []"
    then have "\<not> owned_by d uid r" if "get_run_row d i = Some r" for r
      using get_run_row_SomeD[OF that] by (auto simp: filter_empty_conv)
    then show ?thesis unfolding get_owned_run_def f by (auto split: option.splits)
  next
    fix r assume f: "?f = [r]"
    then have "r \<in> set ?f" by simp
    then have "get_run_row d i = Some r" "owned_by d uid r" using get_run_row_iff[OF w] by auto
    then show ?thesis unfolding get_owned_run_def f by simp
  qed
qed

lemma get_run_eq:
  assumes "wf_db d"
  shows "get_run i uid d = (case get_run_row d i of None \<Rightarrow> Inl run_not_found
     | Some r \<Rightarrow> if owned_by d uid r then Inr r else Inl run_not_found)"
  unfolding get_run_def get_owned_run_eq[OF assms] by (auto split: option.splits)

lemma run_ok_api_retry:
  assumes w: "wf_db (w_db w)"
  shows "run_ok (w_db w) (w_db (snd (retry_run api cfg now i uid w)))"
proof -
  have "run_ok (w_db w) (snd (insert_run now j RETRY QUEUED att None (w_db w)))" for j att
    by (rule run_ok_insert[OF w])
  then have "run_ok (w_db w) d'" if "insert_run now j RETRY QUEUED att None (w_db w) = (x, d')" for j att x d'
    using that by (metis snd_conv)
  then show ?thesis
    using run_ok_refl[OF w]
    by (auto simp: retry_run_def andthen_def on_db_def on_redis_def ret_def create_run_def
        split: sum.splits prod.splits)
qed

lemma run_ok_api_cancel:
  assumes w: "wf_db (w_db w)" and b: "run_ok (w_db w) (between (w_db w))"
  shows "run_ok (w_db w) (w_db (snd (api_cancel_run api cfg now between i uid w)))"
proof -
  have "wf_db (between (w_db w))" using b by (simp add: run_ok_def)
  then have "run_ok (w_db w) (snd (store_cancel_run now i (between (w_db w))))"
    using run_ok_trans[OF w b] run_ok_cancel by blast
  then have "run_ok (w_db w) d'" if "store_cancel_run now i (between (w_db w)) = (x, d')" for x d'
    using that by simp
  then show ?thesis
    using run_ok_refl[OF w]
    by (auto simp: api_cancel_run_def andthen_def on_redis_def split: sum.splits prod.splits)
qed

interpretation api_retry_op: run_op "\<lambda>d. w_db (snd (retry_run api cfg now i uid \<lparr>w_db = d, w_redis = r\<rparr>))"
  for api cfg now i uid r
proof
  show "run_ok d (w_db (snd (retry_run api cfg now i uid \<lparr>w_db = d, w_redis = r\<rparr>)))" if "wf_db d" for d
    using run_ok_api_retry[of "\<lparr>w_db = d, w_redis = r\<rparr>"] that by simp
qed

interpretation api_cancel_op: run_op "\<lambda>d. w_db (snd (api_cancel_run api cfg now (\<lambda>d. d) i uid \<lparr>w_db = d, w_redis = r\<rparr>))"
  for api cfg now i uid r
proof
  show "run_ok d (w_db (snd (api_cancel_run api cfg now (\<lambda>d. d) i uid \<lparr>w_db = d, w_redis = r\<rparr>)))" if "wf_db d" for d
    using run_ok_api_cancel[of "\<lparr>w_db = d, w_redis = r\<rparr>" "\<lambda>d. d"] that by (simp add: run_ok_refl)
qed


section \<open>Properties\<close>

text \<open>
  Retrying by hand. The owner of a terminal run gets a new queued run of
  the same job with the next attempt number, dispatched on the stream, and no
  other run changes; a run that is not terminal is refused with 409, a run of
  another user or no run with 404, both without any effect.
\<close>

lemma retry_run_spec:
  assumes rs: "redis_server api rinv stream zset" and w: "wf_db (w_db w)" and ri: "rinv (w_redis w)"
  shows "(\<forall>q w'. retry_run api cfg now i uid w = (Inr q, w') \<longrightarrow>
      (\<exists>r m. get_run_row (w_db w) i = Some r \<and> owned_by (w_db w) uid r \<and> is_terminal (r_status r) \<and>
         r_id q = runs_seq (w_db w) \<and> r_job_id q = r_job_id r \<and> r_trigger_type q = RETRY \<and>
         r_status q = QUEUED \<and> r_attempt q = r_attempt r + 1 \<and>
         (\<forall>k. get_run_row (w_db w') k = (if k = r_id q then Some q else get_run_row (w_db w) k)) \<and>
         stream (w_redis w') = (stream (w_redis w))
           (stream_key cfg := stream (w_redis w) (stream_key cfg) @ [(m, [(''run_id'', int_str (r_id q))])]))) \<and>
    (\<forall>r. get_run_row (w_db w) i = Some r \<longrightarrow> owned_by (w_db w) uid r \<longrightarrow> \<not> is_terminal (r_status r) \<longrightarrow>
       retry_run api cfg now i uid w = (Inl (not_terminal_error (r_status r)), w)) \<and>
    ((\<forall>r. get_run_row (w_db w) i = Some r \<longrightarrow> \<not> owned_by (w_db w) uid r) \<longrightarrow>
       retry_run api cfg now i uid w = (Inl run_not_found, w))"
proof (intro conjI allI impI)
  fix q w' assume t: "retry_run api cfg now i uid w = (Inr q, w')"
  then obtain r where r: "get_run_row (w_db w) i = Some r" "owned_by (w_db w) uid r" "is_terminal (r_status r)"
    and e: "andthen (on_db (create_run now (r_job_id r) RETRY None (r_attempt r + 1) QUEUED)) (\<lambda>new_run.
               andthen (on_redis (publish api cfg new_run)) (\<lambda>_. ret new_run)) w = (Inr q, w')"
    by (auto simp: retry_run_def get_run_eq[OF w] split: option.splits if_splits)
  obtain d' m r' where ins: "insert_run now (r_job_id r) RETRY QUEUED (r_attempt r + 1) None (w_db w) = (Inr q, d')"
    and en: "enqueue_run api cfg (r_id q) (w_redis w) = (Inr m, r')" and w': "w' = w\<lparr>w_db := d', w_redis := r'\<rparr>"
    using e by (auto simp: eff_simps create_run_def publish_def)
  have q: "r_id q = runs_seq (w_db w) \<and> r_job_id q = r_job_id r \<and> r_trigger_type q = RETRY \<and>
         r_status q = QUEUED \<and> r_attempt q = r_attempt r + 1"
    by (simp add: insert_run_Inr(1)[OF ins])
  have "stream r' = (stream (w_redis w))
           (stream_key cfg := stream (w_redis w) (stream_key cfg) @ [(m, [(''run_id'', int_str (r_id q))])])"
    by (rule redis_server.enqueue_run_ok(3)[OF rs ri en])
  then show "\<exists>r m. get_run_row (w_db w) i = Some r \<and> owned_by (w_db w) uid r \<and> is_terminal (r_status r) \<and>
         r_id q = runs_seq (w_db w) \<and> r_job_id q = r_job_id r \<and> r_trigger_type q = RETRY \<and>
         r_status q = QUEUED \<and> r_attempt q = r_attempt r + 1 \<and>
         (\<forall>k. get_run_row (w_db w') k = (if k = r_id q then Some q else get_run_row (w_db w) k)) \<and>
         stream (w_redis w') = (stream (w_redis w))
           (stream_key cfg := stream (w_redis w) (stream_key cfg) @ [(m, [(''run_id'', int_str (r_id q))])])"
    using r q get_run_row_insert[OF w ins] by (intro exI[of _ r] exI[of _ m]) (simp add: w')
qed (auto simp: retry_run_def get_run_eq[OF w] split: option.splits)

definition sample_done :: "mem_redis world" where
  "sample_done = \<lparr>w_db = finish_run 7 1 FAILED None None None sample_db, w_redis = mem_empty\<rparr>"

text \<open>
  Claim C30: canceling. For an own run that the handler sees as not terminal, with
  any contract-keeping transactions committed before the cancellation itself: if
  the run is still active then, it ends up canceled with the time and the reason
  of the cancellation (also when the notification of the workers fails), and
  otherwise the answer is 409 and the cancellation changes nothing. A run seen as
  terminal is refused with 409, a foreign or missing one with 404.
\<close>

theorem cancel_run_spec:
  assumes w: "wf_db (w_db w)" and b: "run_op between"
  shows "(\<forall>r. get_run_row (w_db w) i = Some r \<longrightarrow> owned_by (w_db w) uid r \<longrightarrow> \<not> is_terminal (r_status r) \<longrightarrow>
      (\<forall>r1. get_run_row (between (w_db w)) i = Some r1 \<and> r_status r1 \<in> set ACTIVE \<longrightarrow>
         get_run_row (w_db (snd (api_cancel_run api cfg now between i uid w))) i = Some (cancel_set now r1)) \<and>
      (\<not> (\<exists>r1. get_run_row (between (w_db w)) i = Some r1 \<and> r_status r1 \<in> set ACTIVE) \<longrightarrow>
         api_cancel_run api cfg now between i uid w = (Inl not_canceled_error, w\<lparr>w_db := between (w_db w)\<rparr>))) \<and>
    (\<forall>r. get_run_row (w_db w) i = Some r \<longrightarrow> owned_by (w_db w) uid r \<longrightarrow> is_terminal (r_status r) \<longrightarrow>
       api_cancel_run api cfg now between i uid w = (Inl (already_terminal_error (r_status r)), w)) \<and>
    ((\<forall>r. get_run_row (w_db w) i = Some r \<longrightarrow> \<not> owned_by (w_db w) uid r) \<longrightarrow>
       api_cancel_run api cfg now between i uid w = (Inl run_not_found, w))"
proof (intro conjI allI impI)
  let ?d1 = "between (w_db w)"
  let ?hit = "\<lambda>q. r_id q = i \<and> r_status q \<in> set ACTIVE"
  have w1: "wf_db ?d1" using b w by (rule run_op.op_wf)
  fix r assume r: "get_run_row (w_db w) i = Some r" "owned_by (w_db w) uid r" "\<not> is_terminal (r_status r)"
  {
    fix r1 assume r1: "get_run_row ?d1 i = Some r1 \<and> r_status r1 \<in> set ACTIVE"
    then have hit: "filter ?hit (runs ?d1) \<noteq> []" by (simp add: filter_by_id[OF w1])
    let ?d2 = "update_runs ?hit (cancel_set now) ?d1"
    have "w_db (snd (api_cancel_run api cfg now between i uid w)) = ?d2"
      using r hit by (auto simp: api_cancel_run_def get_run_eq[OF w] store_cancel_run_def Let_def andthen_def
          on_redis_def split: prod.splits sum.splits)
    then show "get_run_row (w_db (snd (api_cancel_run api cfg now between i uid w))) i = Some (cancel_set now r1)"
      using r1 get_run_row_SomeD[of ?d1 i r1] by (simp add: get_run_row_update)
  next
    assume no: "\<not> (\<exists>r1. get_run_row ?d1 i = Some r1 \<and> r_status r1 \<in> set ACTIVE)"
    then have hit: "filter ?hit (runs ?d1) = []" by (auto simp: filter_by_id[OF w1])
    then have "update_runs ?hit (cancel_set now) ?d1 = ?d1"
      by (simp add: update_runs_def update_where_none filter_empty_conv)
    then show "api_cancel_run api cfg now between i uid w = (Inl not_canceled_error, w\<lparr>w_db := ?d1\<rparr>)"
      using r hit by (simp add: api_cancel_run_def get_run_eq[OF w] store_cancel_run_def Let_def)
  }
qed (auto simp: api_cancel_run_def get_run_eq[OF w] split: option.splits)

theorem cancel_run_spec_witness:
  "get_run_row (w_db (snd (api_cancel_run mem_api default_settings 9 (\<lambda>d. d) 1 1 \<lparr>w_db = sample_db, w_redis = mem_empty\<rparr>))) 1 =
     Some (cancel_set 9 (mk_run 1 1 MANUAL QUEUED 0))"
proof -
  let ?w = "\<lparr>w_db = sample_db, w_redis = mem_empty\<rparr>"
  have b: "run_op (\<lambda>d. d)" by unfold_locales (rule run_ok_refl)
  have w: "wf_db (w_db ?w)" by (simp add: sample_wf)
  have o: "owned_by (w_db ?w) 1 (mk_run 1 1 MANUAL QUEUED 0)"
    by (simp add: owned_by_def sample_defs)
  have n: "\<not> is_terminal (r_status (mk_run 1 1 MANUAL QUEUED 0))" "r_status (mk_run 1 1 MANUAL QUEUED 0) \<in> set ACTIVE"
    by (simp_all add: mk_run_def TERMINAL_def ACTIVE_def)
  from cancel_run_spec[OF w b, of 1 1 mem_api default_settings 9] o n show ?thesis
    by simp
qed

end
