(* ===== verification/Lifecycle.thy ===== *)
theory Lifecycle
  imports Scheduler Runs_Api
begin

text \<open>
  The life of a run as the system promises it, without tables: a board that gives
  every run identifier its fixed origin (job, trigger, attempt, tick, creation
  time) and its status, with three kinds of step. Each transaction of the program
  is one such step on the abstraction of the database, or none. The statuses are
  those of \<^verbatim>\<open>RunStatus\<close> in \<^verbatim>\<open>constants.py\<close>.
\<close>

section \<open>The abstract board\<close>

type_synonym origin = "int \<times> trigger_type \<times> int \<times> time option \<times> time"

record board =
  bd_next :: int
  bd_run :: "int \<rightharpoonup> origin \<times> run_status"

text \<open>
  Which status may follow which. Nothing leaves \<^term>\<open>CANCELED\<close>, nothing enters
  \<^term>\<open>PENDING\<close>. A reclaimed run is started again; a finished one may be finished
  again by the other worker, but never returns to an active status.
\<close>

definition may_become :: "run_status \<Rightarrow> run_status \<Rightarrow> bool" where
  "may_become s s' = (case s' of
     PENDING \<Rightarrow> False
   | QUEUED \<Rightarrow> s = PENDING
   | RUNNING \<Rightarrow> s \<in> {PENDING, QUEUED, RUNNING}
   | CANCELED \<Rightarrow> s \<in> {PENDING, QUEUED, RUNNING}
   | _ \<Rightarrow> s \<noteq> CANCELED)"

inductive life_step :: "board \<Rightarrow> board \<Rightarrow> bool" where
  life_enter: "dom new \<subseteq> {bd_next b..<n} \<Longrightarrow> bd_next b \<le> n \<Longrightarrow> snd ` ran new \<subseteq> {PENDING, QUEUED} \<Longrightarrow>
    life_step b \<lparr>bd_next = n, bd_run = bd_run b ++ new\<rparr>"
| life_move: "bd_run b i = Some (og, s) \<Longrightarrow> may_become s s' \<Longrightarrow>
    life_step b (b\<lparr>bd_run := (bd_run b)(i \<mapsto> (og, s'))\<rparr>)"
| life_drop: "life_step b (b\<lparr>bd_run := bd_run b |` {i. \<forall>og s. bd_run b i = Some (og, s) \<longrightarrow> fst og \<noteq> j}\<rparr>)"

inductive_cases life_stepE: "life_step b b'"

section \<open>What the board promises\<close>

text \<open>How far a run has come.\<close>

definition stage :: "run_status \<Rightarrow> nat" where
  "stage s = (case s of PENDING \<Rightarrow> 0 | QUEUED \<Rightarrow> 1 | RUNNING \<Rightarrow> 2 | _ \<Rightarrow> 3)"

lemma may_become_stage: "may_become s s' \<Longrightarrow> stage s \<le> stage s' \<and> s \<noteq> CANCELED"
  by (cases s; cases s') (simp_all add: may_become_def stage_def)

definition board_inv :: "board \<Rightarrow> bool" where
  "board_inv b \<longleftrightarrow> dom (bd_run b) \<subseteq> {..<bd_next b}"

lemma board_inv_bound: "board_inv b \<Longrightarrow> bd_run b i = Some x \<Longrightarrow> i < bd_next b"
  unfolding board_inv_def by (metis domI lessThan_iff subsetD)

definition later :: "board \<Rightarrow> board \<Rightarrow> bool" where
  "later b b' \<longleftrightarrow> board_inv b' \<and> bd_next b \<le> bd_next b' \<and>
     (\<forall>i < bd_next b. bd_run b i = None \<longrightarrow> bd_run b' i = None) \<and>
     (\<forall>i og s og' s'. bd_run b i = Some (og, s) \<longrightarrow> bd_run b' i = Some (og', s') \<longrightarrow>
        og' = og \<and> stage s \<le> stage s' \<and> (s = CANCELED \<longrightarrow> s' = CANCELED))"

lemma life_step_later:
  assumes "board_inv b" and "life_step b b'"
  shows "later b b'"
  using assms(2)
proof cases
  case (life_enter new n)
  then have "new i = None" if "i < bd_next b" for i using that by force
  moreover have "i < bd_next b" if "bd_run b i = Some x" for i x
    using board_inv_bound[OF assms(1) that] .
  moreover have "dom (bd_run b ++ new) \<subseteq> {..<n}"
    using life_enter assms(1) unfolding board_inv_def dom_map_add by fastforce
  ultimately show ?thesis
    using life_enter by (auto simp: later_def board_inv_def map_add_def split: option.splits)
next
  case (life_move i og s s')
  have "i < bd_next b" using board_inv_bound[OF assms(1) life_move(2)] .
  then have "board_inv b'" using assms(1) life_move(1) by (auto simp: board_inv_def)
  then show ?thesis
    using life_move \<open>i < bd_next b\<close> may_become_stage[of s s'] by (auto simp: later_def)
next
  case (life_drop j)
  then have "board_inv b'" using assms(1) by (auto simp: board_inv_def)
  then show ?thesis using life_drop by (auto simp: later_def restrict_map_def)
qed

lemma later_trans:
  assumes b: "board_inv b" and "later b b'" and "later b' b''"
  shows "later b b''"
proof -
  have mid: "\<exists>y. bd_run b' i = Some y" if "bd_run b i = Some x" "bd_run b'' i = Some z" for i x z
  proof (cases "bd_run b' i")
    case None
    have "i < bd_next b" using board_inv_bound[OF b that(1)] .
    then show ?thesis using None that(2) assms(2,3) by (auto simp: later_def)
  qed simp
  show ?thesis
    unfolding later_def
  proof (intro conjI allI impI)
    fix i og s og' s'
    assume i: "bd_run b i = Some (og, s)" "bd_run b'' i = Some (og', s')"
    obtain og1 s1 where m: "bd_run b' i = Some (og1, s1)" using mid[OF i] by auto
    have 1: "og1 = og \<and> stage s \<le> stage s1 \<and> (s = CANCELED \<longrightarrow> s1 = CANCELED)"
      using assms(2) i(1) m unfolding later_def by blast
    have 2: "og' = og1 \<and> stage s1 \<le> stage s' \<and> (s1 = CANCELED \<longrightarrow> s' = CANCELED)"
      using assms(3) i(2) m unfolding later_def by blast
    show "og' = og" "stage s \<le> stage s'" using 1 2 by auto
    show "s' = CANCELED" if "s = CANCELED" using 1 2 that by blast
  qed (use assms in \<open>auto simp: later_def\<close>)
qed

lemma life_steps_later: "life_step\<^sup>*\<^sup>* b b' \<Longrightarrow> board_inv b \<Longrightarrow> later b b'"
proof (induction rule: rtranclp_induct)
  case base
  then show ?case by (auto simp: later_def)
next
  case (step b1 b2)
  then have 1: "later b b1" by blast
  then have "board_inv b1" unfolding later_def by blast
  then have "later b1 b2" using life_step_later step(2) by blast
  then show ?case using later_trans[OF step.prems 1] by blast
qed

section \<open>The abstraction of the database\<close>

definition origin_of :: "job_run \<Rightarrow> origin" where
  "origin_of r = (r_job_id r, r_trigger_type r, r_attempt r, r_scheduled_for r, r_created_at r)"

definition board_of :: "db \<Rightarrow> board" where
  "board_of d = \<lparr>bd_next = runs_seq d, bd_run = (\<lambda>i. map_option (\<lambda>r. (origin_of r, r_status r)) (get_run_row d i))\<rparr>"

lemma board_of_inv: "wf_db d \<Longrightarrow> board_inv (board_of d)"
  by (auto simp: board_inv_def board_of_def dom_def dest: run_id_bound)

text \<open>A transaction is a step of the board, or leaves it as it is.\<close>

definition board_le :: "db \<Rightarrow> db \<Rightarrow> bool" where
  "board_le d d' \<longleftrightarrow> board_of d' = board_of d \<or> life_step (board_of d) (board_of d')"

lemma board_same_runs: "runs d' = runs d \<Longrightarrow> runs_seq d' = runs_seq d \<Longrightarrow> board_le d d'"
  by (simp add: board_le_def board_of_def get_run_row_def)

lemma board_update:
  assumes k: "keeps_keys f" and p: "\<And>r. p r \<Longrightarrow> r_id r = i"
    and f: "\<And>r. get_run_row d i = Some r \<Longrightarrow> p r \<Longrightarrow> origin_of (f r) = origin_of r \<and> may_become (r_status r) (r_status (f r))"
  shows "board_le d (update_runs p f d)"
proof (cases "\<exists>r. get_run_row d i = Some r \<and> p r")
  case True
  then obtain r where r: "get_run_row d i = Some r" "p r" by blast
  have "bd_run (board_of (update_runs p f d)) = (bd_run (board_of d))(i \<mapsto> (origin_of r, r_status (f r)))"
  proof
    fix k
    have "\<not> p q" if "get_run_row d k = Some q" "k \<noteq> i" for q
      using that p get_run_row_SomeD by blast
    then show "bd_run (board_of (update_runs p f d)) k = ((bd_run (board_of d))(i \<mapsto> (origin_of r, r_status (f r)))) k"
      using r f[OF r] by (cases "get_run_row d k") (auto simp: board_of_def get_run_row_update[OF k])
  qed
  then have "board_of (update_runs p f d) =
      (board_of d)\<lparr>bd_run := (bd_run (board_of d))(i \<mapsto> (origin_of r, r_status (f r)))\<rparr>"
    by (simp add: board_of_def update_runs_def)
  moreover have "bd_run (board_of d) i = Some (origin_of r, r_status r)" using r by (simp add: board_of_def)
  ultimately show ?thesis using life_move[of "board_of d" i _ _ "r_status (f r)"] f[OF r] by (auto simp: board_le_def)
next
  case False
  have "map_option (\<lambda>r. if p r then f r else r) (get_run_row d k) = get_run_row d k" for k
    using False p get_run_row_SomeD by (cases "get_run_row d k") force+
  then have "board_of (update_runs p f d) = board_of d"
    by (simp add: board_of_def get_run_row_update[OF k])
  then show ?thesis by (simp add: board_le_def)
qed

lemma board_append:
  assumes w: "wf_db d" and ok: "run_ok d d'" and rs: "runs d' = runs d @ rs" and st: "\<forall>r \<in> set rs. r_status r \<in> {PENDING, QUEUED}"
  shows "board_le d d'"
proof -
  let ?new = "\<lambda>i. if i < runs_seq d then None else bd_run (board_of d') i"
  have w': "wf_db d'" using ok by (simp add: run_ok_def)
  have old: "get_run_row d' i = get_run_row d i" if "i < runs_seq d" for i
  proof (cases "get_run_row d i")
    case None
    then show ?thesis using that ok by (simp add: run_ok_def)
  next
    case (Some r)
    then have "r \<in> set (runs d')" "r_id r = i" using get_run_row_iff[OF w] rs by auto
    then show ?thesis using Some get_run_row_iff[OF w', of i r] by simp
  qed
  have high: "get_run_row d i = None" if "\<not> i < runs_seq d" for i
    using that run_id_bound[OF w, of i] by (cases "get_run_row d i") auto
  have eq: "board_of d' = \<lparr>bd_next = runs_seq d', bd_run = bd_run (board_of d) ++ ?new\<rparr>"
    using old high by (auto simp: board_of_def map_add_def fun_eq_iff split: option.splits)
  have "snd ` ran ?new \<subseteq> {PENDING, QUEUED}"
  proof
    fix s assume "s \<in> snd ` ran ?new"
    then obtain i r where i: "\<not> i < runs_seq d" "get_run_row d' i = Some r" "r_status r = s"
      by (auto simp: ran_def board_of_def split: if_splits)
    then have "r \<notin> set (runs d)" using high[OF i(1)] get_run_row_SomeD[OF i(2)] get_run_row_iff[OF w, of i r] by auto
    then show "s \<in> {PENDING, QUEUED}" using i get_run_row_SomeD[OF i(2)] rs st by auto
  qed
  moreover have "dom ?new \<subseteq> {runs_seq d..<runs_seq d'}"
    using run_id_bound[OF w'] by (auto simp: dom_def board_of_def split: if_splits)
  moreover have n: "bd_next (board_of d) = runs_seq d" "runs_seq d \<le> runs_seq d'"
    using ok by (simp_all add: run_ok_def board_of_def)
  ultimately have "life_step (board_of d) \<lparr>bd_next = runs_seq d', bd_run = bd_run (board_of d) ++ ?new\<rparr>"
    by (intro life_enter) (simp_all only: n)
  then show ?thesis unfolding board_le_def by (subst (2) eq) (rule disjI2)
qed


section \<open>The transactions\<close>

lemmas row_setters = claim_set_def cancel_set_def finish_set_def

lemma board_claim: "board_le d (snd (claim_run now i w b d))"
  unfolding snd_claim_run
  by (rule board_update) (auto simp: keeps_keys_def row_setters origin_of_def may_become_def claim_allowed_def ACTIVE_def
      split: if_splits)

lemma board_cancel: "board_le d (snd (store_cancel_run now i d))"
  unfolding store_cancel_run_def Let_def snd_conv
  by (rule board_update) (auto simp: keeps_keys_def row_setters origin_of_def may_become_def ACTIVE_def)

lemma board_finish: "st \<in> {SUCCEEDED, FAILED, TIMED_OUT} \<Longrightarrow> board_le d (finish_run now i st ec res err d)"
  unfolding finish_run_def
  by (rule board_update) (auto simp: keeps_keys_def row_setters origin_of_def may_become_def)

lemma board_insert:
  assumes "wf_db d" and "st \<in> {PENDING, QUEUED}" 
  shows "board_le d (snd (insert_run now jid trg st att sf d))"
proof -
  have "\<exists>rs. runs (snd (insert_run now jid trg st att sf d)) = runs d @ rs \<and> (\<forall>r \<in> set rs. r_status r \<in> {PENDING, QUEUED})"
    using assms(2) by (auto simp: insert_run_def Let_def)
  then show ?thesis using board_append[OF assms(1) run_ok_insert[OF assms(1)]] by blast
qed

lemma board_retry: "wf_db d \<Longrightarrow> board_le d (snd (create_retry_run now j att d))"
  using board_insert[of d QUEUED now j RETRY att None]
  by (auto simp: create_retry_run_def split: prod.splits sum.splits)

lemma board_dependency:
  assumes w: "wf_db d"
  shows "board_le d (snd (create_dependency_run now j d))"
proof -
  have "board_le d (promote_pending (r_id r) d)" if "pending_run d j = Some r" for r
    unfolding promote_pending_def
    by (rule board_update)
      (use pending_run_SomeD[OF that] get_run_row_iff[OF w, of "r_id r" r] in
        \<open>auto simp: keeps_keys_def origin_of_def may_become_def\<close>)
  then show ?thesis
    using board_insert[OF w, of QUEUED now j DEPENDENCY 1 None]
    by (auto simp: create_dependency_run_def board_le_def split: option.splits prod.splits sum.splits)
qed

lemma schedule_loop_appends:
  "schedule_loop lib ck js acc d = Some (x, d') \<Longrightarrow>
     \<exists>rs. runs d' = runs d @ rs \<and> (\<forall>r \<in> set rs. r_status r = QUEUED)"
proof (induction lib ck js acc d rule: schedule_loop.induct)
  case (2 lib ck job js acc d)
  obtain y d1 where s: "schedule_job lib ck job d = Some (y, d1)"
    using 2(3) by (auto split: option.splits)
  have "\<exists>rs. runs d1 = runs d @ rs \<and> (\<forall>r \<in> set rs. r_status r = QUEUED)"
    using s by (auto simp: schedule_job_def insert_run_def Let_def split: option.splits sum.splits if_splits)
  moreover have "\<exists>rs. runs d' = runs d1 @ rs \<and> (\<forall>r \<in> set rs. r_status r = QUEUED)"
    using 2(1,2,3) s by (auto split: sum.splits option.splits)
  ultimately show ?case by force
qed simp

lemma board_schedule: "wf_db d \<Longrightarrow> schedule_loop lib ck js [] d = Some (Inr ids, d') \<Longrightarrow> board_le d d'"
  using schedule_loop_appends[of lib ck js "[]" d] board_append[OF _ run_ok_schedule_loop] by blast

lemma board_trigger:
  assumes w: "wf_db d" and p: "prepare_trigger_run n t j MANUAL [] (d, []) = (Inr r, (d', pub))"
  shows "board_le d d'"
proof -
  have "grown (d, []) (d', pub)" using keepsD[OF keeps_prepare p] by simp
  then show ?thesis
    using board_append[OF w, of d'] w by (auto simp: grown_def new_run_ok_def split: if_splits)
qed

lemma board_delete:
  assumes w: "wf_db d"
  shows "board_le d (snd (api_delete_job j uid d))"
proof -
  have "life_step (board_of d) (board_of (crud_delete_job k d))" for k
  proof -
    have "board_of (crud_delete_job k d) = (board_of d)\<lparr>bd_run := bd_run (board_of d) |`
        {i. \<forall>og s. bd_run (board_of d) i = Some (og, s) \<longrightarrow> fst og \<noteq> k}\<rparr>"
      by (auto simp: board_of_def delete_run_row[OF w] restrict_map_def origin_of_def fun_eq_iff split: option.splits)
        (simp add: crud_delete_job_def Let_def)
    then show ?thesis using life_drop by simp
  qed
  then show ?thesis by (auto simp: api_delete_job_def board_le_def split: sum.splits)
qed


lemma create_job_runs:
  "runs (snd (api_create_job created updated p uid d)) = runs d \<and>
   runs_seq (snd (api_create_job created updated p uid d)) = runs_seq d"
  by (auto simp: api_create_job_def crud_create_job_def set_dependencies_def Let_def split: sum.splits option.splits if_splits prod.splits)

lemma update_job_runs:
  "runs (snd (api_update_job cv et now j up uid d)) = runs d \<and>
   runs_seq (snd (api_update_job cv et now j up uid d)) = runs_seq d"
  by (auto simp: api_update_job_def crud_update_job_def set_dependencies_def update_jobs_def Let_def
      split: sum.splits option.splits if_splits prod.splits)

end
