(* ===== verification/Job_Types.thy ===== *)
theory Job_Types
  imports Crud Scheduler Executors
begin

text \<open>
  The type of a stored job: the row, read as a payload, passes the validation of
  \<^verbatim>\<open>schemas.py\<close>. Requests are validated before the handlers run and an update
  validates the merged row, so every transaction keeps it; the executors rely on it.
\<close>

definition row_base :: "job \<Rightarrow> job_base" where
  "row_base j = \<lparr>b_name = j_name j, b_description = j_description j, b_category = j_category j,
     b_task_type = j_task_type j, b_task_spec = j_task_spec j, b_schedule_type = j_schedule_type j,
     b_schedule_expr = j_schedule_expr j, b_timezone = j_timezone j, b_enabled = j_enabled j,
     b_max_retries = j_max_retries j, b_retry_backoff_sec = j_retry_backoff_sec j,
     b_timeout_sec = j_timeout_sec j, b_depends_on = []\<rparr>"

definition job_valid :: "(string \<Rightarrow> bool) \<Rightarrow> job \<Rightarrow> bool" where
  "job_valid cv j \<longleftrightarrow> (case JobBase_validate cv (row_base j) of Inl _ \<Rightarrow> False | Inr _ \<Rightarrow> True)"

definition jobs_valid :: "(string \<Rightarrow> bool) \<Rightarrow> db \<Rightarrow> bool" where
  "jobs_valid cv d \<longleftrightarrow> list_all (job_valid cv) (jobs d)"

lemmas validate_defs = JobBase_validate_def job_fields_ok_def validate_task_type_def validate_schedule_type_def
  validate_schedule_expr_def validate_task_spec_def

text \<open>The dependencies play no part in the validation.\<close>

lemma validate_same_fields:
  assumes "JobBase_validate cv b = Inr b" and "row_base j = b\<lparr>b_depends_on := []\<rparr>"
  shows "job_valid cv j"
  using assms by (auto simp: job_valid_def validate_defs Let_def split: if_splits sum.splits)

section \<open>What the executors find\<close>

definition spec_ready :: "executor \<Rightarrow> json_dict \<Rightarrow> bool" where
  "spec_ready e spec = (case e of ShellExec \<Rightarrow> spec_has spec ''command'' | _ \<Rightarrow> spec_has spec ''url'')"

lemma job_valid_executor:
  assumes "job_valid cv j"
  shows "\<exists>e. get_executor (j_task_type j) = Some e \<and> spec_ready e (j_task_spec j)"
  using assms
  by (auto simp: job_valid_def validate_defs row_base_def Let_def spec_ready_def get_executor_def REGISTRY_def TaskType_ALL_def
      TaskType_HTTP_def TaskType_SHELL_def TaskType_HTTP_ASYNC_def split: if_splits sum.splits)

lemma job_valid_bounds:
  assumes "job_valid cv j"
  shows "1 \<le> j_timeout_sec j" "j_timeout_sec j \<le> 86400" "0 \<le> j_max_retries j" "j_max_retries j \<le> 100"
    "0 \<le> j_retry_backoff_sec j" "j_retry_backoff_sec j \<le> 86400"
  using assms by (auto simp: job_valid_def validate_defs row_base_def Let_def split: if_splits sum.splits)

section \<open>The transactions\<close>

lemma jobs_valid_frame: "jobs d' = jobs d \<Longrightarrow> jobs_valid cv d \<Longrightarrow> jobs_valid cv d'"
  by (simp add: jobs_valid_def)

lemma jobs_valid_create:
  assumes w: "wf_db d" and v: "JobBase_validate cv p = Inr p" and d: "jobs_valid cv d"
  shows "jobs_valid cv (snd (api_create_job created updated p uid d))"
proof (cases "crud_create_job created updated p uid d")
  case (Pair x d')
  show ?thesis
  proof (cases x)
    case (Inl e)
    then show ?thesis using Pair d crud_create_job_err[of created updated p uid d e d'] by (simp add: api_create_job_def)
  next
    case (Inr j)
    have "row_base j = p\<lparr>b_depends_on := []\<rparr>"
      using Pair Inr by (auto simp: crud_create_job_def Let_def row_base_def split: sum.splits option.splits if_splits)
    then show ?thesis
      using d Pair Inr crud_create_job_ok(4)[OF w Pair[unfolded Inr]] validate_same_fields[OF v]
      by (simp add: api_create_job_def jobs_valid_def)
  qed
qed

lemma jobs_valid_update:
  assumes w: "wf_db d" and d: "jobs_valid cv d"
  shows "jobs_valid cv (snd (api_update_job cv et now i u uid d))"
proof (cases "owned_job i uid d")
  case (Inr j)
  have j: "get_job_row d (j_id j) = Some j" using Inr owned_job_iff(1)[OF w] get_job_row_SomeD by blast
  obtain x d' where c: "crud_update_job cv et now j u d = (x, d')" by (metis prod.exhaust)
  have "jobs_valid cv d'"
  proof (cases x)
    case (Inl e)
    then show ?thesis using c d by (auto simp: crud_update_job_def Let_def split: sum.splits option.splits)
  next
    case (Inr j')
    obtain ds b where m: "merged j u (case ds of None \<Rightarrow> [] | Some xs \<Rightarrow> xs) = Some b" and v: "JobBase_validate cv b = Inr b"
      and d': "d' = (case ds of None \<Rightarrow> update_jobs (\<lambda>x. x = j) (touch now b) d
              | Some xs \<Rightarrow> set_dependencies (j_id j) xs (update_jobs (\<lambda>x. x = j) (touch now b) d))"
      by (rule crud_update_job_ok[OF w j c[unfolded Inr]]) blast
    have "b_name b = j_name j" using m by (auto simp: merged_def split: option.splits)
    then have "row_base (with_values b j) = b\<lparr>b_depends_on := []\<rparr>" by (simp add: with_values_def row_base_def)
    moreover have "row_base (x\<lparr>j_updated_at := now\<rparr>) = row_base x" for x by (simp add: row_base_def)
    ultimately have "row_base (touch now b j) = b\<lparr>b_depends_on := []\<rparr>" by (auto simp: touch_def Let_def)
    then have "job_valid cv (touch now b j)" by (rule validate_same_fields[OF v])
    then have "jobs_valid cv (update_jobs (\<lambda>x. x = j) (touch now b) d)"
      using d by (auto simp: jobs_valid_def update_jobs_def update_where_def list_all_iff)
    then show ?thesis using jobs_valid_frame[of "set_dependencies _ _ _"] by (simp add: d' split: option.splits)
  qed
  then show ?thesis using Inr c d by (auto simp: api_update_job_def split: sum.splits)
qed (use d in \<open>simp add: api_update_job_def\<close>)

lemma jobs_valid_delete: "jobs_valid cv d \<Longrightarrow> jobs_valid cv (snd (api_delete_job i uid d))"
  by (auto simp: api_delete_job_def crud_delete_job_def jobs_valid_def list_all_iff Let_def split: sum.splits)

lemma jobs_valid_set_last: "jobs_valid cv d \<Longrightarrow> jobs_valid cv (set_last_scheduled upd i t d)"
  by (auto simp: set_last_scheduled_def update_jobs_def update_where_def jobs_valid_def list_all_iff job_valid_def row_base_def)

lemma jobs_valid_schedule_job:
  "schedule_job lib ck job d = Some (x, d') \<Longrightarrow> jobs_valid cv d \<Longrightarrow> jobs_valid cv d'"
  by (auto simp: schedule_job_def insert_run_def Let_def split: option.splits sum.splits if_splits
      intro!: jobs_valid_set_last intro: jobs_valid_frame[rotated])

lemma jobs_valid_schedule:
  "schedule_loop lib ck js acc d = Some (x, d') \<Longrightarrow> jobs_valid cv d \<Longrightarrow> jobs_valid cv d'"
proof (induction lib ck js acc d rule: schedule_loop.induct)
  case (2 lib ck job js acc d)
  obtain y d1 where s: "schedule_job lib ck job d = Some (y, d1)"
    using 2(3) by (auto split: option.splits)
  show ?case
    using 2 s jobs_valid_schedule_job[OF s 2(4)] by (cases y) (auto split: option.splits)
qed simp

end
