(* ===== verification/Base64.thy ===== *)
theory Base64
  imports Models
begin

text \<open>
  \<^verbatim>\<open>_b64encode\<close> and \<^verbatim>\<open>_b64decode\<close> of \<^verbatim>\<open>backend/common/auth.py\<close>, with the parts of
  \<^verbatim>\<open>base64\<close> and \<^verbatim>\<open>binascii\<close> they use: the URL-safe alphabet, padding, and the
  decoder of \<^verbatim>\<open>binascii.a2b_base64\<close> in its non-strict mode, which skips characters
  outside the alphabet. A character stands for one byte.
\<close>

section \<open>Encoding\<close>

text \<open>The alphabet: upper case, lower case, digits, plus, slash.\<close>

definition b64_char :: "nat \<Rightarrow> char" where
  "b64_char n = (if n < 26 then char_of (n + 65) else if n < 52 then char_of (n + 71)
     else if n < 62 then char_of (n - 4) else if n = 62 then CHR ''+'' else CHR ''/'')"

text \<open>\<^verbatim>\<open>binascii.b2a_base64\<close>: three bytes make four characters, the rest is padded.\<close>

fun b2a :: "string \<Rightarrow> string" where
  "b2a [] = []"
| "b2a [a] = (let x = (of_char a :: nat) in
     [b64_char (x div 4), b64_char (x mod 4 * 16), CHR ''='', CHR ''=''])"
| "b2a [a, b] = (let x = (of_char a :: nat); y = of_char b in
     [b64_char (x div 4), b64_char (x mod 4 * 16 + y div 16), b64_char (y mod 16 * 4), CHR ''=''])"
| "b2a (a # b # c # r) = (let x = (of_char a :: nat); y = of_char b; z = of_char c in
     [b64_char (x div 4), b64_char (x mod 4 * 16 + y div 16), b64_char (y mod 16 * 4 + z div 64), b64_char (z mod 64)]
     @ b2a r)"

text \<open>\<^verbatim>\<open>bytes.translate\<close> to and from the URL-safe alphabet.\<close>

definition to_urlsafe :: "char \<Rightarrow> char" where
  "to_urlsafe c = (if c = CHR ''+'' then CHR ''-'' else if c = CHR ''/'' then CHR ''_'' else c)"

definition of_urlsafe :: "char \<Rightarrow> char" where
  "of_urlsafe c = (if c = CHR ''-'' then CHR ''+'' else if c = CHR ''_'' then CHR ''/'' else c)"

definition rstrip_pad :: "string \<Rightarrow> string" where
  "rstrip_pad s = rev (dropWhile (\<lambda>c. c = CHR ''='') (rev s))"

definition b64encode :: "string \<Rightarrow> string" where
  "b64encode raw = rstrip_pad (map to_urlsafe (b2a raw))"

section \<open>Decoding\<close>

text \<open>The value of an alphabet character (the table of \<^verbatim>\<open>binascii\<close>).\<close>

definition b64_val :: "char \<Rightarrow> nat option" where
  "b64_val c = (let n = (of_char c :: nat) in
     if 65 \<le> n \<and> n \<le> 90 then Some (n - 65)
     else if 97 \<le> n \<and> n \<le> 122 then Some (n - 71)
     else if 48 \<le> n \<and> n \<le> 57 then Some (n + 4)
     else if n = 43 then Some 62 else if n = 47 then Some 63 else None)"

definition with_byte :: "nat \<Rightarrow> exn + string \<Rightarrow> exn + string" where
  "with_byte n x = map_sum id (Cons (char_of n)) x"

text \<open>Position in the quad, bits left over, padding characters seen, input.\<close>

fun a2b :: "nat \<Rightarrow> nat \<Rightarrow> nat \<Rightarrow> string \<Rightarrow> exn + string" where
  "a2b q left pads [] = (if q = 0 then Inr [] else Inl ValueError)"
| "a2b q left pads (c # cs) =
     (if c = CHR ''='' then
        (if 2 \<le> q then (if 4 \<le> q + Suc pads then Inr [] else a2b q left (Suc pads) cs) else a2b q left pads cs)
      else case b64_val c of
        None \<Rightarrow> a2b q left pads cs
      | Some v \<Rightarrow>
          if q = 0 then a2b 1 v 0 cs
          else if q = 1 then with_byte (left * 4 + v div 16) (a2b 2 (v mod 16) 0 cs)
          else if q = 2 then with_byte (left * 16 + v div 4) (a2b 3 (v mod 4) 0 cs)
          else with_byte (left * 64 + v) (a2b 0 0 0 cs))"

definition is_ascii :: "string \<Rightarrow> bool" where
  "is_ascii s \<longleftrightarrow> list_all (\<lambda>c. (of_char c :: nat) < 128) s"

text \<open>\<^verbatim>\<open>"=" * (-len(value) % 4)\<close> is appended; text that is not ASCII raises.\<close>

definition b64decode :: "string \<Rightarrow> exn + string" where
  "b64decode value =
     (let padded = value @ replicate (nat ((- int (length value)) mod 4)) (CHR ''='') in
      if is_ascii padded then a2b 0 0 0 (map of_urlsafe padded) else Inl ValueError)"

section \<open>Round trip\<close>

lemma char_eq_iff_code: "c = d \<longleftrightarrow> (of_char c :: nat) = of_char d"
  by simp

lemma b64_char_code: "n < 64 \<Longrightarrow> (of_char (b64_char n) :: nat) =
    (if n < 26 then n + 65 else if n < 52 then n + 71 else if n < 62 then n - 4 else if n = 62 then 43 else 47)"
  by (auto simp: b64_char_def)

lemma b64_val_char: "n < 64 \<Longrightarrow> b64_val (b64_char n) = Some n"
  by (auto simp: b64_val_def b64_char_code Let_def)

lemma b64_char_pad: "n < 64 \<Longrightarrow> b64_char n \<noteq> CHR ''=''"
  by (auto simp: char_eq_iff_code[of "b64_char n"] b64_char_code)

lemma a2b_char: "n < 64 \<Longrightarrow> a2b q left pads (b64_char n # cs) =
     (if q = 0 then a2b 1 n 0 cs
      else if q = 1 then with_byte (left * 4 + n div 16) (a2b 2 (n mod 16) 0 cs)
      else if q = 2 then with_byte (left * 16 + n div 4) (a2b 3 (n mod 4) 0 cs)
      else with_byte (left * 64 + n) (a2b 0 0 0 cs))"
  by (simp add: b64_val_char b64_char_pad)

lemma with_byte_Inr [simp]: "with_byte n (Inr s) = Inr (char_of n # s)"
  by (simp add: with_byte_def)

lemma sextets:
  fixes x y z :: nat
  assumes "x < 256" "y < 256" "z < 256"
  shows "x div 4 < 64" "x mod 4 * 16 < 64" "x mod 4 * 16 + y div 16 < 64" "y mod 16 * 4 < 64"
    "y mod 16 * 4 + z div 64 < 64" "z mod 64 < 64"
    "(x mod 4 * 16 + y div 16) div 16 = x mod 4" "(x mod 4 * 16 + y div 16) mod 16 = y div 16"
    "(y mod 16 * 4 + z div 64) div 4 = y mod 16" "(y mod 16 * 4 + z div 64) mod 4 = z div 64"
    "(y mod 16 * 4) div 4 = y mod 16" "(x mod 4 * 16) div 16 = x mod 4" "y div 16 mod 16 = y div 16" "z div 64 mod 4 = z div 64"
  using assms by auto

definition b64_text :: "char \<Rightarrow> bool" where
  "b64_text c \<longleftrightarrow> (\<exists>n < 64. c = b64_char n)"

lemma b64_textI: "n < 64 \<Longrightarrow> b64_text (b64_char n)"
  by (auto simp: b64_text_def)

lemma a2b_b2a: "a2b 0 0 0 (b2a raw) = Inr raw"
proof (induction raw rule: b2a.induct)
  case (2 a)
  note s = sextets[OF nat_of_char_less_256[of a] nat_of_char_less_256[of a] nat_of_char_less_256[of a]]
  show ?case by (simp add: Let_def a2b_char s del: a2b.simps(2)) simp
next
  case (3 a b)
  note s = sextets[OF nat_of_char_less_256[of a] nat_of_char_less_256[of b] nat_of_char_less_256[of b]]
  show ?case by (simp add: Let_def a2b_char s del: a2b.simps(2)) simp
next
  case (4 a b c r)
  note s = sextets[OF nat_of_char_less_256[of a] nat_of_char_less_256[of b] nat_of_char_less_256[of c]]
  show ?case using 4 by (simp add: Let_def a2b_char s del: a2b.simps(2))
qed simp

text \<open>The shape of encoded text: alphabet characters, then at most two padding characters.\<close>

definition b64_shape :: "string \<Rightarrow> string \<Rightarrow> nat \<Rightarrow> bool" where
  "b64_shape s body p \<longleftrightarrow> s = body @ replicate p (CHR ''='') \<and> p \<le> 2 \<and> 4 dvd (length body + p) \<and> list_all b64_text body"

lemma four_dvd: "4 dvd Suc (Suc (Suc (Suc n))) \<longleftrightarrow> 4 dvd n"
  by presburger

lemma b2a_shape: "\<exists>body p. b64_shape (b2a raw) body p"
proof (induction raw rule: b2a.induct)
  case 1
  have "b64_shape (b2a []) [] 0" by (simp add: b64_shape_def)
  then show ?case by blast
next
  case (2 a)
  note s = sextets[OF nat_of_char_less_256[of a] nat_of_char_less_256[of a] nat_of_char_less_256[of a]]
  have "b64_shape (b2a [a]) [b64_char (of_char a div 4), b64_char (of_char a mod 4 * 16)] 2"
  proof -
    have "replicate 2 (CHR ''='') = [CHR ''='', CHR ''='']" by (simp add: numeral_2_eq_2)
    then show ?thesis using b64_textI[OF s(1)] b64_textI[OF s(2)] by (simp add: b64_shape_def Let_def four_dvd)
  qed
  then show ?case by blast
next
  case (3 a b)
  note s = sextets[OF nat_of_char_less_256[of a] nat_of_char_less_256[of b] nat_of_char_less_256[of b]]
  have "b64_shape (b2a [a, b]) [b64_char (of_char a div 4), b64_char (of_char a mod 4 * 16 + of_char b div 16),
          b64_char (of_char b mod 16 * 4)] 1"
    by (simp add: b64_shape_def Let_def b64_textI s four_dvd)
  then show ?case by blast
next
  case (4 a b c r)
  note s = sextets[OF nat_of_char_less_256[of a] nat_of_char_less_256[of b] nat_of_char_less_256[of c]]
  from 4 obtain body p where b: "b64_shape (b2a r) body p" by blast
  let ?new = "[b64_char (of_char a div 4), b64_char (of_char a mod 4 * 16 + of_char b div 16),
          b64_char (of_char b mod 16 * 4 + of_char c div 64), b64_char (of_char c mod 64)]"
  have "b64_shape (b2a (a # b # c # r)) (?new @ body) p"
    using b by (simp add: b64_shape_def Let_def b64_textI s four_dvd)
  then show ?case by blast
qed

lemma url_char:
  assumes "b64_text c"
  shows "of_urlsafe (to_urlsafe c) = c" and "to_urlsafe c \<noteq> CHR ''=''"
    and "(of_char (to_urlsafe c) :: nat) < 128" and "to_urlsafe c \<notin> {CHR ''.'', CHR 0x24}"
proof -
  obtain n where n: "n < 64" "c = b64_char n" using assms by (auto simp: b64_text_def)
  then have "(of_char c :: nat) \<in> {65..90} \<union> {97..122} \<union> {48..57} \<union> {43, 47}" by (auto simp: b64_char_code)
  then show "of_urlsafe (to_urlsafe c) = c" "to_urlsafe c \<noteq> CHR ''=''"
    "(of_char (to_urlsafe c) :: nat) < 128" "to_urlsafe c \<notin> {CHR ''.'', CHR 0x24}"
    by (auto simp: of_urlsafe_def to_urlsafe_def)
qed

lemma rstrip_pad_body: "\<forall>c \<in> set b. c \<noteq> CHR ''='' \<Longrightarrow> rstrip_pad (b @ replicate p (CHR ''='')) = b"
proof -
  assume b: "\<forall>c \<in> set b. c \<noteq> CHR ''=''"
  have "dropWhile (\<lambda>c. c = CHR ''='') (replicate p (CHR ''='') @ rev b) = rev b"
  proof -
    have "dropWhile (\<lambda>c. c = CHR ''='') (rev b) = rev b"
      using b last_in_set[of b] dropWhile_eq_self_iff[of "\<lambda>c. c = CHR ''=''" "rev b"]
      by (metis hd_rev rev_is_Nil_conv)
    then show ?thesis by (subst dropWhile_append2) simp_all
  qed
  then show ?thesis by (simp add: rstrip_pad_def)
qed

lemma pad_count: "p \<le> 2 \<Longrightarrow> 4 dvd (n + p) \<Longrightarrow> p = nat ((- int n) mod 4)"
proof -
  assume p: "p \<le> 2" and "4 dvd (n + p)"
  then obtain k where "n + p = 4 * k" by (auto elim: dvdE)
  then have "- int n = int p + 4 * (- int k)" by simp
  then have "(- int n) mod 4 = int p mod 4" by (simp only: mod_mult_self2)
  then show ?thesis using p by simp
qed

lemma b64encode_shape:
  obtains body p where "b64encode raw = map to_urlsafe body" "b2a raw = body @ replicate p (CHR ''='')"
    "p = nat ((- int (length body)) mod 4)" "list_all b64_text body"
proof -
  obtain body p where "b64_shape (b2a raw) body p" using b2a_shape[of raw] by blast
  then have b: "b2a raw = body @ replicate p (CHR ''='')" "p \<le> 2" "4 dvd (length body + p)" "list_all b64_text body"
    by (auto simp: b64_shape_def)
  have "b64encode raw = rstrip_pad (map to_urlsafe body @ replicate p (CHR ''=''))"
    by (simp add: b64encode_def b(1) to_urlsafe_def)
  also have "\<dots> = map to_urlsafe body"
    by (rule rstrip_pad_body) (use b(4) url_char(2) in \<open>auto simp: list_all_iff\<close>)
  finally have e: "b64encode raw = map to_urlsafe body" .
  show ?thesis by (rule that[OF e b(1) pad_count[OF b(2,3)] b(4)])
qed

lemma b64_roundtrip: "b64decode (b64encode raw) = Inr raw"
proof -
  obtain body p where b: "b64encode raw = map to_urlsafe body" "b2a raw = body @ replicate p (CHR ''='')"
    "p = nat ((- int (length body)) mod 4)" "list_all b64_text body" by (rule b64encode_shape)
  have "map of_urlsafe (map to_urlsafe body) = body"
    using b(4) url_char(1) by (auto simp: list_all_iff intro!: map_idI)
  then have "map of_urlsafe (b64encode raw @ replicate p (CHR ''='')) = b2a raw"
    by (simp add: b(1,2) of_urlsafe_def)
  moreover have "is_ascii (b64encode raw @ replicate p (CHR ''=''))"
    using b(4) url_char(3) by (auto simp: is_ascii_def b(1) list_all_iff)
  ultimately show ?thesis using a2b_b2a[of raw] b(1,3) by (simp add: b64decode_def Let_def)
qed

text \<open>Encoded text is ASCII and contains neither separator of the formats built from it.\<close>

lemma b64encode_plain: "is_ascii (b64encode raw) \<and> CHR ''.'' \<notin> set (b64encode raw) \<and> CHR 0x24 \<notin> set (b64encode raw)"
proof -
  obtain body p where b: "b64encode raw = map to_urlsafe body" "b2a raw = body @ replicate p (CHR ''='')"
    "p = nat ((- int (length body)) mod 4)" "list_all b64_text body" by (rule b64encode_shape)
  show ?thesis using b(4) url_char(3,4) by (fastforce simp: b(1) is_ascii_def list_all_iff)
qed

end
