(* ===== verification/Auth.thy ===== *)
theory Auth
  imports Base64 Store Sample
begin

text \<open>
  \<^verbatim>\<open>backend/common/auth.py\<close>, \<^verbatim>\<open>backend/api/routers/auth.py\<close>, \<^verbatim>\<open>backend/api/deps.py\<close>
  and the user schemas of \<^verbatim>\<open>schemas.py\<close>: passwords, access tokens, registration,
  login, and the user of a request. HMAC-SHA256, PBKDF2 and \<^verbatim>\<open>json.loads\<close> are
  arguments (record \<open>auth_lib\<close>); a character stands for one byte or one Latin-1
  code point, as the server decodes header fields.
\<close>

record auth_lib =
  hmac_sha256 :: "string \<Rightarrow> string \<Rightarrow> string"
  pbkdf2 :: "string \<Rightarrow> string \<Rightarrow> int \<Rightarrow> exn + string"
  json_loads :: "string \<Rightarrow> exn + json"

section \<open>Passwords (auth.py)\<close>

definition PBKDF2_ITERATIONS :: int where
  "PBKDF2_ITERATIONS = 210000"

text \<open>\<^verbatim>\<open>s.split(sep, n)\<close>: at most \<open>n\<close> splits.\<close>

fun split_max :: "char \<Rightarrow> nat \<Rightarrow> string \<Rightarrow> string list" where
  "split_max sep 0 s = [s]"
| "split_max sep (Suc n) s =
     (case dropWhile (\<lambda>c. c \<noteq> sep) s of
        [] \<Rightarrow> [s]
      | _ # rest \<Rightarrow> takeWhile (\<lambda>c. c \<noteq> sep) s # split_max sep n rest)"

definition hash_password :: "auth_lib \<Rightarrow> string \<Rightarrow> string \<Rightarrow> exn + string" where
  "hash_password lib salt password =
     (case pbkdf2 lib password salt PBKDF2_ITERATIONS of
        Inl e \<Rightarrow> Inl e
      | Inr digest \<Rightarrow> Inr (''pbkdf2_sha256'' @ CHR 0x24 # int_str PBKDF2_ITERATIONS @
          CHR 0x24 # b64encode salt @ CHR 0x24 # b64encode digest))"

text \<open>The parts of a stored hash, or nothing when they cannot be read.\<close>

definition parse_hash :: "string \<Rightarrow> (int \<times> string \<times> string) option" where
  "parse_hash password_hash =
     (case split_max (CHR 0x24) 3 password_hash of
        [algorithm, iterations_raw, salt_raw, digest_raw] \<Rightarrow>
          if algorithm \<noteq> ''pbkdf2_sha256'' then None
          else (case py_int iterations_raw of None \<Rightarrow> None
            | Some iterations \<Rightarrow>
                (case b64decode salt_raw of Inl _ \<Rightarrow> None
                 | Inr salt \<Rightarrow>
                     (case b64decode digest_raw of Inl _ \<Rightarrow> None
                      | Inr expected \<Rightarrow> Some (iterations, salt, expected))))
      | _ \<Rightarrow> None)"

definition verify_password :: "auth_lib \<Rightarrow> string \<Rightarrow> string \<Rightarrow> exn + bool" where
  "verify_password lib password password_hash =
     (case parse_hash password_hash of
        None \<Rightarrow> Inr False
      | Some (iterations, salt, expected) \<Rightarrow>
          (case pbkdf2 lib password salt iterations of
             Inl e \<Rightarrow> Inl e
           | Inr actual \<Rightarrow> Inr (actual = expected)))"

section \<open>Tokens (auth.py)\<close>

text \<open>\<^verbatim>\<open>json.dumps(payload, separators=(",", ":"))\<close> for a dict of strings and integers.\<close>

definition hex_dig :: "nat \<Rightarrow> char" where
  "hex_dig n = (if n < 10 then dig_char n else char_of (n + 87))"

definition json_char :: "char \<Rightarrow> string" where
  "json_char c = (let n = (of_char c :: nat) in
     if c = CHR 0x22 then [CHR 0x5C, CHR 0x22]
     else if n = 92 then [CHR 0x5C, CHR 0x5C]
     else if n = 10 then [CHR 0x5C, CHR ''n'']
     else if n = 13 then [CHR 0x5C, CHR ''r'']
     else if n = 9 then [CHR 0x5C, CHR ''t'']
     else if n = 12 then [CHR 0x5C, CHR ''f'']
     else if n = 8 then [CHR 0x5C, CHR ''b'']
     else if n < 32 \<or> 127 < n then [CHR 0x5C, CHR ''u'', CHR ''0'', CHR ''0'', hex_dig (n div 16), hex_dig (n mod 16)]
     else [c])"

definition json_string :: "string \<Rightarrow> string" where
  "json_string s = CHR 0x22 # concat (map json_char s) @ [CHR 0x22]"

type_synonym claims = "(string \<times> (string + int)) list"

definition json_scalar :: "string + int \<Rightarrow> string" where
  "json_scalar v = (case v of Inl s \<Rightarrow> json_string s | Inr i \<Rightarrow> int_str i)"

definition claims_json :: "claims \<Rightarrow> json_dict" where
  "claims_json d = map (\<lambda>(k, v). (k, case v of Inl s \<Rightarrow> JStr s | Inr i \<Rightarrow> JInt i)) d"

fun json_members :: "claims \<Rightarrow> string" where
  "json_members [] = []"
| "json_members [(k, v)] = json_string k @ CHR '':'' # json_scalar v"
| "json_members ((k, v) # d) = json_string k @ CHR '':'' # json_scalar v @ CHR '','' # json_members d"

definition json_dumps :: "claims \<Rightarrow> string" where
  "json_dumps d = CHR 0x7B # json_members d @ [CHR 0x7D]"

text \<open>\<^verbatim>\<open>int(t.timestamp())\<close> of an instant after the epoch.\<close>

definition timestamp :: "time \<Rightarrow> int" where
  "timestamp t = t div 1000000"

definition token_payload :: "int \<Rightarrow> string \<Rightarrow> time \<Rightarrow> time \<Rightarrow> claims" where
  "token_payload user_id username now expires_delta =
     [(''sub'', Inl (int_str user_id)), (''username'', Inl username), (''iat'', Inr (timestamp now)),
      (''exp'', Inr (timestamp (now + expires_delta)))]"

definition create_access_token :: "auth_lib \<Rightarrow> int \<Rightarrow> string \<Rightarrow> string \<Rightarrow> time \<Rightarrow> time \<Rightarrow> string" where
  "create_access_token lib user_id username secret_key now expires_delta =
     (let payload_raw = b64encode (json_dumps (token_payload user_id username now expires_delta))
      in payload_raw @ CHR ''.'' # b64encode (hmac_sha256 lib secret_key payload_raw))"

text \<open>
  \<^verbatim>\<open>decode_access_token\<close>. Encoding a payload part that is not ASCII raises outside
  the \<^verbatim>\<open>try\<close> (a \<^verbatim>\<open>ValueError\<close>), and so does \<^verbatim>\<open>hmac.compare_digest\<close> on a signature
  part that is not ASCII (a \<^verbatim>\<open>TypeError\<close>). A boolean is an \<^verbatim>\<open>int\<close>.
\<close>

fun int_value :: "json \<Rightarrow> int option" where
  "int_value (JInt i) = Some i"
| "int_value (JBool b) = Some (if b then 1 else 0)"
| "int_value _ = None"

definition check_exp :: "time \<Rightarrow> json \<Rightarrow> exn + json_dict option" where
  "check_exp now payload =
     (case payload of
        JObj d \<Rightarrow>
          (case map_of d ''exp'' of
             None \<Rightarrow> Inr None
           | Some v \<Rightarrow>
               (case int_value v of
                  None \<Rightarrow> Inr None
                | Some ex \<Rightarrow> Inr (if ex < timestamp now then None else Some d)))
      | _ \<Rightarrow> Inl AttributeError)"

definition decode_access_token :: "auth_lib \<Rightarrow> string \<Rightarrow> time \<Rightarrow> string \<Rightarrow> exn + json_dict option" where
  "decode_access_token lib secret_key now token =
     (case split_max (CHR ''.'') 1 token of
        [payload_raw, signature_raw] \<Rightarrow>
          if \<not> is_ascii payload_raw then Inl ValueError
          else if \<not> is_ascii signature_raw then Inl TypeError
          else if b64encode (hmac_sha256 lib secret_key payload_raw) \<noteq> signature_raw then Inr None
          else (case b64decode payload_raw of
                  Inl e \<Rightarrow> Inr None
                | Inr text \<Rightarrow>
                    (case json_loads lib text of
                       Inl e \<Rightarrow> if e = ValueError \<or> e = TypeError then Inr None else Inl e
                     | Inr payload \<Rightarrow> check_exp now payload))
      | _ \<Rightarrow> Inr None)"

section \<open>Schemas and handlers (schemas.py, routers/auth.py, deps.py)\<close>

record user_create =
  uc_username :: string
  uc_password :: string
  uc_email :: "string option"

definition username_char :: "char \<Rightarrow> bool" where
  "username_char c \<longleftrightarrow> (let n = (of_char c :: nat) in
     (65 \<le> n \<and> n \<le> 90) \<or> (97 \<le> n \<and> n \<le> 122) \<or> (48 \<le> n \<and> n \<le> 57) \<or> c \<in> {CHR ''_'', CHR ''.'', CHR ''-''})"

definition UserCreate_ok :: "user_create \<Rightarrow> bool" where
  "UserCreate_ok p \<longleftrightarrow> 3 \<le> length (uc_username p) \<and> length (uc_username p) \<le> 64 \<and>
     list_all username_char (uc_username p) \<and> 8 \<le> length (uc_password p) \<and> length (uc_password p) \<le> 128 \<and>
     (case uc_email p of None \<Rightarrow> True | Some e \<Rightarrow> length e \<le> 255)"

record user_login =
  ul_username :: string
  ul_password :: string

definition UserLogin_ok :: "user_login \<Rightarrow> bool" where
  "UserLogin_ok p \<longleftrightarrow> 1 \<le> length (ul_username p) \<and> length (ul_username p) \<le> 255 \<and>
     1 \<le> length (ul_password p) \<and> length (ul_password p) \<le> 128"

text \<open>The responses: \<^verbatim>\<open>UserOut\<close> leaves the password hash out.\<close>

record user_out =
  uo_id :: int
  uo_username :: string
  uo_email :: "string option"
  uo_is_active :: bool
  uo_created_at :: time

definition UserOut :: "user \<Rightarrow> user_out" where
  "UserOut u = \<lparr>uo_id = u_id u, uo_username = u_username u, uo_email = u_email u, uo_is_active = u_is_active u,
     uo_created_at = u_created_at u\<rparr>"

record token_out =
  to_access_token :: string
  to_token_type :: string
  to_expires_in :: int
  to_user :: user_out

definition token_for_user :: "auth_lib \<Rightarrow> settings \<Rightarrow> time \<Rightarrow> user \<Rightarrow> token_out" where
  "token_for_user lib cfg now u =
     (let expires = sec (auth_token_expire_minutes cfg * 60) in
      \<lparr>to_access_token = create_access_token lib (u_id u) (u_username u) (auth_secret_key cfg) now expires,
       to_token_type = ''bearer'', to_expires_in = auth_token_expire_minutes cfg * 60, to_user = UserOut u\<rparr>)"

text \<open>Clock readings and the random salt of one registration.\<close>

record reg_input =
  ri_salt :: string
  ri_created :: time
  ri_updated :: time
  ri_now :: time

definition register :: "auth_lib \<Rightarrow> settings \<Rightarrow> reg_input \<Rightarrow> user_create \<Rightarrow> (db, token_out) eff" where
  "register lib cfg ri p d =
     (case scalar_one_or_none (filter (\<lambda>u. u_username u = uc_username p \<or>
              (uc_email p \<noteq> None \<and> u_email u = uc_email p)) (users d)) of
        Inl e \<Rightarrow> (Inl e, d)
      | Inr (Some _) \<Rightarrow> (Inl (HTTPException 409 ''username or email already exists''), d)
      | Inr None \<Rightarrow>
          (case hash_password lib (ri_salt ri) (uc_password p) of
             Inl e \<Rightarrow> (Inl e, d)
           | Inr h \<Rightarrow>
               let u = \<lparr>u_id = users_seq d, u_username = uc_username p, u_email = uc_email p, u_password_hash = h,
                        u_is_active = True, u_created_at = ri_created ri, u_updated_at = ri_updated ri\<rparr>
               in (Inr (token_for_user lib cfg (ri_now ri) u),
                   d\<lparr>users := users d @ [u], users_seq := users_seq d + 1\<rparr>)))"

definition login_error :: exn where
  "login_error = HTTPException 401 ''invalid username or password''"

definition login :: "auth_lib \<Rightarrow> settings \<Rightarrow> time \<Rightarrow> user_login \<Rightarrow> db \<Rightarrow> exn + token_out" where
  "login lib cfg now p d =
     (case scalar_one_or_none (filter (\<lambda>u. u_username u = ul_username p \<or> u_email u = Some (ul_username p)) (users d)) of
        Inl e \<Rightarrow> Inl e
      | Inr None \<Rightarrow> Inl login_error
      | Inr (Some u) \<Rightarrow>
          if \<not> u_is_active u then Inl login_error
          else (case verify_password lib (ul_password p) (u_password_hash u) of
                  Inl e \<Rightarrow> Inl e
                | Inr ok \<Rightarrow> if ok then Inr (token_for_user lib cfg now u) else Inl login_error))"

text \<open>\<^verbatim>\<open>int(payload["sub"])\<close>; every way it can fail is answered with 401.\<close>

fun subject_id :: "json \<Rightarrow> int option" where
  "subject_id (JStr s) = py_int s"
| "subject_id (JFloat x) = Some (if 0 \<le> x then floor x else ceiling x)"
| "subject_id v = int_value v"

definition unauthorized :: "string \<Rightarrow> exn" where
  "unauthorized detail = HTTPException 401 detail"

definition get_current_user ::
  "auth_lib \<Rightarrow> settings \<Rightarrow> time \<Rightarrow> (string \<times> string) option \<Rightarrow> db \<Rightarrow> exn + user" where
  "get_current_user lib cfg now credentials d =
     (case credentials of
        None \<Rightarrow> Inl (unauthorized ''missing bearer token'')
      | Some (scheme, token) \<Rightarrow>
          if lower scheme \<noteq> ''bearer'' then Inl (unauthorized ''missing bearer token'')
          else (case decode_access_token lib (auth_secret_key cfg) now token of
                  Inl e \<Rightarrow> Inl e
                | Inr None \<Rightarrow> Inl (unauthorized ''invalid or expired token'')
                | Inr (Some payload) \<Rightarrow>
                    (case map_of payload ''sub'' of
                       None \<Rightarrow> Inl (unauthorized ''invalid token subject'')
                     | Some v \<Rightarrow>
                         (case subject_id v of
                            None \<Rightarrow> Inl (unauthorized ''invalid token subject'')
                          | Some user_id \<Rightarrow>
                              (case get_by u_id user_id (users d) of
                                 None \<Rightarrow> Inl (unauthorized ''user not found or inactive'')
                               | Some u \<Rightarrow>
                                   if u_is_active u then Inr u
                                   else Inl (unauthorized ''user not found or inactive''))))))"

definition me :: "user \<Rightarrow> user_out" where
  "me current_user = UserOut current_user"


section \<open>Lemmas\<close>

lemma split_max_cut: "sep \<notin> set a \<Longrightarrow> split_max sep (Suc n) (a @ sep # b) = a # split_max sep n b"
proof -
  assume a: "sep \<notin> set a"
  have "dropWhile (\<lambda>c. c \<noteq> sep) (a @ sep # b) = sep # b" and "takeWhile (\<lambda>c. c \<noteq> sep) (a @ sep # b) = a"
    using a by (induction a) auto
  then show ?thesis by simp
qed

lemma split_max_one: "split_max sep 1 s = [a, b] \<longleftrightarrow> s = a @ sep # b \<and> sep \<notin> set a"
proof
  assume s: "split_max sep 1 s = [a, b]"
  then obtain c where d: "dropWhile (\<lambda>c. c \<noteq> sep) s = c # b" and a: "a = takeWhile (\<lambda>c. c \<noteq> sep) s"
    by (auto split: list.splits)
  have "c = sep" using d hd_dropWhile[of "\<lambda>c. c \<noteq> sep" s] by auto
  moreover have "s = a @ c # b" using d a takeWhile_dropWhile_id[of "\<lambda>c. c \<noteq> sep" s] by simp
  moreover have "sep \<notin> set a" using a set_takeWhileD[of sep "\<lambda>c. c \<noteq> sep" s] by blast
  ultimately show "s = a @ sep # b \<and> sep \<notin> set a" by blast
qed (use split_max_cut[of sep a 0 b] in auto)

lemma int_str_plain: "CHR 0x24 \<notin> set (int_str i)"
proof -
  have "CHR 0x24 \<notin> set (nat_str n)" for n
    using nat_str_digits[of n] by (auto simp: list_all_iff is_dig_def)
  then show ?thesis by (auto simp: int_str_def)
qed

text \<open>What is stored for a password is read back as it was computed.\<close>

lemma parse_hash_hash:
  assumes "pbkdf2 lib password salt PBKDF2_ITERATIONS = Inr digest" and "hash_password lib salt password = Inr h"
  shows "parse_hash h = Some (PBKDF2_ITERATIONS, salt, digest)"
proof -
  have h: "h = ''pbkdf2_sha256'' @ CHR 0x24 # int_str PBKDF2_ITERATIONS @
          CHR 0x24 # b64encode salt @ CHR 0x24 # b64encode digest"
    using assms by (simp add: hash_password_def)
  have "split_max (CHR 0x24) 3 h = [''pbkdf2_sha256'', int_str PBKDF2_ITERATIONS, b64encode salt, b64encode digest]"
  proof -
    have "split_max (CHR 0x24) (Suc 0) (b64encode salt @ CHR 0x24 # b64encode digest) = [b64encode salt, b64encode digest]"
      using split_max_cut[of "CHR 0x24" "b64encode salt" 0] b64encode_plain by simp
    then have "split_max (CHR 0x24) (Suc (Suc 0)) (int_str PBKDF2_ITERATIONS @ CHR 0x24 # b64encode salt @ CHR 0x24 # b64encode digest) =
        [int_str PBKDF2_ITERATIONS, b64encode salt, b64encode digest]"
      by (subst split_max_cut) (simp_all add: int_str_plain)
    then have "split_max (CHR 0x24) (Suc (Suc (Suc 0))) h =
        [''pbkdf2_sha256'', int_str PBKDF2_ITERATIONS, b64encode salt, b64encode digest]"
      unfolding h by (subst split_max_cut) simp_all
    then show ?thesis by (simp only: numeral_3_eq_3)
  qed
  then show ?thesis by (simp add: parse_hash_def py_int_int_str b64_roundtrip)
qed

lemma decode_signed:
  assumes j: "json_loads lib (json_dumps p) = Inr (JObj (claims_json p))"
  shows "decode_access_token lib key now
      (b64encode (json_dumps p) @ CHR ''.'' # b64encode (hmac_sha256 lib key (b64encode (json_dumps p)))) =
    check_exp now (JObj (claims_json p))"
proof -
  let ?raw = "b64encode (json_dumps p)" and ?sig = "b64encode (hmac_sha256 lib key (b64encode (json_dumps p)))"
  have "split_max (CHR ''.'') 1 (?raw @ CHR ''.'' # ?sig) = [?raw, ?sig]"
    using b64encode_plain by (simp add: split_max_one[simplified])
  then show ?thesis using j b64encode_plain by (simp add: decode_access_token_def b64_roundtrip)
qed


text \<open>Registration appends one row and keeps the constraints.\<close>

definition new_user :: "db \<Rightarrow> reg_input \<Rightarrow> user_create \<Rightarrow> string \<Rightarrow> user" where
  "new_user d ri p h = \<lparr>u_id = users_seq d, u_username = uc_username p, u_email = uc_email p, u_password_hash = h,
     u_is_active = True, u_created_at = ri_created ri, u_updated_at = ri_updated ri\<rparr>"

lemma register_cases:
  "(\<exists>e. register lib cfg ri p d = (Inl e, d)) \<or>
   (\<exists>h. register lib cfg ri p d = (Inr (token_for_user lib cfg (ri_now ri) (new_user d ri p h)),
        d\<lparr>users := users d @ [new_user d ri p h], users_seq := users_seq d + 1\<rparr>) \<and>
      hash_password lib (ri_salt ri) (uc_password p) = Inr h \<and>
      (\<forall>u \<in> set (users d). u_username u \<noteq> uc_username p \<and> (uc_email p \<noteq> None \<longrightarrow> u_email u \<noteq> uc_email p)))"
proof -
  let ?f = "filter (\<lambda>u. u_username u = uc_username p \<or> (uc_email p \<noteq> None \<and> u_email u = uc_email p)) (users d)"
  have none: "scalar_one_or_none ?f = Inr None \<longleftrightarrow> ?f = []" by (cases ?f rule: scalar_one_or_none.cases) auto
  show ?thesis
  proof (cases "scalar_one_or_none ?f = Inr None")
    case True
    then have "\<forall>u \<in> set (users d). u_username u \<noteq> uc_username p \<and> (uc_email p \<noteq> None \<longrightarrow> u_email u \<noteq> uc_email p)"
      using none by (auto simp: filter_empty_conv)
    then show ?thesis
      using True by (cases "hash_password lib (ri_salt ri) (uc_password p)")
        (auto simp: register_def new_user_def Let_def)
  next
    case False
    then show ?thesis by (auto simp: register_def split: sum.splits option.splits)
  qed
qed

lemma wf_add_user:
  assumes w: "wf_db d" and n: "\<forall>x \<in> set (users d). u_username x \<noteq> u_username u \<and> (u_email u \<noteq> None \<longrightarrow> u_email x \<noteq> u_email u)"
    and i: "u_id u = users_seq d"
  shows "wf_db (d\<lparr>users := users d @ [u], users_seq := users_seq d + 1\<rparr>)"
proof -
  have k: "keyed u_id (users_seq d) (users d)" "distinct (map u_username (users d))"
    "distinct (map u_email (filter (\<lambda>x. u_email x \<noteq> None) (users d)))"
    using w by (auto simp: wf_db_def wf_users_def)
  have "keyed u_id (users_seq d + 1) (users d @ [u])"
    using k(1) i by (auto simp: keyed_def list_all_iff)
  moreover have "distinct (map u_username (users d @ [u]))" using k(2) n by auto
  moreover have "distinct (map u_email (filter (\<lambda>x. u_email x \<noteq> None) (users d @ [u])))" using k(3) n by auto
  moreover have "wf_jobs (users d @ [u]) (jobs d) (jobs_seq d)" using w by (auto simp: wf_db_def wf_jobs_def)
  ultimately show ?thesis using w by (simp add: wf_db_def wf_users_def)
qed

lemma run_ok_register:
  assumes "wf_db d"
  shows "run_ok d (snd (register lib cfg ri p d))"
proof -
  have "wf_db (snd (register lib cfg ri p d)) \<and> runs (snd (register lib cfg ri p d)) = runs d \<and>
      runs_seq (snd (register lib cfg ri p d)) = runs_seq d"
    using register_cases[of lib cfg ri p d] assms wf_add_user[OF assms] by (auto simp: new_user_def)
  then show ?thesis using assms by (auto simp: run_ok_def row_ok_refl get_run_row_def)
qed

text \<open>The only row that a login can match, when no e-mail address equals the user name.\<close>

lemma login_row:
  assumes w: "wf_db d" and u: "u \<in> set (users d)" and amb: "\<forall>x \<in> set (users d). u_email x = Some (u_username u) \<longrightarrow> x = u"
  shows "scalar_one_or_none (filter (\<lambda>x. u_username x = u_username u \<or> u_email x = Some (u_username u)) (users d)) = Inr (Some u)"
proof -
  let ?f = "filter (\<lambda>x. u_username x = u_username u \<or> u_email x = Some (u_username u)) (users d)"
  have d: "distinct (map u_username (users d))" using w by (simp add: wf_db_def wf_users_def)
  have s: "set ?f = {u}" using u d amb by (auto simp: distinct_map inj_on_def)
  have "distinct ?f" using d by (simp add: distinct_map)
  then have "length ?f = 1" using distinct_card[of ?f] by (simp only: s) simp
  then obtain x where "?f = [x]" by (cases ?f) auto
  then show ?thesis using s by simp
qed


section \<open>Properties\<close>

text \<open>
  Tokens. A token decodes, under the same key, to exactly the claims it was
  made from until its expiry second has passed, and to nothing afterwards.
\<close>

lemma token_roundtrip:
  assumes "json_loads lib (json_dumps (token_payload uid name now delta)) =
      Inr (JObj (claims_json (token_payload uid name now delta)))"
  shows "decode_access_token lib key now' (create_access_token lib uid name key now delta) =
    Inr (if timestamp (now + delta) < timestamp now' then None
         else Some [(''sub'', JStr (int_str uid)), (''username'', JStr name), (''iat'', JInt (timestamp now)),
                    (''exp'', JInt (timestamp (now + delta)))])"
  using decode_signed[OF assms, of key now']
  by (simp add: create_access_token_def Let_def check_exp_def claims_json_def token_payload_def)

text \<open>A library for the closed examples: it reads back the tokens of one user.\<close>

definition sample_auth :: auth_lib where
  "sample_auth = \<lparr>hmac_sha256 = (\<lambda>k m. k), pbkdf2 = (\<lambda>pw salt n. Inr pw),
     json_loads = (\<lambda>s. if s = json_dumps (token_payload 2 ''bob'' (sec 100) (sec 86400))
                        then Inr (JObj (claims_json (token_payload 2 ''bob'' (sec 100) (sec 86400)))) else Inl ValueError)\<rparr>"

definition sample_reg :: reg_input where
  "sample_reg = \<lparr>ri_salt = ''salt'', ri_created = 0, ri_updated = 0, ri_now = sec 100\<rparr>"

definition sample_signup :: user_create where
  "sample_signup = \<lparr>uc_username = ''bob'', uc_password = ''correct horse'', uc_email = None\<rparr>"

lemma sample_auth_reads:
  "json_loads sample_auth (json_dumps (token_payload 2 ''bob'' (sec 100) (sec 86400))) =
     Inr (JObj (claims_json (token_payload 2 ''bob'' (sec 100) (sec 86400))))"
  by (simp add: sample_auth_def)

definition bob_credentials :: "(string \<times> string) option" where
  "bob_credentials = Some (''Bearer'', create_access_token sample_auth 2 ''bob'' (auth_secret_key default_settings) (sec 100) (sec 86400))"

lemma bob_recognised:
  assumes "get_by u_id 2 (users d) = Some (mk_user 2 ''bob'' None)"
  shows "get_current_user sample_auth default_settings (sec 5000) bob_credentials d = Inr (mk_user 2 ''bob'' None)"
proof -
  let ?t = "create_access_token sample_auth 2 ''bob'' (auth_secret_key default_settings) (sec 100) (sec 86400)"
  have "decode_access_token sample_auth (auth_secret_key default_settings) (sec 5000) ?t =
      check_exp (sec 5000) (JObj (claims_json (token_payload 2 ''bob'' (sec 100) (sec 86400))))"
    unfolding create_access_token_def Let_def by (rule decode_signed[OF sample_auth_reads])
  moreover have "lower ''Bearer'' = ''bearer''" by code_simp
  ultimately show ?thesis
    using assms by (simp add: bob_credentials_def get_current_user_def check_exp_def claims_json_def token_payload_def
        timestamp_def sec_def py_int_int_str mk_user_def)
qed

lemma sample_hash: "\<exists>h. hash_password sample_auth ''salt'' ''correct horse'' = Inr h"
  by (simp add: hash_password_def sample_auth_def)

lemma sample_registered:
  "\<exists>h. register sample_auth default_settings sample_reg sample_signup sample_db =
     (Inr (token_for_user sample_auth default_settings (sec 100) (new_user sample_db sample_reg sample_signup h)),
      sample_db\<lparr>users := users sample_db @ [new_user sample_db sample_reg sample_signup h], users_seq := 3\<rparr>)"
  using sample_hash by (auto simp: register_def sample_reg_def sample_signup_def sample_defs new_user_def Let_def)

text \<open>
  Claim C17: only signed, unexpired tokens name a user. Whenever a request is
  attributed to a user, its token is a text followed by the encoded HMAC of exactly
  that text under the server's key, the claims in it have an expiry that has not
  passed, their subject is the user's number, and the user is active.
\<close>

theorem current_user_signed:
  assumes "get_current_user lib cfg now credentials d = Inr u"
  shows "\<exists>scheme raw claims ex v. credentials = Some (scheme,
      raw @ CHR ''.'' # b64encode (hmac_sha256 lib (auth_secret_key cfg) raw)) \<and> lower scheme = ''bearer'' \<and>
    (\<exists>plain. b64decode raw = Inr plain \<and> json_loads lib plain = Inr (JObj claims)) \<and>
    map_of claims ''exp'' = Some ex \<and> (\<exists>t. int_value ex = Some t \<and> timestamp now \<le> t) \<and>
    map_of claims ''sub'' = Some v \<and> subject_id v = Some (u_id u) \<and> u \<in> set (users d) \<and> u_is_active u"
proof -
  obtain scheme token claims v i where c: "credentials = Some (scheme, token)" "lower scheme = ''bearer''"
    and t: "decode_access_token lib (auth_secret_key cfg) now token = Inr (Some claims)"
    and s: "map_of claims ''sub'' = Some v" "subject_id v = Some i" "get_by u_id i (users d) = Some u" "u_is_active u"
    using assms by (auto simp: get_current_user_def split: option.splits prod.splits if_splits sum.splits)
  obtain raw sg plain where p: "split_max (CHR ''.'') 1 token = [raw, sg]"
      "b64encode (hmac_sha256 lib (auth_secret_key cfg) raw) = sg" "b64decode raw = Inr plain"
    and l: "json_loads lib plain = Inr (JObj claims)" and e: "check_exp now (JObj claims) = Inr (Some claims)"
    using t by (auto simp: decode_access_token_def check_exp_def split: list.splits if_splits sum.splits json.splits option.splits)
  have "token = raw @ CHR ''.'' # sg" using p(1) by (simp only: split_max_one)
  moreover obtain ex tt where "map_of claims ''exp'' = Some ex" "int_value ex = Some tt" "timestamp now \<le> tt"
    using e by (auto simp: check_exp_def split: option.splits if_splits)
  ultimately show ?thesis using c s p(2,3) l get_by_SomeD[OF s(3)] by blast
qed

theorem current_user_signed_witness:
  "\<exists>u d' scheme raw claims ex v credentials. get_current_user sample_auth default_settings (sec 5000) credentials d' = Inr u \<and>
     u_username u = ''bob'' \<and>
     credentials = Some (scheme, raw @ CHR ''.'' # b64encode (hmac_sha256 sample_auth (auth_secret_key default_settings) raw)) \<and>
     map_of claims ''exp'' = Some ex \<and> int_value ex \<noteq> None \<and> map_of claims ''sub'' = Some v \<and> subject_id v = Some (u_id u) \<and>
     u \<in> set (users d')"
proof -
  let ?u = "mk_user 2 ''bob'' None" and ?d = "sample_db\<lparr>users := [mk_user 2 ''bob'' None]\<rparr>"
  have g: "get_current_user sample_auth default_settings (sec 5000) bob_credentials ?d = Inr ?u"
    by (rule bob_recognised) (simp add: get_by_def mk_user_def)
  have "u_username ?u = ''bob''" by (simp add: mk_user_def)
  then show ?thesis using g current_user_signed[OF g] by blast
qed

text \<open>
  Claim C18: registering, logging in and being recognised. A registration keeps the
  constraints; if nobody's e-mail address is the new user name, logging in with the
  same password gives a token for that user, another password (one that does not
  derive the same key) is refused, and until its expiry the token identifies the
  user's row.
\<close>

theorem register_login:
  assumes w: "wf_db d" and r: "register lib cfg ri p d = (Inr out, d')"
    and amb: "\<forall>u \<in> set (users d). u_email u \<noteq> Some (uc_username p)"
    and j: "json_loads lib (json_dumps (token_payload (users_seq d) (uc_username p) now (sec (auth_token_expire_minutes cfg * 60)))) =
      Inr (JObj (claims_json (token_payload (users_seq d) (uc_username p) now (sec (auth_token_expire_minutes cfg * 60)))))"
  shows "\<exists>u. u \<in> set (users d') \<and> u_id u = users_seq d \<and> to_user out = UserOut u \<and> wf_db d' \<and>
    login lib cfg now \<lparr>ul_username = uc_username p, ul_password = uc_password p\<rparr> d' =
      Inr (token_for_user lib cfg now u) \<and>
    (\<forall>pw k. pbkdf2 lib pw (ri_salt ri) PBKDF2_ITERATIONS = Inr k \<and>
        pbkdf2 lib (uc_password p) (ri_salt ri) PBKDF2_ITERATIONS \<noteq> Inr k \<longrightarrow>
      login lib cfg now \<lparr>ul_username = uc_username p, ul_password = pw\<rparr> d' = Inl login_error) \<and>
    (\<forall>t. timestamp t \<le> timestamp (now + sec (auth_token_expire_minutes cfg * 60)) \<longrightarrow>
      get_current_user lib cfg t (Some (''Bearer'', to_access_token (token_for_user lib cfg now u))) d' = Inr u)"
proof -
  obtain h where h: "hash_password lib (ri_salt ri) (uc_password p) = Inr h"
    and out: "out = token_for_user lib cfg (ri_now ri) (new_user d ri p h)"
    and d': "d' = d\<lparr>users := users d @ [new_user d ri p h], users_seq := users_seq d + 1\<rparr>"
    and new: "\<forall>u \<in> set (users d). u_username u \<noteq> uc_username p \<and> (uc_email p \<noteq> None \<longrightarrow> u_email u \<noteq> uc_email p)"
    using register_cases[of lib cfg ri p d] r by auto
  let ?u = "new_user d ri p h"
  have w': "wf_db d'" unfolding d' by (rule wf_add_user[OF w]) (use new in \<open>simp_all add: new_user_def\<close>)
  have u: "to_user out = UserOut ?u" "u_username ?u = uc_username p" "u_is_active ?u" "u_password_hash ?u = h" "u_id ?u = users_seq d"
    by (simp_all add: out token_for_user_def Let_def new_user_def)
  obtain k where k: "pbkdf2 lib (uc_password p) (ri_salt ri) PBKDF2_ITERATIONS = Inr k"
    using h by (auto simp: hash_password_def split: sum.splits)
  note ph = parse_hash_hash[OF k h]
  have row: "scalar_one_or_none (filter (\<lambda>x. u_username x = uc_username p \<or> u_email x = Some (uc_username p)) (users d')) =
      Inr (Some ?u)"
    using login_row[OF w', of ?u] amb u(2) by (auto simp: d')
  have lg: "login lib cfg now \<lparr>ul_username = uc_username p, ul_password = pw\<rparr> d' =
      (if pbkdf2 lib pw (ri_salt ri) PBKDF2_ITERATIONS = Inr k then Inr (token_for_user lib cfg now ?u)
       else case pbkdf2 lib pw (ri_salt ri) PBKDF2_ITERATIONS of Inl e \<Rightarrow> Inl e | Inr _ \<Rightarrow> Inl login_error)" for pw
    by (auto simp: login_def row u verify_password_def ph split: sum.splits)
  have id: "get_by u_id (users_seq d) (users d') = Some ?u"
    using get_by_distinct[of u_id "users d'" "users_seq d" ?u] w' u(5) by (simp add: wf_db_def wf_users_def keyed_def d')
  have "lower ''Bearer'' = ''bearer''" by code_simp
  then have cu: "get_current_user lib cfg t (Some (''Bearer'', to_access_token (token_for_user lib cfg now ?u))) d' = Inr ?u"
    if "timestamp t \<le> timestamp (now + sec (auth_token_expire_minutes cfg * 60))" for t
    using that id decode_signed[OF j, of "auth_secret_key cfg" t] u
    by (simp add: get_current_user_def token_for_user_def create_access_token_def Let_def check_exp_def claims_json_def
        token_payload_def py_int_int_str)
  have "?u \<in> set (users d')" by (simp add: d')
  then show ?thesis using w' lg k cu u by (intro exI[of _ ?u]) auto
qed

theorem register_login_witness:
  "\<exists>out d' u. register sample_auth default_settings sample_reg sample_signup sample_db = (Inr out, d') \<and> wf_db d' \<and>
     to_user out = UserOut u \<and>
     login sample_auth default_settings (sec 100) \<lparr>ul_username = ''bob'', ul_password = ''correct horse''\<rparr> d' =
       Inr (token_for_user sample_auth default_settings (sec 100) u) \<and>
     login sample_auth default_settings (sec 100) \<lparr>ul_username = ''bob'', ul_password = ''guess''\<rparr> d' = Inl login_error \<and>
     get_current_user sample_auth default_settings (sec 5000)
       (Some (''Bearer'', to_access_token (token_for_user sample_auth default_settings (sec 100) u))) d' = Inr u"
proof -
  obtain out d' where r: "register sample_auth default_settings sample_reg sample_signup sample_db = (Inr out, d')"
    using sample_registered by blast
  have s: "uc_username sample_signup = ''bob''" "uc_password sample_signup = ''correct horse''" "ri_salt sample_reg = ''salt''"
    by (simp_all add: sample_signup_def sample_reg_def)
  have e: "auth_token_expire_minutes default_settings * 60 = 86400" "users_seq sample_db = 2"
    by (simp_all add: default_settings_def sample_db_def)
  have amb: "\<forall>u \<in> set (users sample_db). u_email u \<noteq> Some (uc_username sample_signup)"
    by (simp add: sample_defs)
  note rl = register_login[OF sample_wf r amb, of "sec 100", unfolded e s, OF sample_auth_reads]
  have "timestamp (sec 5000) \<le> timestamp (sec 100 + sec 86400)" by (simp add: timestamp_def sec_def)
  moreover have "pbkdf2 sample_auth ''guess'' ''salt'' PBKDF2_ITERATIONS = Inr ''guess''"
    "pbkdf2 sample_auth ''correct horse'' ''salt'' PBKDF2_ITERATIONS \<noteq> Inr ''guess''"
    by (simp_all add: sample_auth_def)
  ultimately show ?thesis using r rl by blast
qed

text \<open>
  A user can be locked out. The e-mail address of a registration may be an
  existing user's name: nothing compares the two. Once such a registration has been
  accepted, every login under that name raises \<^verbatim>\<open>MultipleResultsFound\<close>, whatever the
  password.
\<close>

lemma register_locks_out:
  assumes w: "wf_db d" and v: "v \<in> set (users d)" and e: "uc_email p = Some (u_username v)"
    and r: "register lib cfg ri p d = (Inr out, d')"
  shows "login lib cfg now \<lparr>ul_username = u_username v, ul_password = pw\<rparr> d' = Inl MultipleResultsFound"
proof -
  obtain h where d': "d' = d\<lparr>users := users d @ [new_user d ri p h], users_seq := users_seq d + 1\<rparr>"
    using register_cases[of lib cfg ri p d] r by auto
  let ?P = "\<lambda>x. u_username x = u_username v \<or> u_email x = Some (u_username v)"
  have "?P (new_user d ri p h)" using e by (simp add: new_user_def)
  moreover obtain x xs where "filter ?P (users d) = x # xs" using v by (cases "filter ?P (users d)") (auto simp: filter_empty_conv)
  ultimately have "\<exists>y ys. filter ?P (users d') = x # y # ys" by (cases xs) (auto simp: d')
  then show ?thesis by (auto simp: login_def)
qed

definition sample_intruder :: user_create where
  "sample_intruder = \<lparr>uc_username = ''mallory'', uc_password = ''correct horse'', uc_email = Some ''alice''\<rparr>"

end
