(* ===== verification/Ownership.thy ===== *)
theory Ownership
  imports Job_Types Runs_Api Auth
begin

text \<open>
  Whose data is whose. A dependency connects jobs of one owner, which every
  transaction keeps; and what a handler of \<^verbatim>\<open>routers/jobs.py\<close> or \<^verbatim>\<open>routers/runs.py\<close>
  does for one user leaves the rows of all others as they are.
\<close>

section \<open>Owners\<close>

definition owner_of :: "db \<Rightarrow> int \<Rightarrow> int option" where
  "owner_of d i = (case get_job_row d i of None \<Rightarrow> None | Some j \<Rightarrow> j_owner_user_id j)"

definition run_owner :: "db \<Rightarrow> int \<Rightarrow> int option" where
  "run_owner d i = (case get_run_row d i of None \<Rightarrow> None | Some r \<Rightarrow> owner_of d (r_job_id r))"

definition deps_owned :: "db \<Rightarrow> bool" where
  "deps_owned d \<longleftrightarrow> list_all (\<lambda>x. owner_of d (d_job_id x) = owner_of d (d_depends_on_job_id x)) (deps d)"

text \<open>The rows that do not belong to a user.\<close>

definition foreign :: "int \<Rightarrow> db \<Rightarrow> job list \<times> job_run list \<times> job_dependency list \<times> job_run_log list" where
  "foreign uid d =
     (filter (\<lambda>j. j_owner_user_id j \<noteq> Some uid) (jobs d), filter (\<lambda>r. owner_of d (r_job_id r) \<noteq> Some uid) (runs d),
      filter (\<lambda>x. owner_of d (d_job_id x) \<noteq> Some uid) (deps d), filter (\<lambda>l. run_owner d (l_run_id l) \<noteq> Some uid) (logs d))"

lemma owner_of_same_jobs: "jobs d' = jobs d \<Longrightarrow> owner_of d' i = owner_of d i"
  by (simp add: owner_of_def get_job_row_def)

lemma owner_of_update: "keeps_job_keys f \<Longrightarrow> owner_of (update_jobs p f d) i = owner_of d i"
  by (auto simp: owner_of_def get_job_row_update_jobs keeps_job_keys_def split: option.splits)

lemma owner_of_row: "get_job_row d i = Some j \<Longrightarrow> owner_of d i = j_owner_user_id j"
  by (simp add: owner_of_def)

lemma owned_by_owner: "wf_db d \<Longrightarrow> owned_by d uid r \<longleftrightarrow> owner_of d (r_job_id r) = Some uid"
  by (auto simp: owned_by_iff owner_of_def split: option.splits)

lemma deps_owned_frame:
  "deps d' = deps d \<Longrightarrow> (\<And>i. owner_of d' i = owner_of d i) \<Longrightarrow> deps_owned d \<Longrightarrow> deps_owned d'"
  by (simp add: deps_owned_def)

section \<open>Dependencies stay within one owner\<close>

lemma deps_owned_set:
  assumes d: "deps_owned d" and o: "\<forall>k \<in> set ds. owner_of d k = owner_of d i"
  shows "deps_owned (set_dependencies i ds d)"
proof -
  have "owner_of (set_dependencies i ds d) k = owner_of d k" for k by (rule owner_of_same_jobs) simp
  moreover have "owner_of d (d_job_id x) = owner_of d (d_depends_on_job_id x)" if "x \<in> set (dep_rows sq i (fromkeys ds))" for x sq
    using dep_rows_in[OF that] o by auto
  ultimately show ?thesis using d by (auto simp: deps_owned_def list_all_iff set_dependencies_def Let_def)
qed

lemma wf_jobs_fresh: "wf_db d \<Longrightarrow> jobs_seq d \<notin> j_id ` set (jobs d)"
  by (simp add: wf_db_def wf_jobs_def keyed_fresh)

lemma owner_of_added:
  assumes "wf_db d" and "j_id j = jobs_seq d"
  shows "owner_of (d\<lparr>jobs := jobs d @ [j], jobs_seq := s\<rparr>) i = (if i = jobs_seq d then j_owner_user_id j else owner_of d i)"
proof -
  have "get_by j_id (jobs_seq d) (jobs d) = None"
    using wf_jobs_fresh[OF assms(1)] by (simp add: get_by_None_iff)
  then show ?thesis using assms(2) by (auto simp: owner_of_def get_job_row_def get_by_append split: option.splits)
qed

lemma deps_owned_create:
  assumes w: "wf_db d" and d: "deps_owned d"
  shows "deps_owned (snd (api_create_job created updated p uid d))"
proof (cases "crud_create_job created updated p uid d")
  case (Pair x d')
  show ?thesis
  proof (cases x)
    case (Inl e)
    then show ?thesis using Pair d crud_create_job_err[of created updated p uid d e d'] by (simp add: api_create_job_def)
  next
    case (Inr j)
    note C = crud_create_job_ok[OF w Pair[unfolded Inr]]
    let ?d = "d\<lparr>jobs := jobs d @ [j], jobs_seq := jobs_seq d + 1\<rparr>"
    note own = owner_of_added[OF w C(2), of "jobs_seq d + 1"]
    have old: "k \<noteq> jobs_seq d" if "k \<in> j_id ` set (jobs d)" for k
      using that wf_jobs_fresh[OF w] by metis
    have "deps_owned ?d"
      unfolding deps_owned_def list_all_iff
    proof
      fix x assume "x \<in> set (deps ?d)"
      then have x: "x \<in> set (deps d)" by simp
      then have "d_job_id x \<in> j_id ` set (jobs d)" "d_depends_on_job_id x \<in> j_id ` set (jobs d)"
        using w by (simp_all add: wf_db_def wf_deps_def)
      then have "d_job_id x \<noteq> jobs_seq d" "d_depends_on_job_id x \<noteq> jobs_seq d" using old by blast+
      then show "owner_of ?d (d_job_id x) = owner_of ?d (d_depends_on_job_id x)"
        using d x by (simp add: own deps_owned_def list_all_iff)
    qed
    moreover have "owner_of ?d k = owner_of ?d (j_id j)" if "k \<in> set (b_depends_on p)" for k
    proof -
      from bspec[OF C(7) that] obtain x where x: "x \<in> set (jobs d)" "j_id x = k" "j_owner_user_id x = Some uid" by auto
      then have "owner_of d k = Some uid" using get_job_row_iff[OF w, of k x] by (simp add: owner_of_def)
      moreover have "k \<in> j_id ` set (jobs d)" using x by auto
      then have "k \<noteq> jobs_seq d" by (rule old)
      ultimately show ?thesis using own C(2,3) by simp
    qed
    ultimately show ?thesis using deps_owned_set Pair Inr C(5) by (simp add: api_create_job_def)
  qed
qed

text \<open>What a successful update does, seen from the handler.\<close>

lemma api_update_job_cases:
  assumes w: "wf_db d"
  obtains (same) "snd (api_update_job cv et now i u uid d) = d"
  | (changed) j b ds where "get_job_row d i = Some j" "j_owner_user_id j = Some uid"
      "snd (api_update_job cv et now i u uid d) =
        (case ds of None \<Rightarrow> update_jobs (\<lambda>x. x = j) (touch now b) d
         | Some xs \<Rightarrow> set_dependencies i xs (update_jobs (\<lambda>x. x = j) (touch now b) d))"
      "\<And>xs k. ds = Some xs \<Longrightarrow> k \<in> set xs \<Longrightarrow> owner_of d k = Some uid"
proof (cases "owned_job i uid d")
  case (Inr j)
  have row: "get_job_row d i = Some j" "j_owner_user_id j = Some uid" using Inr owned_job_iff(1)[OF w] by auto
  have id: "j_id j = i" using get_job_row_SomeD[OF row(1)] by simp
  obtain x d' where c: "crud_update_job cv et now j u d = (x, d')" by (metis prod.exhaust)
  show thesis
  proof (cases x)
    case (Inl e)
    have "d' = d" using c Inl by (auto simp: crud_update_job_def Let_def split: sum.splits option.splits)
    then show thesis using same \<open>owned_job i uid d = Inr j\<close> c Inl by (simp add: api_update_job_def)
  next
    case (Inr j')
    have jr: "get_job_row d (j_id j) = Some j" using row id by simp
    obtain ds b where d': "d' = (case ds of None \<Rightarrow> update_jobs (\<lambda>x. x = j) (touch now b) d
              | Some xs \<Rightarrow> set_dependencies (j_id j) xs (update_jobs (\<lambda>x. x = j) (touch now b) d))"
      and o: "\<And>xs. ds = Some xs \<Longrightarrow> (\<forall>i \<in> set xs. \<exists>x \<in> set (jobs d). j_id x = i \<and> j_owner_user_id x = j_owner_user_id j)"
      by (rule crud_update_job_ok[OF w jr c[unfolded Inr]]) blast
    have own: "owner_of d k = Some uid" if "ds = Some xs" "k \<in> set xs" for xs k
    proof -
      obtain x where "x \<in> set (jobs d)" "j_id x = k" "j_owner_user_id x = Some uid"
        using o[OF \<open>ds = Some xs\<close>] \<open>k \<in> set xs\<close> row(2) by metis
      then show ?thesis using get_job_row_iff[OF w, of k x] by (simp add: owner_of_def)
    qed
    have "snd (api_update_job cv et now i u uid d) = (case ds of None \<Rightarrow> update_jobs (\<lambda>x. x = j) (touch now b) d
              | Some xs \<Rightarrow> set_dependencies i xs (update_jobs (\<lambda>x. x = j) (touch now b) d))"
      using \<open>owned_job i uid d = Inr j\<close> c Inr d'[unfolded id] by (simp add: api_update_job_def)
    then show thesis by (rule changed[OF row _ own])
  qed
qed (use same in \<open>simp add: api_update_job_def\<close>)

lemma deps_owned_update:
  assumes w: "wf_db d" and d: "deps_owned d"
  shows "deps_owned (snd (api_update_job cv et now i u uid d))"
  using w
proof (cases rule: api_update_job_cases[where cv = cv and et = et and now = now and i = i and u = u and uid = uid])
  case (changed j b ds)
  have "deps_owned (update_jobs (\<lambda>x. x = j) (touch now b) d)"
    by (rule deps_owned_frame[OF _ _ d]) (simp_all add: owner_of_update touch_keys)
  then show ?thesis
    using changed(3,4) owner_of_row[OF changed(1)] changed(2)
    by (auto split: option.splits intro!: deps_owned_set simp: owner_of_update touch_keys)
qed (use d in simp)

lemma owner_of_delete:
  assumes "wf_db d"
  shows "owner_of (crud_delete_job i d) k = (if k = i then None else owner_of d k)"
  using get_by_filter_distinct[OF wf_db_jobs_distinct[OF assms], of k "\<lambda>j. j_id j \<noteq> i"] get_by_SomeD[of j_id k "jobs d"]
  by (cases "get_by j_id k (jobs d)") (auto simp: owner_of_def get_job_row_def crud_delete_job_def Let_def)

lemma deps_owned_delete:
  assumes w: "wf_db d" and d: "deps_owned d"
  shows "deps_owned (snd (api_delete_job i uid d))"
proof -
  have "deps_owned (crud_delete_job k d)" for k
    using d by (auto simp: deps_owned_def list_all_iff owner_of_delete[OF w]) (auto simp: crud_delete_job_def Let_def)
  then show ?thesis using d by (auto simp: api_delete_job_def split: sum.splits)
qed

lemma schedule_job_owners:
  "schedule_job lib ck job d = Some (x, d') \<Longrightarrow> deps d' = deps d \<and> owner_of d' i = owner_of d i"
proof -
  have "owner_of (set_last_scheduled upd k t d1) i = owner_of d1 i" for upd k t d1
    by (simp add: set_last_scheduled_def owner_of_update keeps_last)
  moreover have "deps (set_last_scheduled upd k t d1) = deps d1" for upd k t d1 by (simp add: set_last_scheduled_def)
  moreover have "owner_of (d\<lparr>runs := rs, runs_seq := n\<rparr>) i = owner_of d i" for rs n by (rule owner_of_same_jobs) simp
  moreover assume "schedule_job lib ck job d = Some (x, d')"
  ultimately show ?thesis
    by (auto simp: schedule_job_def insert_run_def Let_def split: option.splits sum.splits if_splits)
qed

lemma deps_owned_schedule: "schedule_loop lib ck js acc d = Some (x, d') \<Longrightarrow> deps_owned d \<Longrightarrow> deps_owned d'"
proof (induction lib ck js acc d rule: schedule_loop.induct)
  case (2 lib ck job js acc d)
  obtain y d1 where s: "schedule_job lib ck job d = Some (y, d1)"
    using 2(3) by (auto split: option.splits)
  have "deps_owned d1" using deps_owned_frame[OF _ _ 2(4)] schedule_job_owners[OF s] by blast
  then show ?case using 2 s by (cases y) (auto split: option.splits)
qed simp


section \<open>The rows of other users\<close>

lemma run_in_logs: "wf_db d \<Longrightarrow> l \<in> set (logs d) \<Longrightarrow> \<exists>r. get_run_row d (l_run_id l) = Some r"
  using get_by_None_iff[of r_id "l_run_id l" "runs d"]
  by (cases "get_run_row d (l_run_id l)") (auto simp: get_run_row_def wf_db_def wf_logs_def)

lemma foreign_new_runs:
  assumes w: "wf_db d" and eq: "jobs d' = jobs d" "deps d' = deps d" "logs d' = logs d"
    and r: "runs d' = runs d @ rs" and o: "\<forall>r \<in> set rs. owner_of d (r_job_id r) = Some uid"
  shows "foreign uid d' = foreign uid d"
proof -
  have own: "owner_of d' i = owner_of d i" for i using eq(1) by (rule owner_of_same_jobs)
  have "run_owner d' (l_run_id l) = run_owner d (l_run_id l)" if "l \<in> set (logs d)" for l
    using run_in_logs[OF w that] by (auto simp: run_owner_def own get_run_row_def r get_by_append)
  then have "filter (\<lambda>l. run_owner d' (l_run_id l) \<noteq> Some uid) (logs d) = filter (\<lambda>l. run_owner d (l_run_id l) \<noteq> Some uid) (logs d)"
    by (intro filter_cong) simp_all
  moreover have "filter (\<lambda>r. owner_of d (r_job_id r) \<noteq> Some uid) rs = []" using o by (simp add: filter_empty_conv)
  ultimately show ?thesis by (simp add: foreign_def own eq r)
qed

lemma foreign_one_run:
  assumes w: "wf_db d" and k: "keeps_keys f" and p: "\<And>r. p r \<Longrightarrow> r_id r = i" and o: "run_owner d i = Some uid"
  shows "foreign uid (update_runs p f d) = foreign uid d"
proof -
  have own: "owner_of (update_runs p f d) i = owner_of d i" for i by (rule owner_of_same_jobs) simp
  have job: "r_job_id (f r) = r_job_id r" for r using k by (simp add: keeps_keys_def)
  have "run_owner (update_runs p f d) k = run_owner d k" for k
    by (auto simp: run_owner_def own job get_run_row_update[OF k] split: option.splits)
  moreover have "filter (\<lambda>r. owner_of d (r_job_id r) \<noteq> Some uid) (update_where p f (runs d)) =
      filter (\<lambda>r. owner_of d (r_job_id r) \<noteq> Some uid) (runs d)"
  proof -
    have mine: "owner_of d (r_job_id r) = Some uid" if "r \<in> set (runs d)" "p r" for r
      using o p[OF that(2)] that(1) get_run_row_iff[OF w, of i r] by (simp add: run_owner_def)
    have "filter (\<lambda>r. owner_of d (r_job_id r) \<noteq> Some uid) (update_where p f rs) = filter (\<lambda>r. owner_of d (r_job_id r) \<noteq> Some uid) rs"
      if "set rs \<subseteq> set (runs d)" for rs
      using that mine by (induction rs) (auto simp: update_where_def job)
    then show ?thesis by simp
  qed
  ultimately show ?thesis by (simp add: foreign_def own) (simp add: update_runs_def)
qed

lemma foreign_create:
  assumes w: "wf_db d"
  shows "foreign uid (snd (api_create_job created updated p uid d)) = foreign uid d"
proof (cases "crud_create_job created updated p uid d")
  case (Pair x d')
  show ?thesis
  proof (cases x)
    case (Inl e)
    then show ?thesis using Pair crud_create_job_err[of created updated p uid d e d'] by (simp add: api_create_job_def)
  next
    case (Inr j)
    note C = crud_create_job_ok[OF w Pair[unfolded Inr]]
    have own: "owner_of d' i = (if i = jobs_seq d then Some uid else owner_of d i)" for i
      using owner_of_added[OF w C(2), of "jobs_seq d + 1" i] C(3,4)
      by (simp add: owner_of_def get_job_row_def)
    have fresh: "i \<noteq> jobs_seq d" if "i \<in> j_id ` set (jobs d)" for i using that wf_jobs_fresh[OF w] by metis
    have r: "r_job_id r \<noteq> jobs_seq d" if "r \<in> set (runs d)" for r
      using w that by (intro fresh) (simp add: wf_db_def wf_runs_def)
    have x: "d_job_id x \<noteq> jobs_seq d" if "x \<in> set (deps d)" for x
      using w that by (intro fresh) (simp add: wf_db_def wf_deps_def)
    have l: "run_owner d' (l_run_id l) = run_owner d (l_run_id l)" if "l \<in> set (logs d)" for l
    proof -
      have "get_run_row d' k = get_run_row d k" for k by (simp add: C(5) get_run_row_def)
      then show ?thesis using run_in_logs[OF w that] r get_run_row_SomeD[of d "l_run_id l"] by (auto simp: run_owner_def own)
    qed
    have "deps d' = filter (\<lambda>x. d_job_id x \<noteq> jobs_seq d) (deps d) @ dep_rows (deps_seq d) (jobs_seq d) (fromkeys (b_depends_on p))"
      by (simp add: C(5) C(2) set_dependencies_def Let_def)
    moreover have "filter (\<lambda>x. d_job_id x \<noteq> jobs_seq d) (deps d) = deps d" using x by (simp add: filter_id_conv)
    moreover have "filter (\<lambda>x. owner_of d' (d_job_id x) \<noteq> Some uid) (dep_rows sq (jobs_seq d) is) = []" for sq "is"
      using dep_rows_in[of _ sq "jobs_seq d" "is"] by (auto simp: filter_empty_conv own)
    ultimately have "filter (\<lambda>x. owner_of d' (d_job_id x) \<noteq> Some uid) (deps d') = filter (\<lambda>x. owner_of d (d_job_id x) \<noteq> Some uid) (deps d)"
      using x by (simp add: own cong: filter_cong)
    moreover have "filter (\<lambda>r. owner_of d' (r_job_id r) \<noteq> Some uid) (runs d) = filter (\<lambda>r. owner_of d (r_job_id r) \<noteq> Some uid) (runs d)"
      using r by (intro filter_cong) (auto simp: own)
    moreover have "filter (\<lambda>l. run_owner d' (l_run_id l) \<noteq> Some uid) (logs d) = filter (\<lambda>l. run_owner d (l_run_id l) \<noteq> Some uid) (logs d)"
      using l by (intro filter_cong) auto
    moreover have "runs d' = runs d" "logs d' = logs d" by (simp_all add: C(5))
    ultimately have "foreign uid d' = foreign uid d" by (simp add: foreign_def C(3,4))
    then show ?thesis using Pair Inr by (simp add: api_create_job_def)
  qed
qed


lemma foreign_update:
  assumes w: "wf_db d"
  shows "foreign uid (snd (api_update_job cv et now i u uid d)) = foreign uid d"
  using w
proof (cases rule: api_update_job_cases[where cv = cv and et = et and now = now and i = i and u = u and uid = uid])
  case (changed j b ds)
  let ?d = "update_jobs (\<lambda>x. x = j) (touch now b) d" and ?d' = "snd (api_update_job cv et now i u uid d)"
  have own: "owner_of ?d k = owner_of d k" for k by (simp add: owner_of_update touch_keys)
  have "owner_of (set_dependencies i xs ?d) k = owner_of ?d k" for xs k by (rule owner_of_same_jobs) simp
  then have own': "owner_of ?d' k = owner_of d k" for k using own changed(3) by (cases ds) simp_all
  have rl: "runs ?d' = runs d" "logs ?d' = logs d" "jobs ?d' = jobs ?d" using changed(3) by (cases ds; simp)+
  have jb: "filter (\<lambda>j. j_owner_user_id j \<noteq> Some uid) (update_where (\<lambda>x. x = j) (touch now b) js) =
      filter (\<lambda>j. j_owner_user_id j \<noteq> Some uid) js" for js
    using changed(2) touch_keys[of now b] by (induction js) (auto simp: update_where_def keeps_job_keys_def)
  have mine: "owner_of d i = Some uid" using owner_of_row[OF changed(1)] changed(2) by simp
  have "filter (\<lambda>x. owner_of d (d_job_id x) \<noteq> Some uid) (dep_rows sq i is) = []" for sq "is"
    using dep_rows_in[of _ sq i "is"] mine by (auto simp: filter_empty_conv)
  moreover have "filter (\<lambda>x. owner_of d (d_job_id x) \<noteq> Some uid) (filter (\<lambda>x. d_job_id x \<noteq> i) xs) =
      filter (\<lambda>x. owner_of d (d_job_id x) \<noteq> Some uid) xs" for xs
    using mine by (induction xs) auto
  ultimately have "filter (\<lambda>x. owner_of d (d_job_id x) \<noteq> Some uid) (deps ?d') = filter (\<lambda>x. owner_of d (d_job_id x) \<noteq> Some uid) (deps d)"
    using changed(3) by (cases ds) (simp_all add: set_dependencies_def Let_def)
  moreover have "run_owner ?d' k = run_owner d k" for k by (simp add: run_owner_def get_run_row_def rl own' split: option.splits)
  ultimately show ?thesis using jb by (simp add: foreign_def own' rl) (simp add: update_jobs_def)
qed simp

lemma foreign_delete:
  assumes w: "wf_db d" and o: "deps_owned d"
  shows "foreign uid (snd (api_delete_job i uid d)) = foreign uid d"
proof (cases "owned_job i uid d")
  case (Inr j)
  have row: "get_job_row d i = Some j" "j_owner_user_id j = Some uid" using Inr owned_job_iff(1)[OF w] by auto
  then have id: "j_id j = i" and mine: "owner_of d i = Some uid" using get_job_row_SomeD owner_of_row by auto
  let ?d = "crud_delete_job i d"
  have jobs: "filter (\<lambda>x. j_id x \<noteq> i \<and> j_owner_user_id x \<noteq> Some uid) (jobs d) = filter (\<lambda>x. j_owner_user_id x \<noteq> Some uid) (jobs d)"
    using row get_job_row_iff[OF w] by (intro filter_cong) (auto, metis option.inject)
  have runs: "filter (\<lambda>r. r_job_id r \<noteq> i \<and> owner_of ?d (r_job_id r) \<noteq> Some uid) (runs d) =
      filter (\<lambda>r. owner_of d (r_job_id r) \<noteq> Some uid) (runs d)"
    using mine by (intro filter_cong) (auto simp: owner_of_delete[OF w])
  have deps: "filter (\<lambda>x. (d_job_id x \<noteq> i \<and> d_depends_on_job_id x \<noteq> i) \<and> owner_of ?d (d_job_id x) \<noteq> Some uid) (deps d) =
      filter (\<lambda>x. owner_of d (d_job_id x) \<noteq> Some uid) (deps d)"
    using mine o by (intro filter_cong) (auto simp: owner_of_delete[OF w] deps_owned_def list_all_iff)
  have logs: "filter (\<lambda>l. l_run_id l \<notin> set (map r_id (filter (\<lambda>r. r_job_id r = i) (runs d))) \<and> run_owner ?d (l_run_id l) \<noteq> Some uid) (logs d) =
      filter (\<lambda>l. run_owner d (l_run_id l) \<noteq> Some uid) (logs d)"
  proof (intro filter_cong refl)
    fix l assume "l \<in> set (logs d)"
    then obtain r where r: "get_run_row d (l_run_id l) = Some r" using run_in_logs[OF w] by blast
    have "l_run_id l \<in> set (map r_id (filter (\<lambda>r. r_job_id r = i) (runs d))) \<longleftrightarrow> r_job_id r = i"
    proof
      assume "l_run_id l \<in> set (map r_id (filter (\<lambda>r. r_job_id r = i) (runs d)))"
      then obtain x where x: "x \<in> set (runs d)" "r_job_id x = i" "r_id x = l_run_id l" by auto
      then have "get_run_row d (l_run_id l) = Some x" using get_run_row_iff[OF w, of "l_run_id l" x] by simp
      then show "r_job_id r = i" using r x(2) by simp
    qed (use get_run_row_SomeD[OF r] in force)
    then show "(l_run_id l \<notin> set (map r_id (filter (\<lambda>r. r_job_id r = i) (runs d))) \<and> run_owner ?d (l_run_id l) \<noteq> Some uid) =
        (run_owner d (l_run_id l) \<noteq> Some uid)"
      using r mine by (auto simp: run_owner_def delete_run_row[OF w] owner_of_delete[OF w])
  qed
  have tables: "jobs ?d = filter (\<lambda>x. j_id x \<noteq> i) (jobs d)" "runs ?d = filter (\<lambda>r. r_job_id r \<noteq> i) (runs d)"
      "deps ?d = filter (\<lambda>x. d_job_id x \<noteq> i \<and> d_depends_on_job_id x \<noteq> i) (deps d)"
      "logs ?d = filter (\<lambda>l. l_run_id l \<notin> set (map r_id (filter (\<lambda>r. r_job_id r = i) (runs d)))) (logs d)"
    by (simp_all add: crud_delete_job_def Let_def)
  have "foreign uid ?d = foreign uid d"
    unfolding foreign_def tables filter_filter jobs runs deps logs by (rule refl)
  then show ?thesis using Inr id by (simp add: api_delete_job_def)
qed (simp add: api_delete_job_def)


text \<open>Triggering appends runs of the user's own jobs only: it follows dependencies, which stay with the owner.\<close>

definition own_ext :: "int \<Rightarrow> trig_state \<Rightarrow> trig_state \<Rightarrow> bool" where
  "own_ext uid s s' \<longleftrightarrow> users (fst s') = users (fst s) \<and> jobs (fst s') = jobs (fst s) \<and> deps (fst s') = deps (fst s) \<and> logs (fst s') = logs (fst s) \<and>
     (\<exists>rs. runs (fst s') = runs (fst s) @ rs \<and> (\<forall>r \<in> set rs. owner_of (fst s) (r_job_id r) = Some uid))"

lemma own_ext_refl: "own_ext uid s s"
  by (auto simp: own_ext_def intro: exI[of _ "[]"])

lemma own_ext_trans: "own_ext uid s t \<Longrightarrow> own_ext uid t u \<Longrightarrow> own_ext uid s u"
proof -
  assume a: "own_ext uid s t" and b: "own_ext uid t u"
  obtain rs qs where "runs (fst t) = runs (fst s) @ rs" "\<forall>r \<in> set rs. owner_of (fst s) (r_job_id r) = Some uid"
    "runs (fst u) = runs (fst t) @ qs" "\<forall>r \<in> set qs. owner_of (fst t) (r_job_id r) = Some uid"
    using a b by (auto simp: own_ext_def)
  moreover have "owner_of (fst t) i = owner_of (fst s) i" for i using a by (intro owner_of_same_jobs) (simp add: own_ext_def)
  ultimately show ?thesis using a b by (auto simp: own_ext_def intro!: exI[of _ "rs @ qs"])
qed

lemma own_ext_keeps:
  assumes "own_ext uid s s'"
  shows "deps_owned (fst s') = deps_owned (fst s)" and "owner_of (fst s') i = owner_of (fst s) i"
proof -
  have own: "owner_of (fst s') i = owner_of (fst s) i" for i using assms by (intro owner_of_same_jobs) (simp add: own_ext_def)
  then show "owner_of (fst s') i = owner_of (fst s) i" .
  show "deps_owned (fst s') = deps_owned (fst s)" using assms own by (simp add: deps_owned_def own_ext_def)
qed

lemma own_ext_create:
  assumes "create_run now j trg None att st d = (x, d')" and "owner_of d j = Some uid"
  shows "own_ext uid (d, pub) (d', pub')"
  using assms by (auto simp: create_run_def insert_run_def own_ext_def Let_def split: if_splits)

lemma prepare_deps_owned:
  assumes "\<And>i t. i \<in> set ds \<Longrightarrow> own_ext uid s t \<Longrightarrow> own_ext uid t (snd (prep i t))"
  shows "own_ext uid s t \<Longrightarrow> own_ext uid t (snd (prepare_deps prep ds t))"
  using assms
proof (induction ds arbitrary: t)
  case (Cons i ds)
  obtain x t1 where p: "prep i t = (x, t1)" by (metis prod.exhaust)
  have e: "own_ext uid t t1" using Cons.prems(2)[of i t] Cons.prems(1) p by simp
  have "own_ext uid t1 (snd (prepare_deps prep ds t1))"
    by (rule Cons.IH[OF own_ext_trans[OF Cons.prems(1) e]]) (rule Cons.prems(2), auto)
  moreover have "own_ext uid t (snd (prepare_deps prep ds t))"
    by (rule Cons.IH[OF Cons.prems(1)]) (rule Cons.prems(2), auto)
  ultimately show ?case using p e own_ext_trans[OF e] by (cases x) auto
qed (simp add: own_ext_refl)

lemma prepare_owned:
  "deps_owned (fst s) \<Longrightarrow> owner_of (fst s) j = Some uid \<Longrightarrow> own_ext uid s (snd (prepare_trigger_run n ck j trg stack s))"
proof (induction n arbitrary: j trg stack s)
  case (Suc n)
  obtain d pub where s: "s = (d, pub)" by (metis prod.exhaust)
  let ?ids = "jobs_dependency_ids d j" and ?prep = "\<lambda>i. prepare_trigger_run n ck i DEPENDENCY (stack @ [j])"
  have own: "owner_of d i = Some uid" if "i \<in> set ?ids" for i
    using Suc.prems that by (auto simp: s jobs_dependency_ids_def deps_owned_def list_all_iff)
  have loop: "own_ext uid s (snd (prepare_deps ?prep ?ids s))"
  proof (rule prepare_deps_owned[OF _ own_ext_refl])
    fix i t assume i: "i \<in> set ?ids" and t: "own_ext uid s t"
    show "own_ext uid t (snd (?prep i t))"
      using Suc.IH[of t i] own_ext_keeps[OF t] Suc.prems(1) own[OF i] by (simp add: s)
  qed
  obtain x s' where p: "prepare_trigger_run (Suc n) ck j trg stack (d, pub) = (x, s')" by (metis prod.exhaust)
  then have "own_ext uid s s'"
  proof (cases rule: prepare_step)
    case (leaf d')
    then show ?thesis using own_ext_create[OF leaf(3)] Suc.prems(2) by (simp add: s)
  next
    case (fresh d1 pub1 d')
    have e: "own_ext uid s (d1, pub1)" using loop fresh(3) by (simp add: s)
    then have "owner_of d1 j = Some uid" using own_ext_keeps(2)[OF e] Suc.prems(2) by simp
    then show ?thesis using own_ext_trans[OF e own_ext_create[OF fresh(4)]] fresh(5) by simp
  qed (use loop in \<open>simp_all add: s own_ext_refl\<close>)
  then show ?case using p by (simp add: s)
qed (simp add: own_ext_refl)

lemma foreign_trigger:
  assumes w: "wf_db (w_db w)" and o: "deps_owned (w_db w)"
  shows "foreign uid (w_db (snd (trigger_job api cfg depth ck j uid w))) = foreign uid (w_db w)"
proof (cases "owned_job j uid (w_db w)")
  case (Inr job)
  have own: "owner_of (w_db w) j = Some uid" using Inr owned_job_iff(1)[OF w] by (auto simp: owner_of_def)
  have "foreign uid d' = foreign uid (w_db w)"
    if "prepare_trigger_run depth ck j MANUAL [] (w_db w, []) = (x, (d', pub))" for x d' pub
  proof -
    have "own_ext uid (w_db w, []) (d', pub)" using prepare_owned[of "(w_db w, [])" j uid depth ck MANUAL "[]"] o own that by simp
    then show ?thesis using foreign_new_runs[OF w, of d' _ uid] by (auto simp: own_ext_def)
  qed
  then show ?thesis using Inr by (auto simp: trigger_db split: sum.splits prod.splits)
qed (simp add: trigger_job_def)

lemma get_run_owner: "wf_db d \<Longrightarrow> get_run i uid d = Inr r \<Longrightarrow> get_run_row d i = Some r \<and> run_owner d i = Some uid"
  by (auto simp: get_run_def get_owned_run_eq owned_by_owner run_owner_def split: option.splits if_splits)

lemma foreign_retry:
  assumes w: "wf_db (w_db w)"
  shows "foreign uid (w_db (snd (retry_run api cfg now i uid w))) = foreign uid (w_db w)"
proof (cases "get_run i uid (w_db w)")
  case (Inr r)
  obtain x d' where c: "create_run now (r_job_id r) RETRY None (r_attempt r + 1) QUEUED (w_db w) = (x, d')" by (metis prod.exhaust)
  have "owner_of (w_db w) (r_job_id r) = Some uid" using get_run_owner[OF w Inr] by (auto simp: run_owner_def)
  then have "own_ext uid (w_db w, []) (d', [])" by (rule own_ext_create[OF c])
  then have f: "foreign uid d' = foreign uid (w_db w)" using foreign_new_runs[OF w, of d' _ uid] by (auto simp: own_ext_def)
  then show ?thesis using Inr c
    by (cases x) (auto simp: retry_run_def andthen_def on_db_def on_redis_def ret_def split: sum.splits prod.splits)
qed (simp add: retry_run_def)

lemma foreign_cancel:
  assumes w: "wf_db (w_db w)"
  shows "foreign uid (w_db (snd (api_cancel_run api cfg now id i uid w))) = foreign uid (w_db w)"
proof (cases "get_run i uid (w_db w)")
  case (Inr r)
  have o: "run_owner (w_db w) i = Some uid" using get_run_owner[OF w Inr] by simp
  have "foreign uid (snd (store_cancel_run now i (w_db w))) = foreign uid (w_db w)"
    unfolding store_cancel_run_def Let_def snd_conv
    by (rule foreign_one_run[OF w _ _ o]) (auto simp: keeps_keys_def cancel_set_def)
  then show ?thesis using Inr
    by (auto simp: api_cancel_run_def andthen_def on_redis_def split: sum.splits prod.splits)
qed (simp add: api_cancel_run_def)

end
