(* ===== verification/Drafts.thy ===== *)
theory Drafts
  imports Shell_Exec Schemas
begin

text \<open>
  The draft of a job from an uploaded file: \<^verbatim>\<open>create_job_draft_from_file\<close> of
  \<^verbatim>\<open>backend/api/routers/jobs.py\<close> with its helpers and \<^verbatim>\<open>JobDraftOut\<close> of
  \<^verbatim>\<open>schemas.py\<close>, and what the shell executor makes of it. The UTF-8 decoder is an
  argument. Building the response validates it like every \<^verbatim>\<open>JobBase\<close>.
\<close>

section \<open>Names\<close>

text \<open>\<^verbatim>\<open>PurePath.suffix\<close> and \<^verbatim>\<open>stem\<close> of a last component: split at the last dot that is neither first nor last.\<close>

definition path_suffix :: "string \<Rightarrow> string" where
  "path_suffix name =
     (let ext = rev (takeWhile (\<lambda>c. c \<noteq> CHR ''.'') (rev name))
      in if CHR ''.'' \<in> set name \<and> ext \<noteq> [] \<and> length ext + 1 < length name then CHR ''.'' # ext else [])"

definition path_stem :: "string \<Rightarrow> string" where
  "path_stem name = take (length name - length (path_suffix name)) name"

text \<open>\<^verbatim>\<open>filename or default\<close>.\<close>

definition name_or :: "string option \<Rightarrow> string \<Rightarrow> string" where
  "name_or filename other = (case filename of None \<Rightarrow> other | Some s \<Rightarrow> if s = [] then other else s)"

definition job_name_from_filename :: "string option \<Rightarrow> string" where
  "job_name_from_filename filename =
     (let stem = take 255 (py_strip (path_stem (path_name (name_or filename ''uploaded-task''))))
      in if stem = [] then ''uploaded-task'' else stem)"

section \<open>The draft\<close>

record job_draft =
  dr_base :: job_base
  dr_source_filename :: "string option"
  dr_file_content :: string

definition MAX_DRAFT_FILE_BYTES :: nat where
  "MAX_DRAFT_FILE_BYTES = 128 * 1024"

definition draft_command :: "string option \<Rightarrow> string" where
  "draft_command filename =
     (if lower (path_suffix (path_name (name_or filename []))) = ''.py'' then ''python'' else ''sh'')"

definition draft_spec :: "string option \<Rightarrow> string \<Rightarrow> json_dict" where
  "draft_spec filename content =
     (let source_filename = path_name (name_or filename ''uploaded-task'')
      in [(''command'', JStr (draft_command filename)), (''args'', JArr [JStr source_filename]),
          (''source_filename'', JStr source_filename), (''file_content'', JStr content)])"

definition draft_from_text :: "(string \<Rightarrow> bool) \<Rightarrow> string option \<Rightarrow> string \<Rightarrow> exn + job_draft" where
  "draft_from_text cron_valid filename content =
     (let base = \<lparr>b_name = job_name_from_filename filename,
           b_description = Some (if name_or filename [] \<noteq> [] then ''Draft imported from '' @ name_or filename []
                                 else ''Draft imported from text file''),
           b_category = None, b_task_type = ''shell'', b_task_spec = draft_spec filename content,
           b_schedule_type = ''manual'', b_schedule_expr = None, b_timezone = ''UTC'', b_enabled = True,
           b_max_retries = 0, b_retry_backoff_sec = 30, b_timeout_sec = 300, b_depends_on = []\<rparr>
      in case JobBase_validate cron_valid base of
           Inl e \<Rightarrow> Inl e
         | Inr b \<Rightarrow> Inr \<lparr>dr_base = b, dr_source_filename = filename, dr_file_content = content\<rparr>)"

definition decode_text_file :: "(string \<Rightarrow> string option) \<Rightarrow> string \<Rightarrow> exn + string" where
  "decode_text_file utf8 data =
     (case utf8 data of None \<Rightarrow> Inl (HTTPException 400 ''uploaded file must be UTF-8 text'') | Some t \<Rightarrow> Inr t)"

text \<open>\<^verbatim>\<open>file.read(n)\<close> gives at most \<open>n\<close> bytes.\<close>

definition create_job_draft_from_file ::
  "(string \<Rightarrow> string option) \<Rightarrow> (string \<Rightarrow> bool) \<Rightarrow> string option \<Rightarrow> string \<Rightarrow> exn + job_draft" where
  "create_job_draft_from_file utf8 cron_valid filename file =
     (let data = take (MAX_DRAFT_FILE_BYTES + 1) file in
      if MAX_DRAFT_FILE_BYTES < length data
      then Inl (HTTPException 413 (''uploaded file must be <= '' @ int_str (int MAX_DRAFT_FILE_BYTES) @ '' bytes''))
      else case decode_text_file utf8 data of Inl e \<Rightarrow> Inl e | Inr content \<Rightarrow> draft_from_text cron_valid filename content)"

section \<open>Lemmas\<close>

lemma job_name_length: "1 \<le> length (job_name_from_filename filename) \<and> length (job_name_from_filename filename) \<le> 255"
  by (auto simp: job_name_from_filename_def Let_def Suc_le_eq)

lemma draft_from_text_ok: "\<exists>b. draft_from_text cv filename content =
    Inr \<lparr>dr_base = b, dr_source_filename = filename, dr_file_content = content\<rparr> \<and> JobBase_validate cv b = Inr b \<and>
    b_task_type b = TaskType_SHELL \<and> b_schedule_type b = ScheduleType_MANUAL \<and> b_task_spec b = draft_spec filename content"
  using job_name_length[of filename]
  by (simp add: draft_from_text_def Let_def JobBase_validate_def job_fields_ok_def validate_task_type_def
      validate_schedule_type_def validate_schedule_expr_def validate_task_spec_def TaskType_ALL_def ScheduleType_ALL_def
      TaskType_HTTP_def TaskType_SHELL_def TaskType_HTTP_ASYNC_def ScheduleType_CRON_def ScheduleType_INTERVAL_def
      ScheduleType_MANUAL_def spec_has_def draft_spec_def draft_command_def)

lemma split_plain_word: "shlex_split ''python'' = Inr [''python'']" "shlex_split ''sh'' = Inr [''sh'']"
  by code_simp+

lemma draft_argv:
  "build_argv tx (draft_spec filename content) = Inr [draft_command filename, path_name (name_or filename ''uploaded-task'')]"
  using split_plain_word
  by (auto simp: build_argv_def draft_spec_def draft_command_def spec_item_def dict_get_def py_or_def Let_def)

lemma draft_prepared:
  assumes f: "f = path_name (name_or filename ''uploaded-task'')" "f \<notin> {[], ''..''}"
    and o: "os_mkdtemp os h = (Inr dir, h1)" "os_write_text os (path_join dir f) content h1 = (Inr (), h2)"
  shows "prepare_argv os tx (draft_spec filename content) (h, lg) =
    (Inr (Some dir, [if f = draft_command filename then path_join dir f else draft_command filename, path_join dir f]), (h2, lg))"
proof -
  have p: "path_name f = f" using path_name_in[of "name_or filename ''uploaded-task''"] f by (auto intro!: path_name_plain)
  have c: "path_name (draft_command filename) = draft_command filename"
    unfolding draft_command_def by (auto intro!: path_name_plain)
  have s: "dict_get (draft_spec filename content) ''file_content'' JNull = JStr content"
      "dict_get (draft_spec filename content) ''source_filename'' JNull = JStr f"
    using f(1) by (simp_all add: draft_spec_def dict_get_def Let_def)
  have "f \<noteq> ''.''" using p f(2) path_name_in[of f] by auto
  then show ?thesis
    using f(2) o p c
    by (auto simp: prepare_argv_def draft_argv f(1)[symmetric] materialize_uploaded_script_def s rewrite_argv_eq Let_def
        andthen_def pure_def outside_def ret_def)
qed

section \<open>Properties\<close>

text \<open>
  Claim C29: from an upload to the process. An uploaded text of at most 128 KiB
  gives a draft that passes the validation of a job, and a larger one is refused
  with 413. When the draft is stored
  unchanged and its run is executed, the shell executor writes exactly the uploaded
  text into a fresh directory under the file's own name and runs the chosen
  interpreter on it. (If the file itself is called like the interpreter, \<^verbatim>\<open>sh\<close>, the
  executor takes the script for the interpreter too.)
\<close>

theorem draft_to_process:
  assumes f: "f = path_name (name_or filename ''uploaded-task'')" "f \<notin> {[], ''..''}"
    and o: "os_mkdtemp os h = (Inr dir, h1)" "os_write_text os (path_join dir f) content h1 = (Inr (), h2)"
    and c: "utf8 file = Some content"
  shows "if MAX_DRAFT_FILE_BYTES < length file
    then create_job_draft_from_file utf8 cv filename file = Inl (HTTPException 413 ''uploaded file must be <= 131072 bytes'')
    else \<exists>dr. create_job_draft_from_file utf8 cv filename file = Inr dr \<and> JobBase_validate cv (dr_base dr) = Inr (dr_base dr) \<and>
      prepare_argv os tx (b_task_spec (dr_base dr)) (h, lg) =
        (Inr (Some dir, [if f = draft_command filename then path_join dir f else draft_command filename, path_join dir f]), (h2, lg))"
proof -
  have "int MAX_DRAFT_FILE_BYTES = 131072" by (simp add: MAX_DRAFT_FILE_BYTES_def)
  moreover have "int_str 131072 = ''131072''" by (simp add: int_str_def nat_str.simps dig_char_def char_of_def bit_0)
  ultimately have n: "int_str (int MAX_DRAFT_FILE_BYTES) = ''131072''" by (simp only:)
  obtain dr where dr: "draft_from_text cv filename content = Inr dr" "JobBase_validate cv (dr_base dr) = Inr (dr_base dr)"
      "b_task_spec (dr_base dr) = draft_spec filename content"
    using draft_from_text_ok[of cv filename content] by auto
  have "prepare_argv os tx (draft_spec filename content) (h, lg) =
      (Inr (Some dir, [if f = draft_command filename then path_join dir f else draft_command filename, path_join dir f]), (h2, lg))"
    by (rule draft_prepared[OF f o])
  then show ?thesis
    using n c dr by (auto simp: create_job_draft_from_file_def decode_text_file_def Let_def)
qed

theorem draft_to_process_witness:
  "\<exists>dr h. create_job_draft_from_file Some (\<lambda>_. False) (Some ''report.PY'') ''print(1)'' = Inr dr \<and>
     JobBase_validate (\<lambda>_. False) (dr_base dr) = Inr (dr_base dr) \<and>
     prepare_argv mem_os_api sample_text (b_task_spec (dr_base dr)) (mem_os_init, []) =
       (Inr (Some ''/tmp/job-scheduler-script-1'', [''python'', ''/tmp/job-scheduler-script-1/report.PY'']), (h, []))"
proof -
  have f: "''report.PY'' = path_name (name_or (Some ''report.PY'') ''uploaded-task'')" by code_simp
  obtain h1 where m: "os_mkdtemp mem_os_api mem_os_init = (Inr ''/tmp/job-scheduler-script-1'', h1)"
  proof -
    have "fst (os_mkdtemp mem_os_api mem_os_init) = Inr ''/tmp/job-scheduler-script-1''" by code_simp
    then show thesis using that by (metis prod.collapse)
  qed
  obtain h2 where w: "os_write_text mem_os_api (path_join ''/tmp/job-scheduler-script-1'' ''report.PY'') ''print(1)'' h1 = (Inr (), h2)"
    by (simp add: mem_os_api_def)
  have "draft_command (Some ''report.PY'') = ''python''" by code_simp
  then show ?thesis
    using draft_to_process[OF f _ m w, of Some "''print(1)''" "\<lambda>_. False" sample_text "[]"]
    by (simp add: MAX_DRAFT_FILE_BYTES_def path_join_def) blast
qed

end
