(* ===== verification/Metrics.thy ===== *)
theory Metrics
  imports Dispatch
begin

text \<open>
  \<^verbatim>\<open>backend/common/metrics.py\<close> and the instrumented operations of \<^verbatim>\<open>redis_queue.py\<close>,
  \<^verbatim>\<open>dispatch.py\<close> and \<^verbatim>\<open>db.py\<close>. The Prometheus client is not part of the repository:
  a process is seen as appending the calls it makes (\<open>sample\<close>) to a list; the
  measured durations are left out. The client raises when a call does not fit the
  declaration of its metric, so \<open>sample_ok\<close> says that a call is accepted. The theorem
  at the end is the reason why the other theories can leave the metrics out.
\<close>

section \<open>Declarations\<close>

datatype metric =
    JOBS_ENQUEUED | RUNS_PROCESSED | RUNS_RECLAIMED | RUN_DURATION | INFLIGHT | QUEUE_DEPTH | SCHEDULER_IS_LEADER
  | HTTP_REQUESTS | HTTP_REQUEST_DURATION | HTTP_INFLIGHT | DB_QUERIES | DB_QUERY_DURATION
  | DB_POOL_CHECKED_OUT | DB_POOL_SIZE | DB_POOL_OVERFLOW | REDIS_COMMANDS | REDIS_COMMAND_DURATION
  | REDIS_STREAM_LENGTH | REDIS_DELAYED_RUNS

datatype metric_kind = Counter | Gauge | Histogram

fun metric_decl :: "metric \<Rightarrow> metric_kind \<times> string list" where
  "metric_decl JOBS_ENQUEUED = (Counter, [''trigger_type''])"
| "metric_decl RUNS_PROCESSED = (Counter, [''status'', ''task_type''])"
| "metric_decl RUNS_RECLAIMED = (Counter, [])"
| "metric_decl RUN_DURATION = (Histogram, [''task_type''])"
| "metric_decl INFLIGHT = (Gauge, [])"
| "metric_decl QUEUE_DEPTH = (Gauge, [])"
| "metric_decl SCHEDULER_IS_LEADER = (Gauge, [])"
| "metric_decl HTTP_REQUESTS = (Counter, [''method'', ''path'', ''status_code''])"
| "metric_decl HTTP_REQUEST_DURATION = (Histogram, [''method'', ''path''])"
| "metric_decl HTTP_INFLIGHT = (Gauge, [])"
| "metric_decl DB_QUERIES = (Counter, [''operation'', ''status''])"
| "metric_decl DB_QUERY_DURATION = (Histogram, [''operation''])"
| "metric_decl DB_POOL_CHECKED_OUT = (Gauge, [])"
| "metric_decl DB_POOL_SIZE = (Gauge, [])"
| "metric_decl DB_POOL_OVERFLOW = (Gauge, [])"
| "metric_decl REDIS_COMMANDS = (Counter, [''operation'', ''status''])"
| "metric_decl REDIS_COMMAND_DURATION = (Histogram, [''operation''])"
| "metric_decl REDIS_STREAM_LENGTH = (Gauge, [])"
| "metric_decl REDIS_DELAYED_RUNS = (Gauge, [])"

text \<open>Label values are given by name, in the order of the call.\<close>

datatype sample =
    Inc metric "(string \<times> string) list"
  | Dec metric
  | Observe metric "(string \<times> string) list"
  | SetTo metric int

fun sample_ok :: "sample \<Rightarrow> bool" where
  "sample_ok (Inc m ls) = (fst (metric_decl m) \<in> {Counter, Gauge} \<and> set (map fst ls) = set (snd (metric_decl m)))"
| "sample_ok (Dec m) = (metric_decl m = (Gauge, []))"
| "sample_ok (Observe m ls) = (fst (metric_decl m) = Histogram \<and> set (map fst ls) = set (snd (metric_decl m)))"
| "sample_ok (SetTo m v) = (metric_decl m = (Gauge, []))"

section \<open>Helpers (metrics.py)\<close>

text \<open>\<^verbatim>\<open>s.split(None, 1)[0]\<close> of a string without leading white space is its first word.\<close>

definition sql_operation :: "string option \<Rightarrow> string" where
  "sql_operation statement =
     (case statement of
        None \<Rightarrow> ''unknown''
      | Some s \<Rightarrow>
          (let first = takeWhile (\<lambda>c. \<not> is_space c) (dropWhile is_space s)
           in if s = [] \<or> first = [] then ''unknown'' else lower first))"

text \<open>
  An effect with the calls made so far. \<^verbatim>\<open>except Exception\<close> does not see
  \<^verbatim>\<open>asyncio.CancelledError\<close>, so a command that is canceled is counted as a success.
\<close>

type_synonym 's observed = "'s \<times> sample list"

definition call_status :: "exn + 'a \<Rightarrow> string" where
  "call_status x = (case x of Inr _ \<Rightarrow> ''success'' | Inl e \<Rightarrow> if e = CancelledError then ''success'' else ''error'')"

definition observe_redis_command :: "string \<Rightarrow> ('s observed, 'a) eff \<Rightarrow> ('s observed, 'a) eff" where
  "observe_redis_command operation body s =
     (case body s of
        (x, (r, ms)) \<Rightarrow>
          (x, (r, ms @ [Observe REDIS_COMMAND_DURATION [(''operation'', operation)],
                        Inc REDIS_COMMANDS [(''operation'', operation), (''status'', call_status x)]])))"

text \<open>The coroutine \<^verbatim>\<open>_observe_async\<close> of \<^verbatim>\<open>redis_queue.py\<close>, and \<^verbatim>\<open>_observe_redis\<close> of \<^verbatim>\<open>worker/main.py\<close>.\<close>

definition observe_async :: "string \<Rightarrow> ('s observed, 'a) eff \<Rightarrow> ('s observed, 'a) eff" where
  "observe_async operation awaitable s =
     (case awaitable s of
        (x, (r, ms)) \<Rightarrow>
          (x, (r, ms @ [Observe REDIS_COMMAND_DURATION [(''operation'', operation)],
                        Inc REDIS_COMMANDS [(''operation'', operation), (''status'', call_status x)]])))"

definition observe_redis :: "string \<Rightarrow> ('s observed, 'a) eff \<Rightarrow> ('s observed, 'a) eff" where
  "observe_redis operation awaitable s =
     (case awaitable s of
        (x, (r, ms)) \<Rightarrow>
          (x, (r, ms @ [Observe REDIS_COMMAND_DURATION [(''operation'', operation)],
                        Inc REDIS_COMMANDS [(''operation'', operation), (''status'', call_status x)]])))"

text \<open>A counter of the pool that does not exist or fails is skipped.\<close>

record pool =
  p_checkedout :: "exn + int"
  p_size :: "exn + int"
  p_overflow :: "exn + int"

definition set_gauge :: "metric \<Rightarrow> exn + int \<Rightarrow> sample list" where
  "set_gauge m v = (case v of Inl _ \<Rightarrow> [] | Inr n \<Rightarrow> [SetTo m n])"

definition set_db_pool_gauges :: "pool \<Rightarrow> sample list" where
  "set_db_pool_gauges p =
     set_gauge DB_POOL_CHECKED_OUT (p_checkedout p) @ set_gauge DB_POOL_SIZE (p_size p) @
     set_gauge DB_POOL_OVERFLOW (p_overflow p)"

section \<open>SQL statements (db.py)\<close>

text \<open>The attributes that the listeners keep on the execution context.\<close>

record cursor_context =
  cx_started :: bool
  cx_operation :: "string option"

definition before_cursor_execute :: "string \<Rightarrow> cursor_context \<Rightarrow> cursor_context" where
  "before_cursor_execute statement cx = cx\<lparr>cx_started := True, cx_operation := Some (sql_operation (Some statement))\<rparr>"

definition after_cursor_execute :: "pool \<Rightarrow> string \<Rightarrow> cursor_context \<Rightarrow> sample list" where
  "after_cursor_execute p statement cx =
     (let operation = (case cx_operation cx of Some op \<Rightarrow> op | None \<Rightarrow> sql_operation (Some statement))
      in (if cx_started cx then [Observe DB_QUERY_DURATION [(''operation'', operation)]] else []) @
         [Inc DB_QUERIES [(''operation'', operation), (''status'', ''success'')]] @ set_db_pool_gauges p)"

definition handle_db_error :: "pool \<Rightarrow> string option \<Rightarrow> sample list" where
  "handle_db_error p statement =
     Inc DB_QUERIES [(''operation'', sql_operation statement), (''status'', ''error'')] # set_db_pool_gauges p"

text \<open>One statement with the listeners around it.\<close>

definition execute_statement :: "pool \<Rightarrow> string \<Rightarrow> ('s, 'a) eff \<Rightarrow> ('s observed, 'a) eff" where
  "execute_statement p statement exec s =
     (let cx = before_cursor_execute statement \<lparr>cx_started = False, cx_operation = None\<rparr> in
      case exec (fst s) of
        (Inl e, d) \<Rightarrow> (Inl e, (d, snd s @ handle_db_error p (Some statement)))
      | (Inr x, d) \<Rightarrow> (Inr x, (d, snd s @ after_cursor_execute p statement cx)))"

section \<open>The queue with its metrics (redis_queue.py, dispatch.py)\<close>

text \<open>A command of the server, and a call of the metrics client.\<close>

definition plain :: "('s, 'a) eff \<Rightarrow> ('s observed, 'a) eff" where
  "plain m s = (case m (fst s) of (x, r) \<Rightarrow> (x, (r, snd s)))"

definition record_sample :: "sample \<Rightarrow> ('s observed, unit) eff" where
  "record_sample x s = (Inr (), (fst s, snd s @ [x]))"

text \<open>\<^verbatim>\<open>try ... except redis.ResponseError as exc\<close>.\<close>

definition on_response_error :: "(string \<Rightarrow> ('s, 'a) eff) \<Rightarrow> ('s, 'a) eff \<Rightarrow> ('s, 'a) eff" where
  "on_response_error handler body s =
     (case body s of (Inl (ResponseError msg), s') \<Rightarrow> handler msg s' | res \<Rightarrow> res)"

definition obs_ensure_group :: "'r redis_api \<Rightarrow> settings \<Rightarrow> ('r observed, unit) eff" where
  "obs_ensure_group api cfg =
     on_response_error (\<lambda>msg. if substring_of ''BUSYGROUP'' msg then ret () else throw (ResponseError msg))
       (observe_redis_command ''xgroup_create'' (plain (XGROUP_CREATE api (stream_key cfg) (consumer_group cfg))))"

definition obs_gauge :: "string \<Rightarrow> metric \<Rightarrow> ('r, int) eff \<Rightarrow> ('r observed, unit) eff" where
  "obs_gauge operation m cmd =
     on_response_error (\<lambda>_. record_sample (SetTo m 0))
       (observe_redis_command operation (andthen (plain cmd) (\<lambda>n. record_sample (SetTo m n))))"

definition obs_update_queue_gauges :: "'r redis_api \<Rightarrow> settings \<Rightarrow> ('r observed, unit) eff" where
  "obs_update_queue_gauges api cfg =
     andthen (obs_gauge ''xlen'' REDIS_STREAM_LENGTH (XLEN api (stream_key cfg))) (\<lambda>_.
     obs_gauge ''zcard'' REDIS_DELAYED_RUNS (ZCARD api (delayed_set_key cfg)))"

definition obs_enqueue_run :: "'r redis_api \<Rightarrow> settings \<Rightarrow> int \<Rightarrow> ('r observed, string) eff" where
  "obs_enqueue_run api cfg run_id =
     andthen (observe_redis_command ''xadd'' (plain (XADD api (stream_key cfg) [(''run_id'', int_str run_id)]))) (\<lambda>message_id.
     andthen (obs_update_queue_gauges api cfg) (\<lambda>_. ret message_id))"

definition obs_publish_cancel :: "'r redis_api \<Rightarrow> settings \<Rightarrow> int \<Rightarrow> ('r observed, unit) eff" where
  "obs_publish_cancel api cfg run_id =
     observe_redis_command ''publish'' (plain (PUBLISH api (cancel_channel cfg) (int_str run_id)))"

definition obs_schedule_delayed :: "'r redis_api \<Rightarrow> settings \<Rightarrow> int \<Rightarrow> time \<Rightarrow> ('r observed, unit) eff" where
  "obs_schedule_delayed api cfg run_id ready_at_epoch =
     andthen (observe_redis_command ''zadd'' (plain (ZADD api (delayed_set_key cfg) (int_str run_id) ready_at_epoch))) (\<lambda>_.
     obs_update_queue_gauges api cfg)"

definition obs_promote_due_delayed :: "'r redis_api \<Rightarrow> settings \<Rightarrow> time \<Rightarrow> ('r observed, int) eff" where
  "obs_promote_due_delayed api cfg now_epoch =
     andthen (observe_redis_command ''eval''
                (plain (PROMOTE_LUA api (delayed_set_key cfg) (stream_key cfg) now_epoch))) (\<lambda>count.
     andthen (obs_update_queue_gauges api cfg) (\<lambda>_. ret count))"

definition obs_pending_count :: "'r redis_api \<Rightarrow> settings \<Rightarrow> ('r observed, int) eff" where
  "obs_pending_count api cfg =
     on_response_error (\<lambda>_. ret 0)
       (observe_redis_command ''xpending'' (plain (XPENDING api (stream_key cfg) (consumer_group cfg))))"

definition trigger_str :: "trigger_type \<Rightarrow> string" where
  "trigger_str t = (case t of SCHEDULED \<Rightarrow> ''scheduled'' | MANUAL \<Rightarrow> ''manual'' | DEPENDENCY \<Rightarrow> ''dependency'' | RETRY \<Rightarrow> ''retry'')"

definition obs_publish :: "'r redis_api \<Rightarrow> settings \<Rightarrow> job_run \<Rightarrow> ('r observed, unit) eff" where
  "obs_publish api cfg run =
     andthen (obs_enqueue_run api cfg (r_id run)) (\<lambda>_.
     record_sample (Inc JOBS_ENQUEUED [(''trigger_type'', trigger_str (r_trigger_type run))]))"

text \<open>The asynchronous client: the value is awaited first and the gauge set afterwards.\<close>

definition obs_gauge_async :: "string \<Rightarrow> metric \<Rightarrow> ('r, int) eff \<Rightarrow> ('r observed, unit) eff" where
  "obs_gauge_async operation m cmd =
     on_response_error (\<lambda>_. record_sample (SetTo m 0))
       (andthen (observe_async operation (plain cmd)) (\<lambda>n. record_sample (SetTo m n)))"

definition obs_update_queue_gauges_async :: "'r redis_api \<Rightarrow> settings \<Rightarrow> ('r observed, unit) eff" where
  "obs_update_queue_gauges_async api cfg =
     andthen (obs_gauge_async ''xlen'' REDIS_STREAM_LENGTH (XLEN api (stream_key cfg))) (\<lambda>_.
     obs_gauge_async ''zcard'' REDIS_DELAYED_RUNS (ZCARD api (delayed_set_key cfg)))"

definition obs_enqueue_run_async :: "'r redis_api \<Rightarrow> settings \<Rightarrow> int \<Rightarrow> ('r observed, string) eff" where
  "obs_enqueue_run_async api cfg run_id =
     andthen (observe_async ''xadd'' (plain (XADD api (stream_key cfg) [(''run_id'', int_str run_id)]))) (\<lambda>message_id.
     andthen (obs_update_queue_gauges_async api cfg) (\<lambda>_. ret message_id))"

definition obs_schedule_delayed_async :: "'r redis_api \<Rightarrow> settings \<Rightarrow> int \<Rightarrow> time \<Rightarrow> ('r observed, unit) eff" where
  "obs_schedule_delayed_async api cfg run_id ready_at_epoch =
     andthen (observe_async ''zadd'' (plain (ZADD api (delayed_set_key cfg) (int_str run_id) ready_at_epoch))) (\<lambda>_.
     obs_update_queue_gauges_async api cfg)"

text \<open>The worker acknowledges and deletes a message (\<^verbatim>\<open>worker/main.py\<close>).\<close>

definition obs_ack_message :: "'r redis_api \<Rightarrow> settings \<Rightarrow> string \<Rightarrow> ('r observed, unit) eff" where
  "obs_ack_message api cfg message_id =
     andthen (observe_redis ''xack'' (plain (XACK api (stream_key cfg) (consumer_group cfg) message_id))) (\<lambda>_.
     observe_redis ''xdel'' (plain (XDEL api (stream_key cfg) message_id)))"

section \<open>Metrics change nothing else\<close>

text \<open>
  \<open>im\<close> does what \<open>m\<close> does, up to a function on the values, and only appends calls
  that the client accepts.
\<close>

definition erases :: "('a \<Rightarrow> 'b) \<Rightarrow> ('s observed, 'b) eff \<Rightarrow> ('s, 'a) eff \<Rightarrow> bool" where
  "erases f im m \<longleftrightarrow> (\<forall>r ms. \<exists>new. im (r, ms) = (map_sum id f (fst (m r)), (snd (m r), ms @ new)) \<and> list_all sample_ok new)"

lemma erasesI:
  assumes "\<And>r ms x r'. m r = (x, r') \<Longrightarrow> \<exists>new. im (r, ms) = (map_sum id f x, (r', ms @ new)) \<and> list_all sample_ok new"
  shows "erases f im m"
  unfolding erases_def using assms by (metis prod.collapse)

lemma erasesD:
  assumes "erases f im m" and "m r = (x, r')"
  shows "\<exists>new. im (r, ms) = (map_sum id f x, (r', ms @ new)) \<and> list_all sample_ok new"
  using assms unfolding erases_def by (metis fst_conv snd_conv)

named_theorems erase_rules \<open>an instrumented effect against the plain one\<close>

lemma erases_plain [erase_rules]: "erases id (plain m) m"
  by (rule erasesI) (simp add: plain_def map_sum.id)

lemma erases_ret [erase_rules]: "y = f x \<Longrightarrow> erases f (ret y) (ret x)"
  by (rule erasesI) (auto simp: ret_def)

lemma erases_throw [erase_rules]: "erases f (throw e) (throw e)"
  by (rule erasesI) (auto simp: throw_def)

lemma erases_record [erase_rules]: "sample_ok s \<Longrightarrow> erases (\<lambda>_. ()) (record_sample s) (ret x)"
  by (rule erasesI) (auto simp: ret_def record_sample_def)

lemma erases_andthen:
  assumes m: "erases f im m" and k: "\<And>x. erases g (ik (f x)) (k x)"
  shows "erases g (andthen im ik) (andthen m k)"
proof (rule erasesI)
  fix r ms y r' assume a: "andthen m k r = (y, r')"
  obtain x r1 where 1: "m r = (x, r1)" by (metis prod.exhaust)
  from erasesD[OF m 1] obtain new where 2: "im (r, ms) = (map_sum id f x, (r1, ms @ new))" "list_all sample_ok new" by blast
  show "\<exists>new. andthen im ik (r, ms) = (map_sum id g y, (r', ms @ new)) \<and> list_all sample_ok new"
  proof (cases x)
    case (Inl e)
    then show ?thesis using a 1 2 by (auto simp: andthen_def)
  next
    case (Inr v)
    then have "k v r1 = (y, r')" using a 1 by (simp add: andthen_def)
    from erasesD[OF k this, of "ms @ new"] show ?thesis using 2 Inr by (auto simp: andthen_def)
  qed
qed

lemma erases_observe:
  assumes "erases f im m"
  shows "erases f (observe_redis_command op im) m"
proof (rule erasesI)
  fix r ms x r' assume "m r = (x, r')"
  from erasesD[OF assms this, of ms]
  show "\<exists>new. observe_redis_command op im (r, ms) = (map_sum id f x, (r', ms @ new)) \<and> list_all sample_ok new"
    by (auto simp: observe_redis_command_def)
qed

lemma observe_async_same: "observe_async = observe_redis_command" "observe_redis = observe_redis_command"
  by (simp_all add: fun_eq_iff observe_async_def observe_redis_def observe_redis_command_def)

lemma on_response_error_same: "\<nexists>msg. x = Inl (ResponseError msg) \<Longrightarrow> b s = (x, t) \<Longrightarrow> on_response_error h b s = (x, t)"
  by (auto simp: on_response_error_def split: sum.splits exn.splits)

lemma erases_on_response_error:
  assumes b: "erases f im m" and h: "\<And>msg. erases f (ih msg) (h msg)"
  shows "erases f (on_response_error ih im) (on_response_error h m)"
proof (rule erasesI)
  fix r ms y r' assume a: "on_response_error h m r = (y, r')"
  obtain x r1 where 1: "m r = (x, r1)" by (metis prod.exhaust)
  from erasesD[OF b 1] obtain new where 2: "im (r, ms) = (map_sum id f x, (r1, ms @ new))" "list_all sample_ok new" by blast
  show "\<exists>new. on_response_error ih im (r, ms) = (map_sum id f y, (r', ms @ new)) \<and> list_all sample_ok new"
  proof (cases "\<exists>msg. x = Inl (ResponseError msg)")
    case True
    then obtain msg where x: "x = Inl (ResponseError msg)" by blast
    then have "h msg r1 = (y, r')" using a 1 by (simp add: on_response_error_def)
    from erasesD[OF h this, of "ms @ new"] show ?thesis using 2 x by (auto simp: on_response_error_def)
  next
    case False
    then have "\<nexists>msg. map_sum id f x = Inl (ResponseError msg)" by (cases x) auto
    with False show ?thesis using a 1 2 by (auto simp: on_response_error_same)
  qed
qed

text \<open>The operations of the other theories in the same shape.\<close>

lemma ensure_group_shape: "ensure_group api cfg =
    on_response_error (\<lambda>msg. if substring_of ''BUSYGROUP'' msg then ret () else throw (ResponseError msg))
      (XGROUP_CREATE api (stream_key cfg) (consumer_group cfg))"
  by (auto simp: fun_eq_iff ensure_group_def on_response_error_def ret_def throw_def split: prod.splits sum.splits exn.splits)

lemma gauge_shape: "gauge cmd = on_response_error (\<lambda>_. ret 0) (andthen cmd ret)"
  by (auto simp: fun_eq_iff gauge_def on_response_error_def is_response_error_def andthen_def ret_def split: prod.splits sum.splits exn.splits)

lemma andthen_ret [simp]: "andthen m ret = m"
  by (auto simp: fun_eq_iff andthen_def ret_def split: prod.splits sum.splits)

lemma andthen_unit [simp]: "andthen m (\<lambda>_. ret ()) = m"
  by (auto simp: fun_eq_iff andthen_def ret_def split: prod.splits sum.splits)

lemma erases_gauge: "metric_decl m = (Gauge, []) \<Longrightarrow> erases (\<lambda>_. ()) (obs_gauge op m cmd) (gauge cmd)"
  unfolding obs_gauge_def gauge_shape
  by (intro erases_on_response_error erases_observe erases_andthen[where f = id] erase_rules) simp_all

lemma erases_gauge_async: "metric_decl m = (Gauge, []) \<Longrightarrow> erases (\<lambda>_. ()) (obs_gauge_async op m cmd) (gauge cmd)"
  unfolding obs_gauge_async_def gauge_shape observe_async_same
  by (intro erases_on_response_error erases_andthen[where f = id] erases_observe erase_rules) simp_all

lemma erases_gauges: "erases (\<lambda>_. ()) (obs_update_queue_gauges api cfg) (update_queue_gauges api cfg)"
proof -
  have "erases (\<lambda>_. ()) (andthen (obs_gauge ''xlen'' REDIS_STREAM_LENGTH (XLEN api (stream_key cfg))) (\<lambda>_.
     andthen (obs_gauge ''zcard'' REDIS_DELAYED_RUNS (ZCARD api (delayed_set_key cfg))) (\<lambda>_. ret ()))) (update_queue_gauges api cfg)"
    unfolding update_queue_gauges_def
    by (intro erases_andthen[where f = "\<lambda>_. ()"] erases_gauge erase_rules) simp_all
  then show ?thesis by (simp add: obs_update_queue_gauges_def)
qed

lemma erases_gauges_async: "erases (\<lambda>_. ()) (obs_update_queue_gauges_async api cfg) (update_queue_gauges_async api cfg)"
proof -
  have "erases (\<lambda>_. ()) (andthen (obs_gauge_async ''xlen'' REDIS_STREAM_LENGTH (XLEN api (stream_key cfg))) (\<lambda>_.
     andthen (obs_gauge_async ''zcard'' REDIS_DELAYED_RUNS (ZCARD api (delayed_set_key cfg))) (\<lambda>_. ret ()))) (update_queue_gauges_async api cfg)"
    unfolding update_queue_gauges_async_def
    by (intro erases_andthen[where f = "\<lambda>_. ()"] erases_gauge_async erase_rules) simp_all
  then show ?thesis by (simp add: obs_update_queue_gauges_async_def)
qed

lemmas erases_cmd = erases_observe[OF erases_plain]

lemma erases_enqueue: "erases id (obs_enqueue_run api cfg i) (enqueue_run api cfg i)"
  unfolding obs_enqueue_run_def enqueue_run_def
  by (intro erases_andthen[OF erases_cmd] erases_andthen[OF erases_gauges] erases_ret) simp


lemma erases_schedule: "erases id (obs_schedule_delayed api cfg i t) (schedule_delayed api cfg i t)"
proof -
  have "erases id (andthen (observe_redis_command ''zadd'' (plain (ZADD api (delayed_set_key cfg) (int_str i) t))) (\<lambda>_.
     andthen (obs_update_queue_gauges api cfg) (\<lambda>_. ret ()))) (schedule_delayed api cfg i t)"
    unfolding schedule_delayed_def by (intro erases_andthen[OF erases_cmd] erases_andthen[OF erases_gauges] erases_ret) simp
  then show ?thesis by (simp add: obs_schedule_delayed_def)
qed

lemma erases_enqueue_async: "erases id (obs_enqueue_run_async api cfg i) (enqueue_run_async api cfg i)"
  unfolding obs_enqueue_run_async_def enqueue_run_async_def observe_async_same
  by (intro erases_andthen[OF erases_cmd] erases_andthen[OF erases_gauges_async] erases_ret) simp

lemma erases_schedule_async: "erases id (obs_schedule_delayed_async api cfg i t) (schedule_delayed_async api cfg i t)"
proof -
  have "erases id (andthen (observe_redis_command ''zadd'' (plain (ZADD api (delayed_set_key cfg) (int_str i) t))) (\<lambda>_.
     andthen (obs_update_queue_gauges_async api cfg) (\<lambda>_. ret ()))) (schedule_delayed_async api cfg i t)"
    unfolding schedule_delayed_async_def
    by (intro erases_andthen[OF erases_cmd] erases_andthen[OF erases_gauges_async] erases_ret) simp
  then show ?thesis by (simp add: obs_schedule_delayed_async_def observe_async_same)
qed

lemma erases_promote: "erases id (obs_promote_due_delayed api cfg t) (promote_due_delayed api cfg t)"
  unfolding obs_promote_due_delayed_def promote_due_delayed_def
  by (intro erases_andthen[OF erases_cmd] erases_andthen[OF erases_gauges] erases_ret) simp

lemma erases_pending: "erases id (obs_pending_count api cfg) (pending_count api cfg)"
  unfolding obs_pending_count_def pending_count_def gauge_shape andthen_ret
  by (intro erases_on_response_error erases_cmd erases_ret) simp

lemma erases_ensure_group: "erases id (obs_ensure_group api cfg) (ensure_group api cfg)"
  unfolding obs_ensure_group_def ensure_group_shape
  by (intro erases_on_response_error erases_cmd) (simp add: erases_ret erases_throw)

lemma erases_publish: "erases (\<lambda>_. ()) (obs_publish api cfg run) (publish api cfg run)"
  unfolding obs_publish_def publish_def
  by (intro erases_andthen[OF erases_enqueue] erases_record) simp

lemma erases_ack: "erases id (obs_ack_message api cfg message)
    (andthen (XACK api (stream_key cfg) (consumer_group cfg) message) (\<lambda>_. XDEL api (stream_key cfg) message))"
  unfolding obs_ack_message_def observe_async_same by (intro erases_andthen[OF erases_cmd] erases_cmd)

lemma pool_gauges_ok: "list_all sample_ok (set_db_pool_gauges p)"
  by (simp add: set_db_pool_gauges_def set_gauge_def split: sum.splits)

lemma erases_statement: "erases id (execute_statement p statement exec) exec"
  by (rule erasesI)
    (auto simp: execute_statement_def Let_def before_cursor_execute_def after_cursor_execute_def handle_db_error_def
      pool_gauges_ok map_sum.id split: sum.splits)

text \<open>What a client of the counters can rely on: a word of the statement, in lower case.\<close>

lemma lower_char_space: "is_space (lower_char c) = is_space c"
  by (auto simp: lower_char_def is_space_def Let_def)

lemma sql_operation_word: "sql_operation statement \<noteq> [] \<and> list_all (\<lambda>c. \<not> is_space c) (sql_operation statement)"
proof -
  have "list_all (\<lambda>c. \<not> is_space c) ''unknown''" by code_simp
  moreover have "list_all (\<lambda>c. \<not> is_space c) (lower (takeWhile (\<lambda>c. \<not> is_space c) s))" for s
    by (auto simp: lower_def list_all_iff lower_char_space dest: set_takeWhileD)
  ultimately show ?thesis by (auto simp: sql_operation_def Let_def lower_def split: option.splits)
qed

lemma enqueue_error_counted:
  "XADD api (stream_key cfg) [(''run_id'', int_str i)] r = (Inl e, r') \<Longrightarrow> e \<noteq> CancelledError \<Longrightarrow>
   obs_enqueue_run api cfg i (r, ms) = (Inl e, (r', ms @ [Observe REDIS_COMMAND_DURATION [(''operation'', ''xadd'')],
     Inc REDIS_COMMANDS [(''operation'', ''xadd''), (''status'', ''error'')]]))"
  by (simp add: obs_enqueue_run_def observe_redis_command_def plain_def andthen_def call_status_def)

section \<open>Properties\<close>

text \<open>
  Claim C32: the metrics are transparent. Every instrumented operation of the queue,
  of dispatch, of the worker's acknowledgement and of the database engine returns or raises exactly what the operation
  without instrumentation does and leaves the same state behind; on every path,
  errors included, it only adds calls that fit the declared metrics, so that the
  instrumentation itself never raises. A command that raises is counted as an error
  and nothing follows it.
\<close>

theorem instrumentation_transparent:
  "erases id (obs_ensure_group api cfg) (ensure_group api cfg) \<and>
   erases id (obs_enqueue_run api cfg i) (enqueue_run api cfg i) \<and>
   erases id (obs_publish_cancel api cfg i) (publish_cancel api cfg i) \<and>
   erases id (obs_schedule_delayed api cfg i t) (schedule_delayed api cfg i t) \<and>
   erases id (obs_promote_due_delayed api cfg t) (promote_due_delayed api cfg t) \<and>
   erases id (obs_pending_count api cfg) (pending_count api cfg) \<and>
   erases id (obs_enqueue_run_async api cfg i) (enqueue_run_async api cfg i) \<and>
   erases id (obs_schedule_delayed_async api cfg i t) (schedule_delayed_async api cfg i t) \<and>
   erases (\<lambda>_. ()) (obs_publish api cfg run) (publish api cfg run) \<and>
   erases id (execute_statement p statement exec) exec \<and>
   erases id (obs_ack_message api cfg message)
     (andthen (XACK api (stream_key cfg) (consumer_group cfg) message) (\<lambda>_. XDEL api (stream_key cfg) message)) \<and>
   (\<forall>e r r' ms. XADD api (stream_key cfg) [(''run_id'', int_str i)] r = (Inl e, r') \<and> e \<noteq> CancelledError \<longrightarrow>
      obs_enqueue_run api cfg i (r, ms) = (Inl e, (r', ms @ [Observe REDIS_COMMAND_DURATION [(''operation'', ''xadd'')],
        Inc REDIS_COMMANDS [(''operation'', ''xadd''), (''status'', ''error'')]])))"
proof (intro conjI)
  show "erases id (obs_publish_cancel api cfg i) (publish_cancel api cfg i)"
    unfolding obs_publish_cancel_def publish_cancel_def by (rule erases_cmd)
qed (auto simp: erases_ensure_group erases_enqueue erases_schedule erases_promote erases_pending erases_enqueue_async
      erases_schedule_async erases_publish erases_statement erases_ack enqueue_error_counted)

theorem instrumentation_transparent_witness:
  "obs_enqueue_run (mem_api\<lparr>XADD := \<lambda>k f r. (Inl ConnectionError, r)\<rparr>) default_settings 7 (mem_empty, []) =
     (Inl ConnectionError, (mem_empty, [Observe REDIS_COMMAND_DURATION [(''operation'', ''xadd'')],
        Inc REDIS_COMMANDS [(''operation'', ''xadd''), (''status'', ''error'')]]))"
  using instrumentation_transparent[of "mem_api\<lparr>XADD := \<lambda>k f r. (Inl ConnectionError, r)\<rparr>" default_settings 7 0
      "mk_run 1 1 MANUAL QUEUED 0" "\<lparr>p_checkedout = Inr 1, p_size = Inr 5, p_overflow = Inr 0\<rparr>" "''SELECT 1''" "ret () :: (unit, unit) eff" "''1''"]
  by simp

end
