(* ===== verification/Api.thy ===== *)
theory Api
  imports Ownership Drafts Metrics
begin

text \<open>
  The API process: the sessions of \<^verbatim>\<open>backend/common/db.py\<close>, the routing table and the
  middleware of \<^verbatim>\<open>backend/api/main.py\<close>, the probes of \<^verbatim>\<open>backend/api/routers/health.py\<close>
  and the response models of \<^verbatim>\<open>schemas.py\<close>, put together with the handlers of the
  other theories to the function that answers a request. The path and query
  parameters and the body of a request are already decoded (\<open>request\<close>); FastAPI's
  behaviour is: dependencies first (so 401 comes before 422), then the validation of
  the parameters, then the handler; an \<^verbatim>\<open>HTTPException\<close> becomes its status with a
  detail, any other exception goes through the middleware to the handler of \<^verbatim>\<open>main.py\<close>.
\<close>

section \<open>Sessions (db.py)\<close>

text \<open>A session: what is committed, and what its own statements have made of it.\<close>

record session =
  s_stored :: db
  s_view :: db

definition session_commit :: "session \<Rightarrow> session" where
  "session_commit s = s\<lparr>s_stored := s_view s\<rparr>"

definition session_rollback :: "session \<Rightarrow> session" where
  "session_rollback s = s\<lparr>s_view := s_stored s\<rparr>"

definition session_scope :: "(session, 'a) eff \<Rightarrow> (db, 'a) eff" where
  "session_scope body d =
     (case body \<lparr>s_stored = d, s_view = d\<rparr> of
        (Inl e, s) \<Rightarrow> (Inl e, s_stored (session_rollback s))
      | (Inr x, s) \<Rightarrow> (Inr x, s_stored (session_commit s)))"

text \<open>The same as a dependency of a handler, which also has a Redis client.\<close>

type_synonym 'r scope = "session \<times> 'r"

definition get_session :: "('r scope, 'a) eff \<Rightarrow> ('r world, 'a) eff" where
  "get_session body w =
     (case body (\<lparr>s_stored = w_db w, s_view = w_db w\<rparr>, w_redis w) of
        (Inl e, (s, r)) \<Rightarrow> (Inl e, \<lparr>w_db = s_stored (session_rollback s), w_redis = r\<rparr>)
      | (Inr x, (s, r)) \<Rightarrow> (Inr x, \<lparr>w_db = s_stored (session_commit s), w_redis = r\<rparr>))"

text \<open>
  What a body does: statements, a query, \<^verbatim>\<open>session.commit()\<close>, commands of the Redis
  client, and calls that run transactions of their own.
\<close>

definition in_session :: "(db, 'a) eff \<Rightarrow> (session, 'a) eff" where
  "in_session m s = (case m (s_view s) of (x, d) \<Rightarrow> (x, s\<lparr>s_view := d\<rparr>))"

definition statements :: "(db, 'a) eff \<Rightarrow> ('r scope, 'a) eff" where
  "statements m s = (case m (s_view (fst s)) of (x, d) \<Rightarrow> (x, ((fst s)\<lparr>s_view := d\<rparr>, snd s)))"

definition query :: "(db \<Rightarrow> exn + 'a) \<Rightarrow> ('r scope, 'a) eff" where
  "query f s = (f (s_view (fst s)), s)"

definition commit :: "('r scope, unit) eff" where
  "commit s = (Inr (), (session_commit (fst s), snd s))"

definition client :: "('r, 'a) eff \<Rightarrow> ('r scope, 'a) eff" where
  "client m s = (case m (snd s) of (x, r) \<Rightarrow> (x, (fst s, r)))"

definition own_transactions :: "('r world, 'a) eff \<Rightarrow> ('r scope, 'a) eff" where
  "own_transactions m s =
     (case m \<lparr>w_db = s_stored (fst s), w_redis = snd s\<rparr> of
        (x, w) \<Rightarrow> (x, (\<lparr>s_stored = w_db w, s_view = w_db w\<rparr>, w_redis w)))"

text \<open>The handlers that commit before they publish, statement by statement.\<close>

definition prepare_fresh :: "nat \<Rightarrow> (int \<Rightarrow> time) \<Rightarrow> int \<Rightarrow> (db, job_run \<times> job_run list) eff" where
  "prepare_fresh depth ck job_id d =
     (case prepare_trigger_run depth ck job_id MANUAL [] (d, []) of
        (Inl e, (d', _)) \<Rightarrow> (Inl e, d')
      | (Inr run, (d', runs_to_publish)) \<Rightarrow> (Inr (run, runs_to_publish), d'))"

definition trigger_body ::
  "'r redis_api \<Rightarrow> settings \<Rightarrow> nat \<Rightarrow> (int \<Rightarrow> time) \<Rightarrow> int \<Rightarrow> int \<Rightarrow> ('r scope, job_run) eff" where
  "trigger_body api cfg depth ck job_id user_id =
     andthen (query (owned_job job_id user_id)) (\<lambda>_.
     andthen (statements (prepare_fresh depth ck job_id)) (\<lambda>(run, runs_to_publish).
     andthen commit (\<lambda>_.
     andthen (client (for_each runs_to_publish (publish api cfg))) (\<lambda>_. ret run))))"

definition retry_body :: "'r redis_api \<Rightarrow> settings \<Rightarrow> time \<Rightarrow> int \<Rightarrow> int \<Rightarrow> ('r scope, job_run) eff" where
  "retry_body api cfg now run_id user_id =
     andthen (query (get_run run_id user_id)) (\<lambda>run.
       if r_status run \<notin> set TERMINAL then throw (not_terminal_error (r_status run))
       else andthen (statements (create_run now (r_job_id run) RETRY None (r_attempt run + 1) QUEUED)) (\<lambda>new_run.
            andthen commit (\<lambda>_.
            andthen (client (publish api cfg new_run)) (\<lambda>_. ret new_run))))"

section \<open>Response models (schemas.py)\<close>

record job_resp =
  jo_id :: int
  jo_owner_user_id :: "int option"
  jo_name :: string
  jo_description :: "string option"
  jo_category :: "string option"
  jo_task_type :: string
  jo_task_spec :: json_dict
  jo_schedule_type :: string
  jo_schedule_expr :: "string option"
  jo_timezone :: string
  jo_enabled :: bool
  jo_max_retries :: int
  jo_retry_backoff_sec :: int
  jo_timeout_sec :: int
  jo_depends_on :: "int list"
  jo_created_at :: time
  jo_updated_at :: time

definition JobOut :: "job_out \<Rightarrow> job_resp" where
  "JobOut x =
     (let j = o_job x in
      \<lparr>jo_id = j_id j, jo_owner_user_id = j_owner_user_id j, jo_name = j_name j, jo_description = j_description j,
       jo_category = j_category j, jo_task_type = j_task_type j, jo_task_spec = j_task_spec j,
       jo_schedule_type = j_schedule_type j, jo_schedule_expr = j_schedule_expr j, jo_timezone = j_timezone j,
       jo_enabled = j_enabled j, jo_max_retries = j_max_retries j, jo_retry_backoff_sec = j_retry_backoff_sec j,
       jo_timeout_sec = j_timeout_sec j, jo_depends_on = o_depends_on x, jo_created_at = j_created_at j,
       jo_updated_at = j_updated_at j\<rparr>)"

record run_resp =
  ro_id :: int
  ro_job_id :: int
  ro_trigger_type :: string
  ro_status :: string
  ro_attempt :: int
  ro_scheduled_for :: "time option"
  ro_started_at :: "time option"
  ro_finished_at :: "time option"
  ro_exit_code :: "int option"
  ro_result :: "json_dict option"
  ro_error :: "string option"
  ro_worker_id :: "string option"
  ro_created_at :: time

definition JobRunOut :: "job_run \<Rightarrow> run_resp" where
  "JobRunOut r =
     \<lparr>ro_id = r_id r, ro_job_id = r_job_id r, ro_trigger_type = trigger_str (r_trigger_type r),
      ro_status = status_str (r_status r), ro_attempt = r_attempt r, ro_scheduled_for = r_scheduled_for r,
      ro_started_at = r_started_at r, ro_finished_at = r_finished_at r, ro_exit_code = r_exit_code r,
      ro_result = r_result r, ro_error = r_error r, ro_worker_id = r_worker_id r, ro_created_at = r_created_at r\<rparr>"

record log_resp =
  lo_id :: int
  lo_run_id :: int
  lo_ts :: time
  lo_stream :: string
  lo_line :: string

definition stream_str :: "log_stream \<Rightarrow> string" where
  "stream_str s = (case s of STDOUT \<Rightarrow> ''stdout'' | STDERR \<Rightarrow> ''stderr'' | SYSTEM \<Rightarrow> ''system'')"

definition JobRunLogOut :: "job_run_log \<Rightarrow> log_resp" where
  "JobRunLogOut l =
     \<lparr>lo_id = l_id l, lo_run_id = l_run_id l, lo_ts = l_ts l, lo_stream = stream_str (l_stream l), lo_line = l_line l\<rparr>"

definition JobRecentOut :: "job_out \<times> job_run option \<Rightarrow> job_resp \<times> run_resp option" where
  "JobRecentOut x = (JobOut (fst x), map_option JobRunOut (snd x))"

section \<open>Requests\<close>

datatype request =
    Healthz | Readyz | MetricsPage | Root
  | Register user_create | Login user_login | Me
  | CreateJob job_base | ListJobs "bool option" int int | RecentJobs int | DraftFromFile "string option" string
  | GetJob int | UpdateJob int job_update | DeleteJob int | TriggerJob int
  | LatestRun int | LatestLogs int int int | JobRuns int "string option" int int
  | ListRuns "string option" int int | GetRun int | RunLogs int int int | RetryRun int | CancelRun int

text \<open>The handlers without \<^verbatim>\<open>Depends(get_current_user)\<close>.\<close>

fun is_public :: "request \<Rightarrow> bool" where
  "is_public Healthz = True"
| "is_public Readyz = True"
| "is_public MetricsPage = True"
| "is_public Root = True"
| "is_public (Register _) = True"
| "is_public (Login _) = True"
| "is_public _ = False"

text \<open>The bounds of \<^verbatim>\<open>JobUpdate\<close> and of the query parameters.\<close>

definition opt_in :: "int option option \<Rightarrow> int \<Rightarrow> int \<Rightarrow> bool" where
  "opt_in v lo hi = (case v of Some (Some n) \<Rightarrow> lo \<le> n \<and> n \<le> hi | _ \<Rightarrow> True)"

definition JobUpdate_ok :: "job_update \<Rightarrow> bool" where
  "JobUpdate_ok u \<longleftrightarrow> (case up_category u of Some (Some c) \<Rightarrow> length c \<le> 64 | _ \<Rightarrow> True) \<and>
     opt_in (up_max_retries u) 0 100 \<and> opt_in (up_retry_backoff_sec u) 0 86400 \<and> opt_in (up_timeout_sec u) 1 86400"

definition page_ok :: "int \<Rightarrow> int \<Rightarrow> int \<Rightarrow> bool" where
  "page_ok most limit offset \<longleftrightarrow> 1 \<le> limit \<and> limit \<le> most \<and> 0 \<le> offset"

fun params_ok :: "(string \<Rightarrow> bool) \<Rightarrow> request \<Rightarrow> bool" where
  "params_ok cv (Register p) = UserCreate_ok p"
| "params_ok cv (Login p) = UserLogin_ok p"
| "params_ok cv (CreateJob p) = (JobBase_validate cv p = Inr p)"
| "params_ok cv (ListJobs enabled limit offset) = page_ok 500 limit offset"
| "params_ok cv (RecentJobs limit) = page_ok 50 limit 0"
| "params_ok cv (UpdateJob i u) = JobUpdate_ok u"
| "params_ok cv (LatestLogs i limit offset) = page_ok 5000 limit offset"
| "params_ok cv (JobRuns i st limit offset) = page_ok 500 limit offset"
| "params_ok cv (ListRuns st limit offset) = page_ok 500 limit offset"
| "params_ok cv (RunLogs i limit offset) = page_ok 5000 limit offset"
| "params_ok cv _ = True"

section \<open>Responses\<close>

datatype body =
    NoContent | Detail string | Invalid | Exposition
  | Dict "(string \<times> string) list" | Ready string "(string \<times> string) list"
  | TokenB token_out | UserB user_out
  | JobB job_resp | JobsB "job_resp list" | RecentB "(job_resp \<times> run_resp option) list" | DraftB job_draft
  | RunB run_resp | MaybeRunB "run_resp option" | RunsB "run_resp list" | LogsB "log_resp list"

type_synonym response = "int \<times> body"

text \<open>
  What the outside contributes to one request: the libraries, the clocks, the salt, the
  interpreter's recursion limit, the state of the probed services (the text of the
  exception, if any), and what others commit while a cancellation is handled.
\<close>

record input =
  in_lib :: auth_lib
  in_utf8 :: "string \<Rightarrow> string option"
  in_cron :: "string \<Rightarrow> bool"
  in_error_text :: "job_base option \<Rightarrow> string"
  in_depth :: nat
  in_reg :: reg_input
  in_now :: time
  in_created :: time
  in_updated :: time
  in_create :: "int \<Rightarrow> time"
  in_between :: "db \<Rightarrow> db"
  in_database :: "string option"
  in_redis :: "string option"

subsection \<open>Probes (health.py)\<close>

definition healthz :: "(string \<times> string) list" where
  "healthz = [(''status'', ''ok'')]"

definition probe :: "string option \<Rightarrow> string" where
  "probe failure = (case failure of None \<Rightarrow> ''ok'' | Some exc \<Rightarrow> ''error: '' @ exc)"

definition readyz :: "string option \<Rightarrow> string option \<Rightarrow> response" where
  "readyz database redis =
     (let checks = [(''database'', probe database), (''redis'', probe redis)];
          ok = (database = None \<and> redis = None)
      in (if ok then 200 else 503, Ready (if ok then ''ok'' else ''degraded'') checks))"

definition root_info :: "(string \<times> string) list" where
  "root_info = [(''service'', ''job-scheduler-api''), (''version'', ''0.1.0''), (''docs'', ''/docs''),
     (''openapi'', ''/openapi.json'')]"

subsection \<open>Handlers\<close>

fun public_endpoint :: "input \<Rightarrow> settings \<Rightarrow> request \<Rightarrow> ('r scope, response) eff" where
  "public_endpoint x cfg Healthz = ret (200, Dict healthz)"
| "public_endpoint x cfg Readyz = ret (readyz (in_database x) (in_redis x))"
| "public_endpoint x cfg MetricsPage = ret (200, Exposition)"
| "public_endpoint x cfg Root = ret (200, Dict root_info)"
| "public_endpoint x cfg (Register p) =
     andthen (statements (register (in_lib x) cfg (in_reg x) p)) (\<lambda>t. ret (201, TokenB t))"
| "public_endpoint x cfg (Login p) =
     andthen (query (login (in_lib x) cfg (in_now x) p)) (\<lambda>t. ret (200, TokenB t))"
| "public_endpoint x cfg _ = throw (HTTPException 404 ''Not Found'')"

fun endpoint :: "input \<Rightarrow> 'r redis_api \<Rightarrow> settings \<Rightarrow> user \<Rightarrow> request \<Rightarrow> ('r scope, response) eff" where
  "endpoint x api cfg u Me = ret (200, UserB (me u))"
| "endpoint x api cfg u (CreateJob p) =
     andthen (statements (api_create_job (in_created x) (in_updated x) p (u_id u))) (\<lambda>j. ret (201, JobB (JobOut j)))"
| "endpoint x api cfg u (ListJobs enabled limit offset) =
     andthen (query (\<lambda>d. Inr (api_list_jobs enabled limit offset (u_id u) d))) (\<lambda>js. ret (200, JobsB (map JobOut js)))"
| "endpoint x api cfg u (RecentJobs limit) =
     andthen (query (\<lambda>d. Inr (list_recent_jobs limit (u_id u) d))) (\<lambda>js. ret (200, RecentB (map JobRecentOut js)))"
| "endpoint x api cfg u (DraftFromFile filename file) =
     andthen (query (\<lambda>d. create_job_draft_from_file (in_utf8 x) (in_cron x) filename file)) (\<lambda>j. ret (200, DraftB j))"
| "endpoint x api cfg u (GetJob i) =
     andthen (query (api_get_job i (u_id u))) (\<lambda>j. ret (200, JobB (JobOut j)))"
| "endpoint x api cfg u (UpdateJob i p) =
     andthen (statements (api_update_job (in_cron x) (in_error_text x) (in_updated x) i p (u_id u))) (\<lambda>j.
     ret (200, JobB (JobOut j)))"
| "endpoint x api cfg u (DeleteJob i) =
     andthen (statements (api_delete_job i (u_id u))) (\<lambda>_. ret (204, NoContent))"
| "endpoint x api cfg u (TriggerJob i) =
     andthen (trigger_body api cfg (in_depth x) (in_create x) i (u_id u)) (\<lambda>r. ret (202, RunB (JobRunOut r)))"
| "endpoint x api cfg u (LatestRun i) =
     andthen (query (get_latest_job_run i (u_id u))) (\<lambda>r. ret (200, MaybeRunB (map_option JobRunOut r)))"
| "endpoint x api cfg u (LatestLogs i limit offset) =
     andthen (query (get_latest_job_run_logs i limit offset (u_id u))) (\<lambda>ls. ret (200, LogsB (map JobRunLogOut ls)))"
| "endpoint x api cfg u (JobRuns i st limit offset) =
     andthen (query (list_job_runs i st limit offset (u_id u))) (\<lambda>rs. ret (200, RunsB (map JobRunOut rs)))"
| "endpoint x api cfg u (ListRuns st limit offset) =
     andthen (query (\<lambda>d. Inr (list_runs st limit offset (u_id u) d))) (\<lambda>rs. ret (200, RunsB (map JobRunOut rs)))"
| "endpoint x api cfg u (GetRun i) =
     andthen (query (get_run i (u_id u))) (\<lambda>r. ret (200, RunB (JobRunOut r)))"
| "endpoint x api cfg u (RunLogs i limit offset) =
     andthen (query (get_run_logs i limit offset (u_id u))) (\<lambda>ls. ret (200, LogsB (map JobRunLogOut ls)))"
| "endpoint x api cfg u (RetryRun i) =
     andthen (retry_body api cfg (in_updated x) i (u_id u)) (\<lambda>r. ret (202, RunB (JobRunOut r)))"
| "endpoint x api cfg u (CancelRun i) =
     andthen (own_transactions (api_cancel_run api cfg (in_updated x) (in_between x) i (u_id u))) (\<lambda>r.
     ret (200, RunB (JobRunOut r)))"
| "endpoint x api cfg u _ = throw (HTTPException 404 ''Not Found'')"

text \<open>Dependencies, validation, handler; the session ends with the handler.\<close>

definition handle_request ::
  "input \<Rightarrow> 'r redis_api \<Rightarrow> settings \<Rightarrow> (string \<times> string) option \<Rightarrow> request \<Rightarrow> ('r world, response) eff" where
  "handle_request x api cfg credentials req =
     get_session
       (if is_public req then
          (if params_ok (in_cron x) req then public_endpoint x cfg req else ret (422, Invalid))
        else
          andthen (query (get_current_user (in_lib x) cfg (in_now x) credentials)) (\<lambda>current_user.
            if params_ok (in_cron x) req then endpoint x api cfg current_user req else ret (422, Invalid)))"

text \<open>\<^verbatim>\<open>HTTPException\<close> is turned into a response below the middleware.\<close>

definition http_exception_handler :: "('s, response) eff \<Rightarrow> ('s, response) eff" where
  "http_exception_handler m s =
     (case m s of (Inl (HTTPException code detail), s') \<Rightarrow> (Inr (code, Detail detail), s') | res \<Rightarrow> res)"

definition metrics_middleware ::
  "string \<Rightarrow> string \<Rightarrow> ('s, response) eff \<Rightarrow> ('s observed, response) eff" where
  "metrics_middleware verb path call_next s =
     (case call_next (fst s) of
        (x, w) \<Rightarrow>
          (let status_code = (case x of Inl _ \<Rightarrow> 500 | Inr (code, _) \<Rightarrow> code)
           in (x, (w, snd s @
                [Inc HTTP_INFLIGHT [],
                 Observe HTTP_REQUEST_DURATION [(''method'', verb), (''path'', path)],
                 Inc HTTP_REQUESTS [(''method'', verb), (''path'', path), (''status_code'', int_str status_code)],
                 Dec HTTP_INFLIGHT]))))"

definition unhandled_exception_handler :: "exn \<Rightarrow> response" where
  "unhandled_exception_handler exc = (500, Detail ''internal server error'')"


section \<open>Routing (main.py and the decorators of the routers)\<close>

datatype segment = Lit string | Param string

record api_route =
  rt_verb :: string
  rt_path :: "segment list"
  rt_endpoint :: string

definition mk_route :: "segment list \<Rightarrow> string \<Rightarrow> segment list \<Rightarrow> string \<Rightarrow> api_route" where
  "mk_route prefix verb path name = \<lparr>rt_verb = verb, rt_path = prefix @ path, rt_endpoint = name\<rparr>"

definition health_routes :: "api_route list" where
  "health_routes = [mk_route [] ''GET'' [Lit ''healthz''] ''healthz'', mk_route [] ''GET'' [Lit ''readyz''] ''readyz'']"

definition auth_routes :: "api_route list" where
  "auth_routes =
     (let add = mk_route [Lit ''api'', Lit ''v1'', Lit ''auth''] in
      [add ''POST'' [Lit ''register''] ''register'', add ''POST'' [Lit ''login''] ''login'', add ''GET'' [Lit ''me''] ''me''])"

definition jobs_routes :: "api_route list" where
  "jobs_routes =
     (let add = mk_route [Lit ''api'', Lit ''v1'', Lit ''jobs'']; job_id = Param ''job_id'' in
      [add ''POST'' [] ''create_job'',
       add ''GET'' [] ''list_jobs'',
       add ''GET'' [Lit ''recent''] ''list_recent_jobs'',
       add ''POST'' [Lit ''drafts'', Lit ''from-file''] ''create_job_draft_from_file'',
       add ''GET'' [job_id] ''get_job'',
       add ''PUT'' [job_id] ''update_job'',
       add ''DELETE'' [job_id] ''delete_job'',
       add ''POST'' [job_id, Lit ''trigger''] ''trigger_job'',
       add ''GET'' [job_id, Lit ''latest-run''] ''get_latest_job_run'',
       add ''GET'' [job_id, Lit ''logs''] ''get_latest_job_run_logs'',
       add ''GET'' [job_id, Lit ''runs''] ''list_job_runs''])"

definition runs_routes :: "api_route list" where
  "runs_routes =
     (let add = mk_route [Lit ''api'', Lit ''v1'', Lit ''runs'']; run_id = Param ''run_id'' in
      [add ''GET'' [] ''list_runs'',
       add ''GET'' [run_id] ''get_run'',
       add ''GET'' [run_id, Lit ''logs''] ''get_run_logs'',
       add ''POST'' [run_id, Lit ''retry''] ''retry_run'',
       add ''POST'' [run_id, Lit ''cancel''] ''cancel_run''])"

definition app_routes :: "api_route list" where
  "app_routes = health_routes @ auth_routes @ jobs_routes @ runs_routes @
     [mk_route [] ''GET'' [Lit ''metrics''] ''metrics'', mk_route [] ''GET'' [Lit ''''] ''root'']"

text \<open>A parameter takes one non-empty segment; the first route that fits path and method wins.\<close>

fun match_path :: "segment list \<Rightarrow> string list \<Rightarrow> bool" where
  "match_path [] [] = True"
| "match_path (Lit s # ss) (p # ps) = (s = p \<and> match_path ss ps)"
| "match_path (Param _ # ss) (p # ps) = (p \<noteq> [] \<and> match_path ss ps)"
| "match_path _ _ = False"

datatype routed = Found api_route | MethodNotAllowed api_route | NotFound

definition dispatch :: "api_route list \<Rightarrow> string \<Rightarrow> string list \<Rightarrow> routed" where
  "dispatch routes verb path =
     (let partial = filter (\<lambda>r. match_path (rt_path r) path) routes
      in case filter (\<lambda>r. rt_verb r = verb) partial of
           r # _ \<Rightarrow> Found r
         | [] \<Rightarrow> (case partial of r # _ \<Rightarrow> MethodNotAllowed r | [] \<Rightarrow> NotFound))"

definition segment_str :: "segment \<Rightarrow> string" where
  "segment_str s = (case s of Lit t \<Rightarrow> CHR ''/'' # t | Param p \<Rightarrow> CHR ''/'' # CHR 0x7B # p @ [CHR 0x7D])"

definition route_path :: "routed \<Rightarrow> string" where
  "route_path r =
     (case r of Found t \<Rightarrow> concat (map segment_str (rt_path t))
      | MethodNotAllowed t \<Rightarrow> concat (map segment_str (rt_path t))
      | NotFound \<Rightarrow> ''__unmatched__'')"

text \<open>The method and the path of a request, and the handler meant to answer it.\<close>

fun url_of :: "request \<Rightarrow> string \<times> string list" where
  "url_of Healthz = (''GET'', [''healthz''])"
| "url_of Readyz = (''GET'', [''readyz''])"
| "url_of MetricsPage = (''GET'', [''metrics''])"
| "url_of Root = (''GET'', [''''])"
| "url_of (Register _) = (''POST'', [''api'', ''v1'', ''auth'', ''register''])"
| "url_of (Login _) = (''POST'', [''api'', ''v1'', ''auth'', ''login''])"
| "url_of Me = (''GET'', [''api'', ''v1'', ''auth'', ''me''])"
| "url_of (CreateJob _) = (''POST'', [''api'', ''v1'', ''jobs''])"
| "url_of (ListJobs _ _ _) = (''GET'', [''api'', ''v1'', ''jobs''])"
| "url_of (RecentJobs _) = (''GET'', [''api'', ''v1'', ''jobs'', ''recent''])"
| "url_of (DraftFromFile _ _) = (''POST'', [''api'', ''v1'', ''jobs'', ''drafts'', ''from-file''])"
| "url_of (GetJob i) = (''GET'', [''api'', ''v1'', ''jobs'', int_str i])"
| "url_of (UpdateJob i _) = (''PUT'', [''api'', ''v1'', ''jobs'', int_str i])"
| "url_of (DeleteJob i) = (''DELETE'', [''api'', ''v1'', ''jobs'', int_str i])"
| "url_of (TriggerJob i) = (''POST'', [''api'', ''v1'', ''jobs'', int_str i, ''trigger''])"
| "url_of (LatestRun i) = (''GET'', [''api'', ''v1'', ''jobs'', int_str i, ''latest-run''])"
| "url_of (LatestLogs i _ _) = (''GET'', [''api'', ''v1'', ''jobs'', int_str i, ''logs''])"
| "url_of (JobRuns i _ _ _) = (''GET'', [''api'', ''v1'', ''jobs'', int_str i, ''runs''])"
| "url_of (ListRuns _ _ _) = (''GET'', [''api'', ''v1'', ''runs''])"
| "url_of (GetRun i) = (''GET'', [''api'', ''v1'', ''runs'', int_str i])"
| "url_of (RunLogs i _ _) = (''GET'', [''api'', ''v1'', ''runs'', int_str i, ''logs''])"
| "url_of (RetryRun i) = (''POST'', [''api'', ''v1'', ''runs'', int_str i, ''retry''])"
| "url_of (CancelRun i) = (''POST'', [''api'', ''v1'', ''runs'', int_str i, ''cancel''])"

fun endpoint_name :: "request \<Rightarrow> string" where
  "endpoint_name Healthz = ''healthz''"
| "endpoint_name Readyz = ''readyz''"
| "endpoint_name MetricsPage = ''metrics''"
| "endpoint_name Root = ''root''"
| "endpoint_name (Register _) = ''register''"
| "endpoint_name (Login _) = ''login''"
| "endpoint_name Me = ''me''"
| "endpoint_name (CreateJob _) = ''create_job''"
| "endpoint_name (ListJobs _ _ _) = ''list_jobs''"
| "endpoint_name (RecentJobs _) = ''list_recent_jobs''"
| "endpoint_name (DraftFromFile _ _) = ''create_job_draft_from_file''"
| "endpoint_name (GetJob _) = ''get_job''"
| "endpoint_name (UpdateJob _ _) = ''update_job''"
| "endpoint_name (DeleteJob _) = ''delete_job''"
| "endpoint_name (TriggerJob _) = ''trigger_job''"
| "endpoint_name (LatestRun _) = ''get_latest_job_run''"
| "endpoint_name (LatestLogs _ _ _) = ''get_latest_job_run_logs''"
| "endpoint_name (JobRuns _ _ _ _) = ''list_job_runs''"
| "endpoint_name (ListRuns _ _ _) = ''list_runs''"
| "endpoint_name (GetRun _) = ''get_run''"
| "endpoint_name (RunLogs _ _ _) = ''get_run_logs''"
| "endpoint_name (RetryRun _) = ''retry_run''"
| "endpoint_name (CancelRun _) = ''cancel_run''"

section \<open>The application\<close>

definition serve ::
  "input \<Rightarrow> 'r redis_api \<Rightarrow> settings \<Rightarrow> (string \<times> string) option \<Rightarrow> request \<Rightarrow> 'r world observed \<Rightarrow> response \<times> 'r world observed" where
  "serve x api cfg credentials req s =
     (case url_of req of (verb, path) \<Rightarrow>
        (case metrics_middleware verb (route_path (dispatch app_routes verb path))
                (http_exception_handler (handle_request x api cfg credentials req)) s of
           (Inl e, s') \<Rightarrow> (unhandled_exception_handler e, s')
         | (Inr r, s') \<Rightarrow> (r, s')))"

section \<open>Lemmas on sessions\<close>

text \<open>A body that leaves its session alone when it raises: its scope is one transaction.\<close>

definition atomic :: "('s, 'a) eff \<Rightarrow> bool" where
  "atomic m \<longleftrightarrow> (\<forall>s e s'. m s = (Inl e, s') \<longrightarrow> s' = s)"

lemma session_scope_atomic: "atomic m \<Longrightarrow> session_scope (in_session m) = m"
  by (auto simp: fun_eq_iff session_scope_def in_session_def session_commit_def session_rollback_def atomic_def
      split: prod.splits sum.splits)

text \<open>So the store functions and the handlers that leave the commit to their session are transactions.\<close>

lemma store_atomic:
  "atomic (append_logs ts i es)" "atomic (create_retry_run now j att)" "atomic (create_dependency_run now j)"
  "atomic (api_create_job created updated p uid)" "atomic (api_update_job cv et now i u uid)"
  "atomic (api_delete_job i uid)" "atomic (register lib cfg ri sp)"
  by (auto simp: atomic_def append_logs_def create_retry_run_def create_dependency_run_def create_run_def insert_run_def
      api_create_job_def crud_create_job_def api_update_job_def crud_update_job_def api_delete_job_def register_def Let_def
      split: sum.splits option.splits prod.splits if_splits)

lemmas store_transactions = store_atomic[THEN session_scope_atomic]

text \<open>Whatever the body did before it raised is undone, unless it committed.\<close>

lemma session_scope_rollback: "session_scope (in_session m) d = (Inl e, d') \<Longrightarrow> d' = d"
  by (auto simp: session_scope_def in_session_def session_rollback_def split: prod.splits sum.splits)

lemma statements_andthen:
  "get_session (andthen (statements m) (\<lambda>y. ret (f y))) w =
     (case m (w_db w) of (Inl e, _) \<Rightarrow> (Inl e, w) | (Inr y, d) \<Rightarrow> (Inr (f y), w\<lparr>w_db := d\<rparr>))"
  by (auto simp: get_session_def andthen_def statements_def ret_def session_commit_def session_rollback_def
      split: prod.splits sum.splits)

lemma query_andthen:
  "get_session (andthen (query g) (\<lambda>y. ret (f y))) w = (map_sum id f (g (w_db w)), w)"
  by (auto simp: get_session_def andthen_def query_def ret_def session_commit_def session_rollback_def
      split: prod.splits sum.splits)

lemma get_session_query:
  "get_session (andthen (query g) k) w = (case g (w_db w) of Inl e \<Rightarrow> (Inl e, w) | Inr y \<Rightarrow> get_session (k y) w)"
  by (auto simp: get_session_def andthen_def query_def session_rollback_def split: sum.splits)

lemma get_session_ret [simp]: "get_session (ret y) w = (Inr y, w)"
  by (simp add: get_session_def ret_def session_commit_def)

lemma get_session_trigger:
  "get_session (andthen (trigger_body api cfg depth ck i uid) (\<lambda>r. ret (f r))) w =
     (case trigger_job api cfg depth ck i uid w of (y, w') \<Rightarrow> (map_sum id f y, w'))"
  unfolding trigger_body_def
  by (auto simp: get_session_def trigger_job_def prepare_fresh_def andthen_def query_def statements_def commit_def client_def
      on_redis_def ret_def session_commit_def session_rollback_def split: prod.splits sum.splits)

lemma get_session_retry:
  "get_session (andthen (retry_body api cfg now i uid) (\<lambda>r. ret (f r))) w =
     (case retry_run api cfg now i uid w of (y, w') \<Rightarrow> (map_sum id f y, w'))"
  unfolding retry_body_def
  by (auto simp: get_session_def retry_run_def andthen_def query_def statements_def commit_def client_def on_db_def
      on_redis_def ret_def throw_def create_run_def session_commit_def session_rollback_def
      dest!: insert_run_Inl split: prod.splits sum.splits)

lemma get_session_own:
  "get_session (andthen (own_transactions m) (\<lambda>r. ret (f r))) w = (case m w of (y, w') \<Rightarrow> (map_sum id f y, w'))"
  by (cases w) (auto simp: get_session_def andthen_def own_transactions_def ret_def session_commit_def session_rollback_def
      split: prod.splits sum.splits)


section \<open>Lemmas on routing\<close>

lemma int_str_number: "int_str i \<noteq> [] \<and> int_str i \<noteq> CHR ''r'' # s"
proof -
  have "c \<noteq> CHR ''r''" if "c \<in> set (nat_str n)" for c n
    using nat_str_digits[of n] that by (auto simp: list_all_iff is_dig_def)
  moreover have "nat_str n \<noteq> []" for n by (subst nat_str.simps) simp
  ultimately show ?thesis by (auto simp: int_str_def) (metis list.set_intros(1))+
qed

lemmas route_defs = app_routes_def health_routes_def auth_routes_def jobs_routes_def runs_routes_def mk_route_def Let_def

section \<open>Whose data a response shows\<close>

definition job_owned :: "db \<Rightarrow> int \<Rightarrow> job_resp \<Rightarrow> bool" where
  "job_owned d uid j \<longleftrightarrow> jo_owner_user_id j = Some uid \<and> list_all (\<lambda>k. owner_of d k = Some uid) (jo_depends_on j)"

definition run_owned :: "db \<Rightarrow> int \<Rightarrow> run_resp \<Rightarrow> bool" where
  "run_owned d uid r \<longleftrightarrow> owner_of d (ro_job_id r) = Some uid"

definition log_owned :: "db \<Rightarrow> int \<Rightarrow> log_resp \<Rightarrow> bool" where
  "log_owned d uid l \<longleftrightarrow> run_owner d (lo_run_id l) = Some uid"

fun body_owned :: "db \<Rightarrow> int \<Rightarrow> body \<Rightarrow> bool" where
  "body_owned d uid (UserB u) = (uo_id u = uid)"
| "body_owned d uid (TokenB t) = False"
| "body_owned d uid (JobB j) = job_owned d uid j"
| "body_owned d uid (JobsB js) = list_all (job_owned d uid) js"
| "body_owned d uid (RecentB js) = list_all (\<lambda>(j, r). job_owned d uid j \<and> pred_option (run_owned d uid) r) js"
| "body_owned d uid (RunB r) = run_owned d uid r"
| "body_owned d uid (MaybeRunB r) = pred_option (run_owned d uid) r"
| "body_owned d uid (RunsB rs) = list_all (run_owned d uid) rs"
| "body_owned d uid (LogsB ls) = list_all (log_owned d uid) ls"
| "body_owned d uid _ = True"

lemma owner_of_job: "wf_db d \<Longrightarrow> j \<in> set (jobs d) \<Longrightarrow> owner_of d (j_id j) = j_owner_user_id j"
  using get_job_row_iff[of d "j_id j" j] by (simp add: owner_of_def)

lemma job_owned_dict:
  assumes "wf_db d" "deps_owned d" and j: "j \<in> set (jobs d)" "j_owner_user_id j = Some uid"
  shows "job_owned d uid (JobOut (job_to_dict d j))"
  using assms(2) owner_of_job[OF assms(1) j(1)] j(2)
  by (auto simp: job_owned_def JobOut_def Let_def job_to_dict_def crud_dependency_ids_def list_all_iff deps_owned_def)

lemma owned_job_in:
  assumes "wf_db d" and "owned_job i uid d = Inr j"
  shows "j \<in> set (jobs d)" "j_id j = i" "j_owner_user_id j = Some uid" "owner_of d i = Some uid"
proof -
  have "get_job_row d i = Some j" "j_owner_user_id j = Some uid" using assms owned_job_iff(1) by auto
  then show "j \<in> set (jobs d)" "j_id j = i" "j_owner_user_id j = Some uid" "owner_of d i = Some uid"
    using get_job_row_SomeD owner_of_row by auto
qed

lemma run_owned_of: "owner_of d (r_job_id r) = Some uid \<Longrightarrow> run_owned d uid (JobRunOut r)"
  by (simp add: run_owned_def JobRunOut_def)

lemma latest_run_job: "latest_run_row d i = Some r \<Longrightarrow> r \<in> set (runs d) \<and> r_job_id r = i"
proof -
  assume l: "latest_run_row d i = Some r"
  then have "r \<in> set (newest_first (filter (\<lambda>r. r_job_id r = i) (runs d)))"
    by (auto simp: latest_run_row_def split: list.splits)
  then show ?thesis by (simp add: newest_first_def)
qed

lemma page_in: "x \<in> set (page limit offset xs) \<Longrightarrow> x \<in> set xs"
  by (auto simp: page_def dest: in_set_takeD in_set_dropD)

lemma log_page_owned:
  "run_owner d i = Some uid \<Longrightarrow> list_all (log_owned d uid) (map JobRunLogOut (log_page d i limit offset))"
  by (auto simp: list_all_iff log_owned_def JobRunLogOut_def log_page_def dest!: page_in)

lemma run_owner_of: "wf_db d \<Longrightarrow> r \<in> set (runs d) \<Longrightarrow> run_owner d (r_id r) = owner_of d (r_job_id r)"
  using get_run_row_iff[of d "r_id r" r] by (simp add: run_owner_def)

text \<open>The rows that a successful write hands back.\<close>

lemma create_job_shown:
  assumes w: "wf_db d" and o: "deps_owned d" and c: "api_create_job created updated p uid d = (Inr out, d')"
  shows "job_owned d' uid (JobOut out)"
proof -
  obtain j where j: "crud_create_job created updated p uid d = (Inr j, d')" and out: "out = job_to_dict d' j"
    using c by (auto simp: api_create_job_def split: prod.splits sum.splits)
  note C = crud_create_job_ok[OF w j]
  have "deps_owned d'" using deps_owned_create[OF w o, of created updated p uid] c by simp
  then show ?thesis unfolding out by (rule job_owned_dict[OF C(1)]) (simp_all add: C(3,4))
qed

lemma update_job_shown:
  assumes w: "wf_db d" and o: "deps_owned d" and c: "api_update_job cv et now i u uid d = (Inr out, d')"
  shows "job_owned d' uid (JobOut out)"
proof -
  obtain j j' where j: "owned_job i uid d = Inr j" and u: "crud_update_job cv et now j u d = (Inr j', d')"
    and out: "out = job_to_dict d' j'"
    using c by (auto simp: api_update_job_def split: prod.splits sum.splits)
  note J = owned_job_in[OF w j]
  have row: "get_job_row d (j_id j) = Some j" using get_job_row_iff[OF w, of "j_id j" j] J(1) by simp
  obtain b ds where j': "j' = touch now b j" and wf: "wf_db d'"
    and d': "d' = (case ds of None \<Rightarrow> update_jobs (\<lambda>x. x = j) (touch now b) d
              | Some xs \<Rightarrow> set_dependencies (j_id j) xs (update_jobs (\<lambda>x. x = j) (touch now b) d))"
    by (rule crud_update_job_ok[OF w row u]) blast
  have "jobs d' = update_where (\<lambda>x. x = j) (touch now b) (jobs d)"
    using d' by (cases ds) (simp_all add: update_jobs_def)
  then have "j' \<in> set (jobs d')" using J(1) j' by (auto simp: update_where_def)
  moreover have "j_owner_user_id j' = Some uid" using J(3) j' touch_keys[of now b] by (simp add: keeps_job_keys_def)
  moreover have "deps_owned d'" using deps_owned_update[OF w o, of cv et now i u uid] c by simp
  ultimately show ?thesis unfolding out using wf by (intro job_owned_dict)
qed

lemma trigger_ext:
  assumes w: "wf_db (w_db w)" and o: "deps_owned (w_db w)" and j: "owned_job i uid (w_db w) = Inr j"
    and p: "prepare_trigger_run depth ck i MANUAL [] (w_db w, []) = (y, (d', pub))"
  shows "own_ext uid (w_db w, []) (d', pub)"
  using prepare_owned[of "(w_db w, [])" i uid depth ck MANUAL "[]"] o owned_job_in(4)[OF w j] p by simp

lemma trigger_job_users:
  assumes w: "wf_db (w_db w)" and o: "deps_owned (w_db w)"
  shows "users (w_db (snd (trigger_job api cfg depth ck i uid w))) = users (w_db w)"
  using trigger_ext[OF w o] by (auto simp: trigger_db own_ext_def split: sum.splits prod.splits)

lemma trigger_job_shown:
  assumes w: "wf_db (w_db w)" and o: "deps_owned (w_db w)" and t: "trigger_job api cfg depth ck i uid w = (Inr r, w')"
  shows "owner_of (w_db w') (r_job_id r) = Some uid"
proof -
  obtain j where j: "owned_job i uid (w_db w) = Inr j" using t by (auto simp: trigger_job_def split: sum.splits)
  obtain d' pub where p: "prepare_trigger_run depth ck i MANUAL [] (w_db w, []) = (Inr r, (d', pub))" and w': "w_db w' = d'"
    using t j by (auto simp: trigger_job_def eff_simps split: prod.splits sum.splits)
  show ?thesis
    using own_ext_keeps(2)[OF trigger_ext[OF w o j p], of i] owned_job_in(4)[OF w j] prepare_success[OF _ p] w' by simp
qed

lemma retry_run_users: "users (w_db (snd (retry_run api cfg now i uid w))) = users (w_db w)"
  by (auto simp: retry_run_def andthen_def on_db_def on_redis_def ret_def create_run_def insert_run_def Let_def split: sum.splits prod.splits)

lemma retry_run_shown:
  assumes w: "wf_db (w_db w)" and t: "retry_run api cfg now i uid w = (Inr r, w')"
  shows "owner_of (w_db w') (r_job_id r) = Some uid"
proof -
  obtain q d' where q: "get_run i uid (w_db w) = Inr q"
    and c: "create_run now (r_job_id q) RETRY None (r_attempt q + 1) QUEUED (w_db w) = (Inr r, d')" and w': "w_db w' = d'"
    using t by (auto simp: retry_run_def eff_simps split: sum.splits if_splits)
  have o: "owner_of (w_db w) (r_job_id q) = Some uid" using get_run_owner[OF w q] by (auto simp: run_owner_def)
  have "own_ext uid (w_db w, []) (d', [])" by (rule own_ext_create[OF c o])
  from own_ext_keeps(2)[OF this, of "r_job_id q"] show ?thesis
    using o insert_run_Inr(1)[OF c[unfolded create_run_def]] w' by simp
qed

lemma get_run_job_owner: "wf_db d \<Longrightarrow> get_run i uid d = Inr r \<Longrightarrow> owner_of d (r_job_id r) = Some uid"
  using get_run_owner[of d i uid r] by (auto simp: run_owner_def)

lemma cancel_run_users: "users (w_db (snd (api_cancel_run api cfg now id i uid w))) = users (w_db w)"
  by (auto simp: api_cancel_run_def andthen_def on_redis_def store_cancel_run_def Let_def split: sum.splits prod.splits)

lemma cancel_run_shown:
  assumes w: "wf_db (w_db w)" and t: "api_cancel_run api cfg now id i uid w = (Inr r, w')"
  shows "owner_of (w_db w') (r_job_id r) = Some uid"
proof -
  have "wf_db (w_db w')" using run_ok_api_cancel[OF w, of id api cfg now i uid] run_ok_refl[OF w] t by (simp add: run_ok_def)
  moreover have "get_run i uid (w_db w') = Inr r"
    using t by (auto simp: api_cancel_run_def andthen_def on_redis_def split: sum.splits prod.splits if_splits)
  ultimately show ?thesis by (rule get_run_job_owner)
qed

section \<open>Requests of one user\<close>

lemmas session_simps = statements_andthen query_andthen get_session_trigger get_session_retry get_session_own

lemma read_body:
  "get_session (andthen (query g) (\<lambda>y. ret (c, f y))) w = (Inr (c', b), w') \<Longrightarrow>
   \<exists>y. g (w_db w) = Inr y \<and> b = f y \<and> w' = w"
  by (auto simp: query_andthen) (metis Inl_Inr_False Inr_inject map_sum.simps prod.inject sum.exhaust)

lemma acted_body:
  assumes "(case m w of (y, w') \<Rightarrow> (map_sum id (\<lambda>r. (c, f r)) y, w')) = (Inr (c', b), w')"
  obtains r where "m w = (Inr r, w')" and "b = f r"
  using assms by (cases "fst (m w)") (auto split: prod.splits)

lemma shown_jobs:
  assumes w: "wf_db d" and o: "deps_owned d"
  shows "list_all (job_owned d uid) (map JobOut (api_list_jobs enabled limit offset uid d))"
    and "api_get_job i uid d = Inr out \<Longrightarrow> job_owned d uid (JobOut out)"
    and "list_all (\<lambda>(j, r). job_owned d uid j \<and> pred_option (run_owned d uid) r) (map JobRecentOut (list_recent_jobs limit uid d))"
proof -
  show "list_all (job_owned d uid) (map JobOut (api_list_jobs enabled limit offset uid d))"
    using job_owned_dict[OF w o]
    by (auto simp: list_all_iff api_list_jobs_def crud_list_jobs_def dest!: page_in)
  show "api_get_job i uid d = Inr out \<Longrightarrow> job_owned d uid (JobOut out)"
    using job_owned_dict[OF w o] owned_job_in[OF w] by (auto simp: api_get_job_def split: sum.splits)
  have "pred_option (run_owned d uid) (map_option JobRunOut (latest_run_row d (j_id j)))"
    if "j \<in> set (jobs d)" "j_owner_user_id j = Some uid" for j
    using latest_run_job[of d "j_id j"] owner_of_job[OF w that(1)] that(2)
    by (cases "latest_run_row d (j_id j)") (auto intro: run_owned_of)
  then show "list_all (\<lambda>(j, r). job_owned d uid j \<and> pred_option (run_owned d uid) r) (map JobRecentOut (list_recent_jobs limit uid d))"
    using job_owned_dict[OF w o]
    by (auto simp: list_all_iff list_recent_jobs_def JobRecentOut_def dest!: in_set_takeD)
qed

lemma shown_runs:
  assumes w: "wf_db d"
  shows "get_latest_job_run i uid d = Inr r \<Longrightarrow> pred_option (run_owned d uid) (map_option JobRunOut r)"
    and "get_latest_job_run_logs i limit offset uid d = Inr ls \<Longrightarrow> list_all (log_owned d uid) (map JobRunLogOut ls)"
    and "list_job_runs i st limit offset uid d = Inr rs \<Longrightarrow> list_all (run_owned d uid) (map JobRunOut rs)"
    and "list_all (run_owned d uid) (map JobRunOut (list_runs st limit offset uid d))"
    and "get_run i uid d = Inr q \<Longrightarrow> run_owned d uid (JobRunOut q)"
    and "get_run_logs i limit offset uid d = Inr ls \<Longrightarrow> list_all (log_owned d uid) (map JobRunLogOut ls)"
proof -
  have latest: "run_owner d (r_id q) = Some uid \<and> owner_of d (r_job_id q) = Some uid"
    if "get_latest_job_run i uid d = Inr (Some q)" for q
    using that owned_job_in(4)[OF w] latest_run_job[of d i q] run_owner_of[OF w, of q]
    by (auto simp: get_latest_job_run_def split: sum.splits)
  show "get_latest_job_run i uid d = Inr r \<Longrightarrow> pred_option (run_owned d uid) (map_option JobRunOut r)"
    using latest by (cases r) (auto intro: run_owned_of)
  show "get_latest_job_run_logs i limit offset uid d = Inr ls \<Longrightarrow> list_all (log_owned d uid) (map JobRunLogOut ls)"
    using latest log_page_owned by (auto simp: get_latest_job_run_logs_def split: sum.splits option.splits)
  show "list_job_runs i st limit offset uid d = Inr rs \<Longrightarrow> list_all (run_owned d uid) (map JobRunOut rs)"
    using owned_job_in(4)[OF w]
    by (auto simp: list_job_runs_def list_all_iff newest_first_def split: sum.splits dest!: page_in intro: run_owned_of)
  show "list_all (run_owned d uid) (map JobRunOut (list_runs st limit offset uid d))"
    by (auto simp: list_runs_def list_all_iff newest_first_def owned_by_owner[OF w] dest!: page_in intro: run_owned_of)
  show "get_run i uid d = Inr q \<Longrightarrow> run_owned d uid (JobRunOut q)"
    by (intro run_owned_of get_run_job_owner[OF w])
  show "get_run_logs i limit offset uid d = Inr ls \<Longrightarrow> list_all (log_owned d uid) (map JobRunLogOut ls)"
    using get_run_owner[OF w] log_page_owned by (auto simp: get_run_logs_def split: sum.splits)
qed

lemma endpoint_shown:
  assumes w: "wf_db (w_db w)" and o: "deps_owned (w_db w)" and b: "in_between x = id"
    and e: "get_session (endpoint x api cfg u req) w = (Inr (c, b'), w')"
  shows "body_owned (w_db w') (u_id u) b'"
proof (cases req)
  case (CreateJob p)
  then show ?thesis using e create_job_shown[OF w o] by (auto simp: statements_andthen split: prod.splits sum.splits)
next
  case (UpdateJob i p)
  then show ?thesis using e update_job_shown[OF w o] by (auto simp: statements_andthen split: prod.splits sum.splits)
next
  case (DeleteJob i)
  then show ?thesis using e by (auto simp: statements_andthen split: prod.splits sum.splits)
next
  case (TriggerJob i)
  then obtain r where "trigger_job api cfg (in_depth x) (in_create x) i (u_id u) w = (Inr r, w')" "b' = RunB (JobRunOut r)"
    using e by (auto simp: get_session_trigger elim!: acted_body)
  then show ?thesis using trigger_job_shown[OF w o] by (simp add: run_owned_of)
next
  case (RetryRun i)
  then obtain r where "retry_run api cfg (in_updated x) i (u_id u) w = (Inr r, w')" "b' = RunB (JobRunOut r)"
    using e by (auto simp: get_session_retry elim!: acted_body)
  then show ?thesis using retry_run_shown[OF w] by (simp add: run_owned_of)
next
  case (CancelRun i)
  then obtain r where "api_cancel_run api cfg (in_updated x) id i (u_id u) w = (Inr r, w')" "b' = RunB (JobRunOut r)"
    using e b by (auto simp: get_session_own elim!: acted_body)
  then show ?thesis using cancel_run_shown[OF w] by (simp add: run_owned_of)
qed (use e b shown_jobs[OF w o] shown_runs[OF w] in \<open>auto simp: me_def UserOut_def throw_def get_session_def[of "throw _"] dest!: read_body split: prod.splits sum.splits\<close>)

lemma acted_state: "snd (case m w of (y, w') \<Rightarrow> (f y, w')) = snd (m w)"
  by (simp split: prod.splits)

lemma query_state: "snd (get_session (andthen (query g) (\<lambda>y. ret (f y))) w) = w"
  by (simp add: query_andthen)

lemma statements_state:
  assumes "P (w_db w)" and "P (snd (m (w_db w)))"
  shows "P (w_db (snd (get_session (andthen (statements m) (\<lambda>y. ret (f y))) w)))"
  using assms by (auto simp: statements_andthen split: prod.splits sum.splits)

lemma create_job_users: "users (snd (api_create_job created updated p uid d)) = users d"
  by (auto simp: api_create_job_def crud_create_job_def Let_def split: sum.splits option.splits prod.splits)

lemma update_job_users: "users (snd (api_update_job cv et now i p uid d)) = users d"
  by (auto simp: api_update_job_def crud_update_job_def Let_def split: sum.splits option.splits prod.splits)

lemma delete_job_users: "users (snd (api_delete_job i uid d)) = users d"
  by (auto simp: api_delete_job_def crud_delete_job_def Let_def split: sum.splits)

lemma endpoint_foreign:
  assumes w: "wf_db (w_db w)" and o: "deps_owned (w_db w)" and b: "in_between x = id"
  shows "foreign (u_id u) (w_db (snd (get_session (endpoint x api cfg u req) w))) = foreign (u_id u) (w_db w) \<and>
    users (w_db (snd (get_session (endpoint x api cfg u req) w))) = users (w_db w)"
proof -
  note st = statements_state[where P = "\<lambda>d. foreign (u_id u) d = foreign (u_id u) (w_db w) \<and> users d = users (w_db w)"]
  show ?thesis
  proof (cases req)
    case (CreateJob p)
    show ?thesis unfolding CreateJob endpoint.simps by (intro st) (simp_all add: foreign_create[OF w] create_job_users)
  next
    case (UpdateJob i p)
    show ?thesis unfolding UpdateJob endpoint.simps by (intro st) (simp_all add: foreign_update[OF w] update_job_users)
  next
    case (DeleteJob i)
    show ?thesis unfolding DeleteJob endpoint.simps by (intro st) (simp_all add: foreign_delete[OF w o] delete_job_users)
  next
    case (TriggerJob i)
    then show ?thesis by (simp add: get_session_trigger acted_state foreign_trigger[OF w o] trigger_job_users[OF w o])
  next
    case (RetryRun i)
    then show ?thesis by (simp add: get_session_retry acted_state foreign_retry[OF w] retry_run_users)
  next
    case (CancelRun i)
    then show ?thesis by (simp add: get_session_own acted_state b foreign_cancel[OF w] cancel_run_users)
  qed (simp_all add: query_state get_session_def[of "throw _"] throw_def session_rollback_def)
qed

section \<open>Lemmas on the application\<close>

definition exn_status :: "exn \<Rightarrow> int" where
  "exn_status e = (case e of HTTPException code _ \<Rightarrow> code | _ \<Rightarrow> 500)"

definition answer :: "exn + response \<Rightarrow> response" where
  "answer y = (case y of Inr r \<Rightarrow> r
     | Inl e \<Rightarrow> (exn_status e, Detail (case e of HTTPException _ detail \<Rightarrow> detail | _ \<Rightarrow> ''internal server error'')))"

text \<open>The calls that account for one request.\<close>

definition accounted :: "request \<Rightarrow> int \<Rightarrow> sample list" where
  "accounted req code =
     (case url_of req of (verb, path) \<Rightarrow>
        let label = route_path (dispatch app_routes verb path) in
        [Inc HTTP_INFLIGHT [], Observe HTTP_REQUEST_DURATION [(''method'', verb), (''path'', label)],
         Inc HTTP_REQUESTS [(''method'', verb), (''path'', label), (''status_code'', int_str code)], Dec HTTP_INFLIGHT])"

text \<open>The status that the middleware counts is the status of the response, unhandled exceptions included.\<close>

lemma serve_eq:
  "serve x api cfg cr req (w, ms) =
     (case handle_request x api cfg cr req w of (y, w') \<Rightarrow> (answer y, (w', ms @ accounted req (fst (answer y)))))"
  by (auto simp: serve_def metrics_middleware_def http_exception_handler_def unhandled_exception_handler_def answer_def
      exn_status_def accounted_def Let_def split: prod.splits sum.splits exn.splits)

lemma serveD:
  assumes "serve x api cfg cr req (w, ms) = (r, (w', ms'))"
  obtains y where "handle_request x api cfg cr req w = (y, w')" "r = answer y" "ms' = ms @ accounted req (fst r)"
  using assms by (auto simp: serve_eq split: prod.splits)

lemma handle_private:
  "\<not> is_public req \<Longrightarrow> handle_request x api cfg cr req w =
     (case get_current_user (in_lib x) cfg (in_now x) cr (w_db w) of Inl e \<Rightarrow> (Inl e, w)
      | Inr u \<Rightarrow> if params_ok (in_cron x) req then get_session (endpoint x api cfg u req) w else (Inr (422, Invalid), w))"
  by (simp add: handle_request_def get_session_query split: sum.splits)

lemma handle_public:
  "is_public req \<Longrightarrow> handle_request x api cfg cr req w =
     (if params_ok (in_cron x) req then get_session (public_endpoint x cfg req) w else (Inr (422, Invalid), w))"
  by (simp add: handle_request_def)

text \<open>An error leaves the database alone unless the handler commits by itself.\<close>

definition is_error :: "exn + response \<Rightarrow> bool" where
  "is_error y = (case y of Inl _ \<Rightarrow> True | Inr (code, _) \<Rightarrow> 400 \<le> code)"

definition commits_itself :: "request \<Rightarrow> bool" where
  "commits_itself req = (case req of TriggerJob _ \<Rightarrow> True | RetryRun _ \<Rightarrow> True | CancelRun _ \<Rightarrow> True | _ \<Rightarrow> False)"

lemma statements_failed:
  "get_session (andthen (statements m) (\<lambda>y. ret (c, f y))) w = (y, w') \<Longrightarrow> is_error y \<Longrightarrow> c < 400 \<Longrightarrow> w' = w"
  by (auto simp: statements_andthen is_error_def split: prod.splits sum.splits)

lemma query_same: "get_session (andthen (query g) (\<lambda>y. ret (f y))) w = (y, w') \<Longrightarrow> w' = w"
  by (simp add: query_andthen)

lemma endpoint_failed:
  "get_session (endpoint x api cfg u req) w = (y, w') \<Longrightarrow> is_error y \<Longrightarrow> \<not> commits_itself req \<Longrightarrow> w' = w"
  by (cases req)
    (auto simp: commits_itself_def get_session_def[of "throw _"] throw_def session_rollback_def
      dest: statements_failed query_same)

lemma public_failed:
  "get_session (public_endpoint x cfg req) w = (y, w') \<Longrightarrow> is_error y \<Longrightarrow> w' = w"
  by (cases req)
    (auto simp: get_session_def[of "throw _"] throw_def session_rollback_def dest: statements_failed query_same)

lemma answer_error: "400 \<le> fst (answer y) \<Longrightarrow> is_error y"
  by (auto simp: answer_def is_error_def split: sum.splits)

section \<open>Properties\<close>

text \<open>
  Claim C31: every request reaches the handler written for it, with the order in which
  the routers are included and their routes declared: in particular the fixed path
  \<^verbatim>\<open>/jobs/recent\<close> is not taken for a job identifier. The metrics therefore label the
  request with the template of this handler's path, never with the raw path.
\<close>

theorem routes_dispatch:
  "\<exists>r. dispatch app_routes (fst (url_of req)) (snd (url_of req)) = Found r \<and> rt_endpoint r = endpoint_name req \<and> r \<in> set app_routes"
proof -
  have n: "int_str i \<noteq> []" "int_str i \<noteq> ''recent''" for i using int_str_number[of i] by simp_all
  show ?thesis by (cases req) (simp_all add: dispatch_def route_defs n n[symmetric])
qed


text \<open>
  Claim C4: tenants are isolated. A request that needs a user and comes without
  acceptable credentials changes nothing and is told nothing but the error. For a user,
  whatever the request and however it ends, the jobs, runs, dependencies and logs of
  everybody else and all accounts stay as they are, and the response shows jobs (with
  the jobs they depend on), runs and logs of this user only.
\<close>

theorem tenant_isolation:
  assumes w: "wf_db (w_db w)" and o: "deps_owned (w_db w)" and b: "in_between x = id" and np: "\<not> is_public req"
    and s: "serve x api cfg credentials req (w, ms) = ((code, body), (w', ms'))"
  shows "case get_current_user (in_lib x) cfg (in_now x) credentials (w_db w) of
      Inl e \<Rightarrow> w' = w \<and> code = exn_status e \<and> (\<exists>text. body = Detail text)
    | Inr u \<Rightarrow> foreign (u_id u) (w_db w') = foreign (u_id u) (w_db w) \<and> users (w_db w') = users (w_db w) \<and>
        body_owned (w_db w') (u_id u) body"
proof -
  obtain y where h: "handle_request x api cfg credentials req w = (y, w')" and r: "(code, body) = answer y"
    using s by (rule serveD)
  show ?thesis
  proof (cases "get_current_user (in_lib x) cfg (in_now x) credentials (w_db w)")
    case (Inl e)
    then show ?thesis using h r np by (auto simp: handle_private answer_def)
  next
    case (Inr u)
    show ?thesis
    proof (cases "params_ok (in_cron x) req")
      case True
      then have e: "get_session (endpoint x api cfg u req) w = (y, w')" using h np Inr by (simp add: handle_private)
      have "body_owned (w_db w') (u_id u) body"
        using endpoint_shown[OF w o b, of api cfg u req] e r by (cases y) (auto simp: answer_def)
      then show ?thesis using endpoint_foreign[OF w o b, of u api cfg req] e Inr by simp
    next
      case False
      then show ?thesis using h r np Inr by (auto simp: handle_private answer_def)
    qed
  qed
qed

text \<open>Two tenants: the second deletes a job of his own.\<close>

definition tenants_db :: db where
  "tenants_db = sample_db\<lparr>users := [mk_user 1 ''alice'' None, mk_user 2 ''bob'' None], users_seq := 3,
     jobs := jobs sample_db @ [mk_job 3 2 ''mine'' ''manual'' None 0], jobs_seq := 4\<rparr>"

definition tenants_world :: "mem_redis world" where
  "tenants_world = \<lparr>w_db = tenants_db, w_redis = mem_empty\<rparr>"

definition sample_input :: input where
  "sample_input = \<lparr>in_lib = sample_auth, in_utf8 = Some, in_cron = (\<lambda>e. e = ''* * * * *''), in_error_text = (\<lambda>_. []), in_depth = 900,
     in_reg = sample_reg, in_now = sec 5000, in_created = 0, in_updated = 0, in_create = (\<lambda>_. 0), in_between = id,
     in_database = None, in_redis = None\<rparr>"

lemma bob_user:
  "get_current_user (in_lib sample_input) default_settings (in_now sample_input) bob_credentials (w_db tenants_world) = Inr (mk_user 2 ''bob'' None)"
  unfolding sample_input_def tenants_world_def tenants_db_def by (simp add: bob_recognised get_by_def mk_user_def)

lemma bob_serve:
  assumes "\<not> is_public req" and "params_ok (in_cron sample_input) req"
    and "get_session (endpoint sample_input api default_settings (mk_user 2 ''bob'' None) req) tenants_world = (y, w')"
  shows "serve sample_input api default_settings bob_credentials req (tenants_world, []) = (answer y, (w', accounted req (fst (answer y))))"
  using assms by (simp add: serve_eq handle_private bob_user)

theorem tenant_isolation_witness:
  "\<exists>w' ms'. serve sample_input mem_api default_settings bob_credentials (DeleteJob 3) (tenants_world, []) = ((204, NoContent), (w', ms')) \<and>
     foreign 2 (w_db w') = foreign 2 tenants_db \<and> fst (foreign 2 tenants_db) = jobs sample_db \<and> jobs (w_db w') = jobs sample_db"
proof -
  let ?d = "snd (api_delete_job 3 2 tenants_db)" and ?ms = "accounted (DeleteJob 3) 204"
  have ok: "fst (api_delete_job 3 2 tenants_db) = Inr ()" by code_simp
  have s: "serve sample_input mem_api default_settings bob_credentials (DeleteJob 3) (tenants_world, []) =
      ((204, NoContent), (tenants_world\<lparr>w_db := ?d\<rparr>, ?ms))"
  proof -
    have "get_session (endpoint sample_input mem_api default_settings (mk_user 2 ''bob'' None) (DeleteJob 3)) tenants_world =
        (Inr (204, NoContent), tenants_world\<lparr>w_db := ?d\<rparr>)"
      using ok by (auto simp: statements_andthen tenants_world_def mk_user_def split: prod.splits)
    from bob_serve[OF _ _ this] show ?thesis by (simp add: answer_def)
  qed
  have w: "wf_db (w_db tenants_world)" "deps_owned (w_db tenants_world)" by code_simp+
  have j: "jobs ?d = jobs sample_db" "fst (foreign 2 tenants_db) = jobs sample_db" by code_simp+
  have "in_between sample_input = id" "\<not> is_public (DeleteJob 3)" by (simp_all add: sample_input_def)
  from tenant_isolation[OF w this s] show ?thesis
    using s j by (simp add: bob_user) (simp add: tenants_world_def mk_user_def)
qed

text \<open>
  Claim C14: failed requests leave no trace. A response with an error status means that
  the database is as it was before the request, and Redis too; only triggering,
  retrying and canceling, which commit before they talk to Redis, can have stored
  something. Every request, also one that ends in an unhandled exception, is counted
  once, under the template of its path and the status that the client gets, and the
  gauge of requests in progress goes up and down once.
\<close>

theorem failed_requests:
  assumes s: "serve x api cfg credentials req (w, ms) = ((code, body), (w', ms'))"
  shows "(400 \<le> code \<and> \<not> commits_itself req \<longrightarrow> w' = w) \<and> ms' = ms @ accounted req code"
proof -
  obtain y where h: "handle_request x api cfg credentials req w = (y, w')" and r: "(code, body) = answer y"
    and ms: "ms' = ms @ accounted req (fst (code, body))"
    using s by (rule serveD)
  have "w' = w" if c: "400 \<le> code" "\<not> commits_itself req"
  proof -
    have e: "is_error y" using answer_error[of y] c(1) r by (metis fst_conv)
    show ?thesis
    proof (cases "is_public req")
      case True
      then show ?thesis using h e public_failed by (auto simp: handle_public split: if_splits)
    next
      case False
      then show ?thesis using h e c(2) endpoint_failed[of x api cfg _ req w y w']
        by (auto simp: handle_private split: if_splits sum.splits)
    qed
  qed
  then show ?thesis using ms by simp
qed

theorem failed_requests_witness:
  "\<exists>body w' ms'. serve sample_input mem_api default_settings bob_credentials (GetJob 1) (tenants_world, []) = ((404, body), (w', ms')) \<and>
     w' = tenants_world \<and> ms' = accounted (GetJob 1) 404 \<and> list_all sample_ok ms'"
proof -
  have no: "api_get_job 1 2 tenants_db = Inl job_not_found" by code_simp
  have s: "serve sample_input mem_api default_settings bob_credentials (GetJob 1) (tenants_world, []) =
      ((404, Detail ''job not found''), (tenants_world, accounted (GetJob 1) 404))"
  proof -
    have "get_session (endpoint sample_input mem_api default_settings (mk_user 2 ''bob'' None) (GetJob 1)) tenants_world =
        (Inl job_not_found, tenants_world)"
      using no by (simp add: query_andthen tenants_world_def mk_user_def)
    from bob_serve[OF _ _ this] show ?thesis by (simp add: answer_def exn_status_def job_not_found_def)
  qed
  from failed_requests[OF s] show ?thesis
    using s by (auto simp: commits_itself_def accounted_def Let_def)
qed

end
