(* ===== verification/System.thy ===== *)
theory System
  imports Worker Lifecycle Api
begin

text \<open>
  The processes together: every transaction that the API, the scheduler and the
  workers commit, as one step relation on the database, and what holds in every
  interleaving of them. The scheduler's transaction may work from any (stale)
  list of job rows. Each transaction is one step here; \<^verbatim>\<open>Isolation\<close> splits the ones
  that write what they decided on earlier reads. The processes themselves are then shown to do nothing else to
  the database: a request to the API, a tick of the scheduler and a message handled
  by a worker are sequences of these transactions.
\<close>

section \<open>Transactions of all processes\<close>

inductive db_step :: "'z cron_lib \<Rightarrow> (string \<Rightarrow> bool) \<Rightarrow> db \<Rightarrow> db \<Rightarrow> bool" for lib cv where
  step_claim: "claim_run now i w b d = (x, d') \<Longrightarrow> db_step lib cv d d'"
| step_logs: "append_logs ts i es d = (y, d') \<Longrightarrow> db_step lib cv d d'"
| step_cancel: "store_cancel_run now i d = (z, d') \<Longrightarrow> db_step lib cv d d'"
| step_finish: "st \<in> {SUCCEEDED, FAILED, TIMED_OUT} \<Longrightarrow> db_step lib cv d (finish_run now i st ec res err d)"
| step_retry: "create_retry_run now j att d = (u, d') \<Longrightarrow> db_step lib cv d d'"
| step_dependency: "create_dependency_run now j d = (v, d') \<Longrightarrow> db_step lib cv d d'"
| step_schedule: "schedule_loop lib ck js [] d = Some (Inr ids, d') \<Longrightarrow> db_step lib cv d d'"
| step_trigger: "prepare_trigger_run n t j MANUAL [] (d, []) = (Inr r, (d', pub)) \<Longrightarrow> db_step lib cv d d'"
| step_api_retry: "create_run now j RETRY None att QUEUED d = (Inr q, d') \<Longrightarrow> db_step lib cv d d'"
| step_create: "JobBase_validate cv p = Inr p \<Longrightarrow> api_create_job created updated p uid d = (out, d') \<Longrightarrow> db_step lib cv d d'"
| step_update: "api_update_job cv et now j up uid d = (out, d') \<Longrightarrow> db_step lib cv d d'"
| step_delete: "api_delete_job j uid d = (del, d') \<Longrightarrow> db_step lib cv d d'"
| step_register: "register alib cfg ri sp d = (tok, d') \<Longrightarrow> db_step lib cv d d'"

lemma db_step_ok: "db_step lib cv d d' \<Longrightarrow> wf_db d \<Longrightarrow> run_ok d d'"
proof (induction rule: db_step.induct)
  case (step_claim now i w b d x d')
  then show ?case using run_ok_claim[of d now i w b] by simp
next
  case (step_logs ts i es d y d')
  then show ?case using run_ok_append_logs[of d ts i es] by simp
next
  case (step_cancel now i d z d')
  then show ?case using run_ok_cancel[of d now i] by simp
next
  case (step_finish st d now i ec res err)
  then show ?case by (intro run_ok_finish) (auto simp: TERMINAL_def)
next
  case (step_retry now j att d u d')
  then show ?case using run_ok_retry[of d now j att] by simp
next
  case (step_dependency now j d v d')
  then show ?case using run_ok_dependency[of d now j] by simp
next
  case (step_schedule ck js d ids d')
  then show ?case using run_ok_schedule_loop by blast
next
  case (step_trigger n t j d r d' pub)
  then show ?case using keepsD[OF keeps_prepare step_trigger(1)] by (simp add: grown_def)
next
  case (step_api_retry now j att d q d')
  then show ?case using run_ok_insert[of d now j RETRY QUEUED att None] by (simp add: create_run_def)
next
  case (step_create p created updated uid d out d')
  then show ?case using run_ok_create_job[of d created updated p uid] by simp
next
  case (step_update et now j up uid d out d')
  then show ?case using run_ok_update_job[of d cv et now j up uid] by simp
next
  case (step_delete j uid d del d')
  then show ?case using run_ok_delete_job[of d j uid] by simp
next
  case (step_register alib cfg ri sp d tok d')
  then show ?case using run_ok_register[of d alib cfg ri sp] by simp
qed

lemma db_steps_ok: "(db_step lib cv)\<^sup>*\<^sup>* d d' \<Longrightarrow> wf_db d \<Longrightarrow> run_ok d d'"
proof (induction rule: rtranclp_induct)
  case base
  then show ?case by (rule run_ok_refl)
next
  case (step d1 d2)
  then have "run_ok d d1" by blast
  moreover then have "run_ok d1 d2" using db_step_ok[OF step(2)] by (simp add: run_ok_def)
  ultimately show ?case using run_ok_trans[OF step.prems] by blast
qed

text \<open>The cron expressions accepted in the closed examples.\<close>

definition sample_cv :: "string \<Rightarrow> bool" where
  "sample_cv e \<longleftrightarrow> e = ''* * * * *''"

text \<open>What a claim hands over is read from a stored job.\<close>

lemma claim_run_job:
  assumes "claim_run now i wid b d = (Some c, d')"
  shows "\<exists>j \<in> set (jobs d). c_task_type c = j_task_type j \<and> c_task_spec c = j_task_spec j \<and>
    c_timeout_sec c = j_timeout_sec j \<and> c_max_retries c = j_max_retries j"
  using assms by (auto simp: claim_run_def Let_def split: if_splits option.splits dest!: get_job_row_SomeD)

section \<open>Executions of one run\<close>

text \<open>
  Histories of the run \<open>i\<close>: arbitrary transactions, and claims of ordinary
  deliveries that were granted, counted.
\<close>

inductive claim_trace :: "'z cron_lib \<Rightarrow> (string \<Rightarrow> bool) \<Rightarrow> int \<Rightarrow> nat \<Rightarrow> db \<Rightarrow> db \<Rightarrow> bool" for lib cv i where
  trace_start: "claim_trace lib cv i 0 d d"
| trace_other: "claim_trace lib cv i n d d' \<Longrightarrow> db_step lib cv d' d'' \<Longrightarrow> claim_trace lib cv i n d d''"
| trace_granted: "claim_trace lib cv i n d d' \<Longrightarrow> claim_run now i w False d' = (Some c, d'') \<Longrightarrow>
    claim_trace lib cv i (Suc n) d d''"

lemma claim_trace_inv:
  "claim_trace lib cv i n d d' \<Longrightarrow> wf_db d \<Longrightarrow> wf_db d' \<and> n \<le> 1 \<and> (n = 1 \<longrightarrow> started d' i)"
proof (induction rule: claim_trace.induct)
  case (trace_other n d d' d'')
  then have "run_ok d' d''" using db_step_ok by blast
  then show ?case using trace_other started_run_ok by (auto simp: run_ok_def)
next
  case (trace_granted n d d' now w c d'')
  then have w: "wf_db d'" by blast
  have "n = 0"
    using trace_granted claim_run_started[OF w, of i now w] by (cases n) auto
  moreover have "wf_db d''" using run_ok_claim[OF w, of now i w False] trace_granted(2) by (simp add: run_ok_def)
  ultimately show ?case using claim_grant_started[OF w trace_granted(2)] by simp
qed simp

section \<open>Every transaction is a step of the board\<close>

lemma db_step_board: "db_step lib cv d d' \<Longrightarrow> wf_db d \<Longrightarrow> board_le d d'"
proof (induction rule: db_step.induct)
  case (step_claim now i w b d x d')
  then show ?case using board_claim[of d now i w b] by simp
next
  case (step_logs ts i es d y d')
  then show ?case by (intro board_same_runs) (auto simp: append_logs_def Let_def split: if_splits)
next
  case (step_cancel now i d z d')
  then show ?case using board_cancel[of d now i] by simp
next
  case (step_finish st d now i ec res err)
  then show ?case by (simp add: board_finish)
next
  case (step_retry now j att d u d')
  then show ?case using board_retry[of d now j att] by simp
next
  case (step_dependency now j d v d')
  then show ?case using board_dependency[of d now j] by simp
next
  case (step_schedule ck js d ids d')
  then show ?case using board_schedule by blast
next
  case (step_trigger n t j d r d' pub)
  then show ?case using board_trigger by blast
next
  case (step_api_retry now j att d q d')
  then show ?case using board_insert[of d QUEUED now j RETRY att None] by (simp add: create_run_def)
next
  case (step_create p created updated uid d out d')
  then show ?case using create_job_runs[of created updated p uid d] by (simp add: board_same_runs)
next
  case (step_update et now j up uid d out d')
  then show ?case using update_job_runs[of cv et now j up uid d] by (simp add: board_same_runs)
next
  case (step_delete j uid d del d')
  then show ?case using board_delete[of d j uid] by simp
next
  case (step_register alib cfg ri sp d tok d')
  then show ?case using register_cases[of alib cfg ri sp d] by (intro board_same_runs) auto
qed

lemma db_steps_board:
  "(db_step lib cv)\<^sup>*\<^sup>* d d' \<Longrightarrow> wf_db d \<Longrightarrow> life_step\<^sup>*\<^sup>* (board_of d) (board_of d')"
proof (induction rule: rtranclp_induct)
  case (step d1 d2)
  have "wf_db d1" using db_steps_ok[OF step(1,4)] by (simp add: run_ok_def)
  then have "board_le d1 d2" using db_step_board[OF step(2)] by blast
  then show ?case using step(3)[OF step(4)] by (auto simp: board_le_def intro: rtranclp.rtrancl_into_rtrancl)
qed simp

section \<open>Every transaction keeps the jobs valid\<close>

lemma db_step_valid: "db_step lib cv d d' \<Longrightarrow> wf_db d \<Longrightarrow> jobs_valid cv d \<Longrightarrow> jobs_valid cv d'"
proof (induction rule: db_step.induct)
  case (step_claim now i w b d x d')
  then show ?case using snd_claim_run[of now i w b d] by (auto intro: jobs_valid_frame[rotated])
next
  case (step_schedule ck js d ids d')
  then show ?case using jobs_valid_schedule by blast
next
  case (step_trigger n t j d r d' pub)
  then show ?case using keepsD[OF keeps_prepare step_trigger(1)] by (auto simp: grown_def intro: jobs_valid_frame[rotated])
next
  case (step_create p created updated uid d out d')
  then show ?case using jobs_valid_create[of d cv p created updated uid] by simp
next
  case (step_update et now j up uid d out d')
  then show ?case using jobs_valid_update[of d cv et now j up uid] by simp
next
  case (step_delete j uid d del d')
  then show ?case using jobs_valid_delete[of cv d j uid] by simp
next
  case (step_register alib cfg ri sp d tok d')
  then show ?case using register_cases[of alib cfg ri sp d] by (auto intro: jobs_valid_frame[rotated])
qed (auto simp: append_logs_def store_cancel_run_def finish_run_def create_retry_run_def create_run_def create_dependency_run_def
      promote_pending_def insert_run_def Let_def split: if_splits option.splits sum.splits prod.splits intro: jobs_valid_frame[rotated])

section \<open>Dependencies stay with their owner\<close>

lemma owners_same_jobs: "deps d' = deps d \<Longrightarrow> jobs d' = jobs d \<Longrightarrow> deps_owned d \<Longrightarrow> deps_owned d'"
  by (rule deps_owned_frame) (assumption | rule owner_of_same_jobs)+

lemma db_step_owned: "db_step lib cv d d' \<Longrightarrow> wf_db d \<Longrightarrow> deps_owned d \<Longrightarrow> deps_owned d'"
proof (induction rule: db_step.induct)
  case (step_claim now i w b d x d')
  then show ?case using snd_claim_run[of now i w b d] by (auto intro: owners_same_jobs[rotated 2])
next
  case (step_schedule ck js d ids d')
  then show ?case using deps_owned_schedule by blast
next
  case (step_trigger n t j d r d' pub)
  then show ?case using keepsD[OF keeps_prepare step_trigger(1)] by (auto simp: grown_def intro: owners_same_jobs[rotated 2])
next
  case (step_create p created updated uid d out d')
  then show ?case using deps_owned_create[of d created updated p uid] by simp
next
  case (step_update et now j up uid d out d')
  then show ?case using deps_owned_update[of d cv et now j up uid] by simp
next
  case (step_delete j uid d del d')
  then show ?case using deps_owned_delete[of d j uid] by simp
next
  case (step_register alib cfg ri sp d tok d')
  then show ?case using register_cases[of alib cfg ri sp d] by (auto intro: owners_same_jobs[rotated 2])
qed (auto simp: append_logs_def store_cancel_run_def finish_run_def create_retry_run_def create_run_def create_dependency_run_def
      promote_pending_def insert_run_def Let_def split: if_splits option.splits sum.splits prod.splits intro: owners_same_jobs[rotated 2])

section \<open>The processes take these steps\<close>

text \<open>Second instance of the runner's contract: the reachable databases.\<close>

interpretation st: store_rel "(db_step lib cv)\<^sup>*\<^sup>*" for lib :: "'z cron_lib" and cv
proof
  show "(db_step lib cv)\<^sup>*\<^sup>* d (snd (claim_run now i w b d))" for d now i w b
    by (intro r_into_rtranclp step_claim) (rule prod.collapse[symmetric])
  show "(db_step lib cv)\<^sup>*\<^sup>* d (snd (append_logs ts i es d))" for d ts i es
    by (intro r_into_rtranclp step_logs) (rule prod.collapse[symmetric])
  show "(db_step lib cv)\<^sup>*\<^sup>* d (snd (create_retry_run now j att d))" for d now j att
    by (intro r_into_rtranclp step_retry) (rule prod.collapse[symmetric])
  show "(db_step lib cv)\<^sup>*\<^sup>* d (snd (create_dependency_run now j d))" for d now j
    by (intro r_into_rtranclp step_dependency) (rule prod.collapse[symmetric])
qed (auto intro: step_finish)

lemma handle_steps:
  assumes "\<And>d. (db_step lib cv)\<^sup>*\<^sup>* d (ex_meanwhile env d)" and "results_ok env"
  shows "(db_step lib cv)\<^sup>*\<^sup>* (w_db w) (w_db (snd (handle api cfg env ck wid m i b w)))"
  using keeps_snd[OF st.keeps_process_run[OF assms], of w api cfg ck i b wid]
  by (auto simp: handle_def on_world_def andthen_def on_redis_def throw_def ret_def split: prod.splits sum.splits)

lemma tick_steps:
  assumes "tick api cfg lib ck w = Some (y, w')"
  shows "(db_step lib cv)\<^sup>*\<^sup>* (w_db w) (w_db w')"
  using tick_db[OF assms] step_schedule[of lib ck _ "w_db w" _ "w_db w'" cv] by (auto simp: schedule_due_jobs_def)

lemma statements_steps:
  assumes "(db_step lib cv)\<^sup>*\<^sup>* (w_db w) (snd (m (w_db w)))"
  shows "(db_step lib cv)\<^sup>*\<^sup>* (w_db w) (w_db (snd (get_session (andthen (statements m) (\<lambda>y. ret (f y))) w)))"
  by (rule statements_state) (simp_all add: assms)

lemma trigger_steps: "(db_step lib cv)\<^sup>*\<^sup>* (w_db w) (w_db (snd (trigger_job api cfg depth ck i uid w)))"
  by (auto simp: trigger_db intro: step_trigger split: sum.splits prod.splits)

lemma retry_steps: "(db_step lib cv)\<^sup>*\<^sup>* (w_db w) (w_db (snd (retry_run api cfg now i uid w)))"
proof -
  have "(db_step lib cv)\<^sup>*\<^sup>* d d'" if "create_run now j RETRY None att QUEUED d = (x, d')" for j att d x d'
    using that insert_run_Inl[of now j RETRY QUEUED att None d _ d'] step_api_retry[of now j att d _ d' lib cv]
    by (cases x) (auto simp: create_run_def)
  then show ?thesis
    by (auto simp: retry_run_def andthen_def on_db_def on_redis_def ret_def split: sum.splits prod.splits)
qed

lemma cancel_steps:
  assumes b: "(db_step lib cv)\<^sup>*\<^sup>* (w_db w) (between (w_db w))"
  shows "(db_step lib cv)\<^sup>*\<^sup>* (w_db w) (w_db (snd (api_cancel_run api cfg now between i uid w)))"
proof -
  have "(db_step lib cv)\<^sup>*\<^sup>* (w_db w) d'" if "store_cancel_run now i (between (w_db w)) = (z, d')" for z d'
    using b step_cancel[OF that] by (rule rtranclp.rtrancl_into_rtrancl)
  then show ?thesis
    by (auto simp: api_cancel_run_def andthen_def on_redis_def split: sum.splits prod.splits)
qed

lemma endpoint_steps:
  assumes b: "\<And>d. (db_step lib (in_cron x))\<^sup>*\<^sup>* d (in_between x d)" and p: "params_ok (in_cron x) req"
  shows "(db_step lib (in_cron x))\<^sup>*\<^sup>* (w_db w) (w_db (snd (get_session (endpoint x api cfg u req) w)))"
proof (cases req)
  case (CreateJob q)
  then have "JobBase_validate (in_cron x) q = Inr q" using p by simp
  then show ?thesis unfolding CreateJob endpoint.simps
    by (intro statements_steps r_into_rtranclp step_create) (auto intro: prod.collapse[symmetric])
next
  case (UpdateJob i q)
  show ?thesis unfolding UpdateJob endpoint.simps
    by (intro statements_steps r_into_rtranclp step_update) (rule prod.collapse[symmetric])
next
  case (DeleteJob i)
  show ?thesis unfolding DeleteJob endpoint.simps
    by (intro statements_steps r_into_rtranclp step_delete) (rule prod.collapse[symmetric])
next
  case (TriggerJob i)
  then show ?thesis by (simp add: get_session_trigger acted_state trigger_steps)
next
  case (RetryRun i)
  then show ?thesis by (simp add: get_session_retry acted_state retry_steps)
next
  case (CancelRun i)
  then show ?thesis by (simp add: get_session_own acted_state cancel_steps b)
qed (simp_all add: query_state get_session_def[of "throw _"] throw_def session_rollback_def)

lemma public_steps: "(db_step lib cv)\<^sup>*\<^sup>* (w_db w) (w_db (snd (get_session (public_endpoint x cfg req) w)))"
proof (cases req)
  case (Register q)
  show ?thesis unfolding Register public_endpoint.simps
    by (intro statements_steps r_into_rtranclp step_register) (rule prod.collapse[symmetric])
qed (simp_all add: query_state get_session_def[of "throw _"] throw_def session_rollback_def)

lemma serve_steps:
  assumes b: "\<And>d. (db_step lib (in_cron x))\<^sup>*\<^sup>* d (in_between x d)" and s: "serve x api cfg cr req (w, ms) = (r, (w', ms'))"
  shows "(db_step lib (in_cron x))\<^sup>*\<^sup>* (w_db w) (w_db w')"
proof -
  obtain y where h: "handle_request x api cfg cr req w = (y, w')" using s by (rule serveD)
  show ?thesis
  proof (cases "is_public req")
    case True
    then show ?thesis using h public_steps[of lib "in_cron x" w x cfg req] by (auto simp: handle_public split: if_splits)
  next
    case False
    then show ?thesis using h endpoint_steps[OF b, of req w api cfg]
      by (auto simp: handle_private split: if_splits sum.splits) (metis snd_conv)
  qed
qed

text \<open>
  One action of a process on the database and Redis. While a worker executes a task
  or the API cancels a run, others may commit any transactions.
\<close>

inductive sys_step :: "'r redis_api \<Rightarrow> settings \<Rightarrow> 'z cron_lib \<Rightarrow> (string \<Rightarrow> bool) \<Rightarrow> 'r world \<Rightarrow> 'r world \<Rightarrow> bool"
  for api cfg lib cv where
  sys_request: "in_cron x = cv \<Longrightarrow> (\<And>d. (db_step lib cv)\<^sup>*\<^sup>* d (in_between x d)) \<Longrightarrow>
    serve x api cfg credentials req (w, ms) = (r, (w', ms')) \<Longrightarrow> sys_step api cfg lib cv w w'"
| sys_tick: "tick api cfg lib ck w = Some (y, w') \<Longrightarrow> sys_step api cfg lib cv w w'"
| sys_message: "results_ok env \<Longrightarrow> (\<And>d. (db_step lib cv)\<^sup>*\<^sup>* d (ex_meanwhile env d)) \<Longrightarrow>
    handle api cfg env wck wid m i b w = (z, w') \<Longrightarrow> sys_step api cfg lib cv w w'"

lemma sys_step_db: "sys_step api cfg lib cv w w' \<Longrightarrow> (db_step lib cv)\<^sup>*\<^sup>* (w_db w) (w_db w')"
proof (induction rule: sys_step.induct)
  case (sys_request x credentials req w ms r w' ms')
  then show ?case using serve_steps[of lib x api cfg credentials req w ms r w' ms'] by simp
next
  case (sys_tick ck w y w')
  then show ?case by (rule tick_steps)
next
  case (sys_message env wck wid m i b w z w')
  then show ?case using handle_steps[of lib cv env w api cfg wck wid m i b] by simp
qed

lemma sys_steps_db: "(sys_step api cfg lib cv)\<^sup>*\<^sup>* w w' \<Longrightarrow> (db_step lib cv)\<^sup>*\<^sup>* (w_db w) (w_db w')"
  by (induction rule: rtranclp_induct) (auto dest: sys_step_db)

lemma db_steps_inv:
  "(db_step lib cv)\<^sup>*\<^sup>* d d' \<Longrightarrow> wf_db d \<and> jobs_valid cv d \<and> deps_owned d \<Longrightarrow> wf_db d' \<and> jobs_valid cv d' \<and> deps_owned d'"
proof (induction rule: rtranclp_induct)
  case (step d1 d2)
  then show ?case
    using db_step_valid[OF step(2)] db_step_owned[OF step(2)] db_step_ok[OF step(2)] by (simp add: run_ok_def)
qed simp

section \<open>From the queue to a worker\<close>

lemma tick_keeps_run:
  assumes "tick api cfg lib ck w = Some (y, w')" and "get_run_row (w_db w) i = Some r"
  shows "get_run_row (w_db w') i = Some r"
proof -
  have "\<exists>rs. runs (w_db w') = runs (w_db w) @ rs"
    using tick_db[OF assms(1)] schedule_loop_appends by (auto simp: schedule_due_jobs_def) blast
  then show ?thesis using assms(2) by (auto simp: get_run_row_def get_by_append)
qed

lemma orphan_enqueued:
  assumes rs: "redis_server api rinv stream zset" and ri: "rinv (w_redis w)"
    and r: "get_run_row (w_db w) i = Some r" "r_status r = QUEUED" "r_created_at r < sk_now ck - sec (orphan_requeue_after_sec cfg)"
    and t: "tick api cfg lib ck w = Some (Inr (), w')"
  shows "\<exists>m flds. (m, flds) \<in> set (stream (w_redis w') (stream_key cfg)) \<and> parse_run_id flds = Some i"
proof -
  obtain due scheduled es where
    st: "stream (w_redis w') = (stream (w_redis w))(stream_key cfg := stream (w_redis w) (stream_key cfg) @ es)"
    and es: "map snd es = map (\<lambda>m. [(''run_id'', m)])
       (due @ map int_str scheduled @ map int_str (requeue_orphans cfg (sk_now ck) (w_db w')))"
    using redis_server.tick_ok[OF rs ri t] by blast
  have "r \<in> set (runs (w_db w')) \<and> r_id r = i" using get_run_row_SomeD[OF tick_keeps_run[OF t r(1)]] .
  then have "i \<in> set (requeue_orphans cfg (sk_now ck) (w_db w'))"
    using r(2,3) by (auto simp: requeue_orphans_def)
  then have "[(''run_id'', int_str i)] \<in> set (map snd es)" unfolding es by auto
  then obtain m where "(m, [(''run_id'', int_str i)]) \<in> set es" by auto
  then show ?thesis using st by (intro exI[of _ m] exI[of _ "[(''run_id'', int_str i)]"]) (simp add: parse_run_id_def py_int_int_str)
qed

lemma handle_started:
  assumes "wf_db (w_db w)" and "env_ok env" and "i < runs_seq (w_db w)"
  shows "started (w_db (snd (handle api cfg env ck wid m i b w))) i"
  using process_run_started[OF assms, of api cfg ck b wid]
  by (auto simp: handle_def andthen_def on_redis_def throw_def ret_def split: prod.splits sum.splits)

section \<open>Properties\<close>

text \<open>
  No interleaving of transactions of the API, the scheduler and any
  number of workers breaks a declared constraint: primary keys, foreign keys,
  one run per job and tick, unique names and dependencies.
\<close>

lemma system_constraints:
  assumes "wf_db d" and "(db_step lib cv)\<^sup>*\<^sup>* d d'"
  shows "wf_db d'"
  using db_steps_ok[OF assms(2,1)] by (simp add: run_ok_def)

text \<open>
  A canceled run is final. Whatever transactions follow, the row stays
  exactly as the cancellation left it, or is deleted together with its job; its
  identifier is never given to another run.
\<close>

lemma canceled_is_final:
  assumes w: "wf_db d" and s: "(db_step lib cv)\<^sup>*\<^sup>* d d'" and r: "get_run_row d i = Some r" "r_status r = CANCELED"
  shows "get_run_row d' i = Some r \<or> get_run_row d' i = None"
  using db_steps_ok[OF s w] r by (cases "get_run_row d' i") (auto simp: run_ok_def row_ok_def)

text \<open>
  The database refines the board. Every history of transactions of the
  API, the scheduler and the workers is, on the abstraction of the run table, a
  history of the abstract lifecycle: runs enter as pending or queued under fresh
  identifiers, move along the permitted changes of status with their origin fixed,
  and leave only together with their job.
\<close>

lemma run_lifecycle_refined:
  assumes "wf_db d" and "(db_step lib cv)\<^sup>*\<^sup>* d d'"
  shows "life_step\<^sup>*\<^sup>* (board_of d) (board_of d')"
  using assms db_steps_board by blast

text \<open>A history in which a run is claimed and fails.\<close>

definition sample_failed :: db where
  "sample_failed = finish_run 7 1 FAILED None None None (snd (claim_run 5 1 ''w1'' False sample_db))"

lemma sample_failed_steps: "(db_step sample_lib sample_cv)\<^sup>*\<^sup>* sample_db sample_failed"
proof -
  have "db_step sample_lib sample_cv sample_db (snd (claim_run 5 1 ''w1'' False sample_db))"
    by (rule step_claim) (rule prod.collapse[symmetric])
  moreover have "db_step sample_lib sample_cv (snd (claim_run 5 1 ''w1'' False sample_db)) sample_failed"
    unfolding sample_failed_def by (rule step_finish) simp
  ultimately show ?thesis by simp
qed

lemma sample_failed_row:
  "get_run_row sample_failed 1 = Some (finish_set 7 FAILED None None None (claim_set 5 ''w1'' (mk_run 1 1 MANUAL QUEUED 0)))"
  unfolding sample_failed_def
  by (rule finish_run_row) (simp_all add: snd_claim_run get_run_row_update keeps_keys_def row_setters claim_allowed_def mk_run_def)

text \<open>
  A run only moves forward. Over any interleaving of transactions its job,
  trigger, attempt, tick and creation time never change, its status never moves back
  from terminal to running to queued to pending, and an identifier whose run has been
  deleted is never used again.
\<close>

lemma run_progress:
  assumes w: "wf_db d" and s: "(db_step lib cv)\<^sup>*\<^sup>* d d'" and i: "i < runs_seq d"
  shows "case get_run_row d i of
      None \<Rightarrow> get_run_row d' i = None
    | Some r \<Rightarrow> (case get_run_row d' i of None \<Rightarrow> True
        | Some r' \<Rightarrow> origin_of r' = origin_of r \<and> stage (r_status r) \<le> stage (r_status r'))"
proof -
  have l: "later (board_of d) (board_of d')"
    using life_steps_later[OF db_steps_board[OF s w] board_of_inv[OF w]] .
  show ?thesis
  proof (cases "get_run_row d i")
    case None
    then show ?thesis using l i by (auto simp: later_def board_of_def)
  next
    case (Some r)
    have "origin_of r' = origin_of r \<and> stage (r_status r) \<le> stage (r_status r')" if "get_run_row d' i = Some r'" for r'
    proof -
      have "bd_run (board_of d) i = Some (origin_of r, r_status r)" "bd_run (board_of d') i = Some (origin_of r', r_status r')"
        using Some that by (simp_all add: board_of_def)
      then show ?thesis using l unfolding later_def by blast
    qed
    then show ?thesis using Some by (simp split: option.splits)
  qed
qed







text \<open>
  Claim C12: no run waits forever for a lost message. A queued run that is older than the
  configured threshold is put on the stream by every completed tick of the leader, however
  its own message was lost (a publication that failed after the commit, a deleted entry);
  and whatever is committed in between, once any worker has handled a message for it the
  run does not wait any more: it has been started, or ended, or deleted with its job.
\<close>

theorem orphan_recovered:
  assumes rs: "redis_server api rinv stream zset" and ri: "rinv (w_redis w)" and wf: "wf_db (w_db w)"
    and r: "get_run_row (w_db w) i = Some r" "r_status r = QUEUED" "r_created_at r < sk_now ck - sec (orphan_requeue_after_sec cfg)"
    and t: "tick api cfg lib ck w = Some (Inr (), w1)"
    and s: "(sys_step api cfg lib cv)\<^sup>*\<^sup>* w1 w2" and env: "env_ok env"
  shows "(\<exists>m flds. (m, flds) \<in> set (stream (w_redis w1) (stream_key cfg)) \<and> parse_run_id flds = Some i) \<and>
    started (w_db (snd (handle api cfg env wck wid m i b w2))) i"
proof
  show "\<exists>m flds. (m, flds) \<in> set (stream (w_redis w1) (stream_key cfg)) \<and> parse_run_id flds = Some i"
    by (rule orphan_enqueued[OF rs ri r t])
  have "run_ok (w_db w) (w_db w1)" by (rule run_ok_tick[OF wf t])
  moreover then have "run_ok (w_db w1) (w_db w2)" using db_steps_ok[OF sys_steps_db[OF s]] by (simp add: run_ok_def)
  moreover have "i < runs_seq (w_db w)" by (rule run_id_bound[OF wf r(1)])
  ultimately show "started (w_db (snd (handle api cfg env wck wid m i b w2))) i"
    by (intro handle_started env) (auto simp: run_ok_def)
qed

text \<open>A run whose message was lost, a tick much later, and a worker.\<close>

definition late_clock :: sched_clock where
  "late_clock = sched_ck\<lparr>sk_now := sec 100000\<rparr>"

theorem orphan_recovered_witness:
  "\<exists>w1 m flds. tick mem_api default_settings sample_lib late_clock sample_world = Some (Inr (), w1) \<and>
     (m, flds) \<in> set (mem_stream (w_redis w1) ''jobs:stream'') \<and> parse_run_id flds = Some 1 \<and>
     started (w_db (snd (handle mem_api default_settings sample_env sample_clock ''w1'' m 1 False w1))) 1 \<and> \<not> started (w_db w1) 1"
proof -
  have "map_option fst (tick mem_api default_settings sample_lib late_clock sample_world) = Some (Inr ())" by code_simp
  then obtain w1 where t: "tick mem_api default_settings sample_lib late_clock sample_world = Some (Inr (), w1)" by auto
  have i: "mem_inv (w_redis sample_world)" "wf_db (w_db sample_world)" by (simp_all add: sample_world_def mem_empty_inv sample_wf)
  have r: "get_run_row (w_db sample_world) 1 = Some (mk_run 1 1 MANUAL QUEUED 0)" "r_status (mk_run 1 1 MANUAL QUEUED 0) = QUEUED"
    by (simp_all add: sample_world_def mk_run_def)
  have c: "r_created_at (mk_run 1 1 MANUAL QUEUED 0) < sk_now late_clock - sec (orphan_requeue_after_sec default_settings)" by code_simp
  have "get_run_row (w_db w1) 1 = Some (mk_run 1 1 MANUAL QUEUED 0)" by (rule tick_keeps_run[OF t r(1)])
  then have "\<not> started (w_db w1) 1" by (simp add: started_def mk_run_def)
  moreover note O = orphan_recovered[OF mem.redis_server_axioms i r c t rtranclp.rtrancl_refl sample_env_ok]
  obtain m flds where "(m, flds) \<in> set (mem_stream (w_redis w1) (stream_key default_settings))" "parse_run_id flds = Some 1"
    using conjunct1[OF O] by blast
  moreover have "started (w_db (snd (handle mem_api default_settings sample_env sample_clock ''w1'' m 1 False w1))) 1"
    by (rule conjunct2[OF O])
  ultimately show ?thesis using t by (auto simp: default_settings_def)
qed

end
