(* ===== verification/Isolation.thy ===== *)
theory Isolation
  imports System
begin

text \<open>
  Transactions statement by statement. \<^verbatim>\<open>System\<close> takes every transaction as one
  step. PostgreSQL runs them at its default level, READ COMMITTED: each statement sees
  what is committed when it starts, and other transactions commit in between. For
  \<^verbatim>\<open>claim_run\<close>, \<^verbatim>\<open>cancel_run\<close> and \<^verbatim>\<open>finish_run\<close> this makes no difference: each is
  one conditional UPDATE, whose condition is evaluated on the row it writes. Two
  transactions read first and write by primary key afterwards,
  \<^verbatim>\<open>create_dependency_run\<close> (store.py) and \<^verbatim>\<open>update_job\<close> (crud.py). Here their
  statements are separate steps: what the interleavings keep, and what they lose.
\<close>

section \<open>The statements of \<^verbatim>\<open>create_dependency_run\<close>\<close>

text \<open>
  What an open transaction knows after its last statement: that the job had no
  dispatched run; the pending run it selected; that there was none.
\<close>

datatype dep_txn = NotDispatched int | Promoting int | Inserting int

definition select_dispatched :: "int \<Rightarrow> db \<Rightarrow> dep_txn option" where
  "select_dispatched job_id d = (if has_dispatched_run d job_id then None else Some (NotDispatched job_id))"

definition select_pending :: "int \<Rightarrow> db \<Rightarrow> dep_txn" where
  "select_pending job_id d =
     (case pending_run d job_id of Some pending \<Rightarrow> Promoting (r_id pending) | None \<Rightarrow> Inserting job_id)"

text \<open>
  The flush of \<^verbatim>\<open>pending.status = QUEUED\<close>: \<^verbatim>\<open>UPDATE ... WHERE id = ...\<close>. An
  update by primary key that finds no row raises \<^verbatim>\<open>StaleDataError\<close>.
\<close>

definition write_promote :: "int \<Rightarrow> (db, int option) eff" where
  "write_promote run_id d =
     (if get_run_row d run_id = None then (Inl StaleDataError, d)
      else (Inr (Some run_id), promote_pending run_id d))"

definition write_dependency :: "time \<Rightarrow> int \<Rightarrow> (db, int option) eff" where
  "write_dependency now job_id d =
     (case insert_run now job_id DEPENDENCY QUEUED 1 None d of
        (Inl e, d') \<Rightarrow> (Inl e, d')
      | (Inr run, d') \<Rightarrow> (Inr (Some (r_id run)), d'))"

text \<open>One call; \<open>m1\<close> and \<open>m2\<close> are what others commit after its first and its second select.\<close>

definition create_dependency_stmts ::
  "time \<Rightarrow> (db \<Rightarrow> db) \<Rightarrow> (db \<Rightarrow> db) \<Rightarrow> int \<Rightarrow> (db, int option) eff" where
  "create_dependency_stmts now m1 m2 job_id d =
     (case select_dispatched job_id d of
        None \<Rightarrow> (Inr None, d)
      | Some _ \<Rightarrow>
          let d1 = m1 d in
          (case select_pending job_id d1 of
             Promoting run_id \<Rightarrow> write_promote run_id (m2 d1)
           | _ \<Rightarrow> write_dependency now job_id (m2 d1)))"

text \<open>Undisturbed, the statements are the transaction.\<close>

lemma create_dependency_stmts_alone:
  assumes "wf_db d"
  shows "create_dependency_stmts now (\<lambda>x. x) (\<lambda>x. x) j d = create_dependency_run now j d"
proof (cases "pending_run d j")
  case (Some p)
  then have "get_run_row d (r_id p) = Some p"
    using pending_run_SomeD[OF Some] by (simp add: get_run_row_iff[OF assms])
  then show ?thesis
    by (simp add: Some create_dependency_stmts_def create_dependency_run_def select_dispatched_def
        select_pending_def write_promote_def)
qed (simp add: create_dependency_stmts_def create_dependency_run_def select_dispatched_def
    select_pending_def write_dependency_def Let_def)

section \<open>Interleavings\<close>

text \<open>
  A state is the committed database with the open fan-out transactions of all
  workers. The other transactions commit as in \<^verbatim>\<open>System\<close>; a trigger or a retry
  that decided on stale reads still only creates runs (\<open>rc_create\<close>).
\<close>

type_synonym rc_state = "db \<times> dep_txn list"

inductive rc_step :: "'z cron_lib \<Rightarrow> (string \<Rightarrow> bool) \<Rightarrow> rc_state \<Rightarrow> rc_state \<Rightarrow> bool" for lib cv where
  rc_commit: "db_step lib cv d d' \<Longrightarrow> rc_step lib cv (d, ts) (d', ts)"
| rc_create: "create_run now j trg None att st d = (x, d') \<Longrightarrow> st \<in> {PENDING, QUEUED} \<Longrightarrow>
    rc_step lib cv (d, ts) (d', ts)"
| rc_start: "select_dispatched j d = Some t \<Longrightarrow> rc_step lib cv (d, ts) (d, t # ts)"
| rc_select: "rc_step lib cv (d, us @ NotDispatched j # vs) (d, us @ select_pending j d # vs)"
| rc_promote: "write_promote k d = (x, d') \<Longrightarrow> rc_step lib cv (d, us @ Promoting k # vs) (d', us @ vs)"
| rc_insert: "write_dependency now j d = (x, d') \<Longrightarrow> rc_step lib cv (d, us @ Inserting j # vs) (d', us @ vs)"

text \<open>The contract of the transactions, for one run.\<close>

definition run_kept :: "int \<Rightarrow> db \<Rightarrow> db \<Rightarrow> bool" where
  "run_kept i d d' \<longleftrightarrow> wf_db d' \<and> runs_seq d \<le> runs_seq d' \<and>
     (i < runs_seq d \<longrightarrow> get_run_row d i = None \<longrightarrow> get_run_row d' i = None) \<and>
     (\<forall>r r'. get_run_row d i = Some r \<longrightarrow> get_run_row d' i = Some r' \<longrightarrow> row_ok r r')"

lemma run_ok_kept: "run_ok d d' \<Longrightarrow> run_kept i d d'"
  by (simp add: run_ok_def run_kept_def)

lemma run_kept_refl: "wf_db d \<Longrightarrow> run_kept i d d"
  by (simp add: run_kept_def)

lemma run_kept_trans:
  assumes w: "wf_db d" and 1: "run_kept i d d'" and 2: "run_kept i d' d''"
  shows "run_kept i d d''"
proof -
  have "row_ok r r''" if r: "get_run_row d i = Some r" and r'': "get_run_row d'' i = Some r''" for r r''
  proof -
    have "i < runs_seq d'" using run_id_bound[OF w r] 1 by (simp add: run_kept_def)
    then obtain r' where "get_run_row d' i = Some r'"
      using 2 r'' by (cases "get_run_row d' i") (auto simp: run_kept_def)
    then show ?thesis using 1 2 r r'' row_ok_trans by (metis run_kept_def)
  qed
  then show ?thesis using 1 2 by (auto simp: run_kept_def)
qed

lemma started_kept: "started d i \<Longrightarrow> run_kept i d d' \<Longrightarrow> started d' i"
  unfolding started_def run_kept_def row_ok_def
  by (metis (no_types, lifting) not_None_eq order_less_le_trans)

lemma kept_promote:
  assumes w: "wf_db d" and "write_promote k d = (x, d')" and "k \<noteq> i"
  shows "run_kept i d d'"
proof -
  have "wf_db (promote_pending k d)" using w by (simp add: promote_pending_def wf_update_runs)
  moreover have "get_run_row (promote_pending k d) i = get_run_row d i" using assms(3) by (simp add: promote_pending_row)
  moreover have "runs_seq (promote_pending k d) = runs_seq d" by (simp add: promote_pending_def)
  ultimately show ?thesis using assms(2) w by (auto simp: run_kept_def write_promote_def split: if_splits)
qed

lemma select_pending_waiting:
  assumes "wf_db d" and "started d i"
  shows "select_pending j d \<noteq> Promoting i"
  using assms pending_run_SomeD[of d j]
  by (auto simp: select_pending_def started_def get_run_row_iff split: option.splits)

text \<open>A run that has started and that no open transaction is about to promote.\<close>

definition rc_settled :: "int \<Rightarrow> rc_state \<Rightarrow> bool" where
  "rc_settled i s \<longleftrightarrow> started (fst s) i \<and> Promoting i \<notin> set (snd s)"

lemma rc_step_settled:
  "rc_step lib cv s s' \<Longrightarrow> wf_db (fst s) \<Longrightarrow> rc_settled i s \<Longrightarrow> run_kept i (fst s) (fst s') \<and> rc_settled i s'"
proof (induction rule: rc_step.induct)
  case (rc_commit d d' ts)
  then have "run_kept i d d'" by (auto intro: run_ok_kept db_step_ok)
  then show ?case using rc_commit started_kept by (auto simp: rc_settled_def)
next
  case (rc_create now j trg att st d x d' ts)
  then have "run_kept i d d'"
    using run_ok_insert[of d now j trg st att None] by (auto simp: create_run_def intro: run_ok_kept)
  then show ?case using rc_create started_kept by (auto simp: rc_settled_def)
next
  case (rc_start j d t ts)
  then show ?case by (auto simp: rc_settled_def run_kept_refl select_dispatched_def split: if_splits)
next
  case (rc_select d us j vs)
  then show ?case using select_pending_waiting[of d i j] by (auto simp: rc_settled_def run_kept_refl)
next
  case (rc_promote k d x d' us vs)
  then have "run_kept i d d'" by (auto simp: rc_settled_def intro: kept_promote)
  then show ?case using rc_promote started_kept by (auto simp: rc_settled_def)
next
  case (rc_insert now j d x d' us vs)
  then have "run_kept i d d'"
    using run_ok_insert[of d now j DEPENDENCY QUEUED 1 None]
    by (auto simp: write_dependency_def intro: run_ok_kept split: prod.splits sum.splits)
  then show ?case using rc_insert started_kept by (auto simp: rc_settled_def)
qed

lemma rc_steps_settled:
  "(rc_step lib cv)\<^sup>*\<^sup>* s s' \<Longrightarrow> wf_db (fst s) \<Longrightarrow> rc_settled i s \<Longrightarrow> run_kept i (fst s) (fst s') \<and> rc_settled i s'"
proof (induction rule: rtranclp_induct)
  case (step s1 s2)
  then have 1: "run_kept i (fst s) (fst s1)" "rc_settled i s1" by simp_all
  then have "wf_db (fst s1)" by (simp add: run_kept_def)
  from rc_step_settled[OF step(2) this 1(2)] 1 show ?case using run_kept_trans[OF step.prems(1)] by blast
qed (simp add: run_kept_refl)

lemma rc_step_wf: "rc_step lib cv s s' \<Longrightarrow> wf_db (fst s) \<Longrightarrow> wf_db (fst s')"
proof (induction rule: rc_step.induct)
  case (rc_commit d d' ts)
  then show ?case using db_step_ok by (fastforce simp: run_ok_def)
next
  case (rc_create now j trg att st d x d' ts)
  then show ?case using run_ok_insert[of d now j trg st att None] by (simp add: create_run_def run_ok_def)
next
  case (rc_promote k d x d' us vs)
  then show ?case by (auto simp: write_promote_def promote_pending_def wf_update_runs split: if_splits)
next
  case (rc_insert now j d x d' us vs)
  then show ?case using run_ok_insert[of d now j DEPENDENCY QUEUED 1 None]
    by (auto simp: write_dependency_def run_ok_def split: prod.splits sum.splits)
qed simp_all

lemma rc_steps_wf: "(rc_step lib cv)\<^sup>*\<^sup>* s s' \<Longrightarrow> wf_db (fst s) \<Longrightarrow> wf_db (fst s')"
  by (induction rule: rtranclp_induct) (auto intro: rc_step_wf)

section \<open>The window between the select and the update\<close>

text \<open>A fan-out that has selected its pending run.\<close>

lemma rc_selected:
  assumes "\<not> has_dispatched_run d j" and "pending_run d j = Some p"
  shows "(rc_step lib cv)\<^sup>*\<^sup>* (d, ts) (d, Promoting (r_id p) # ts)"
proof -
  have "rc_step lib cv (d, ts) (d, NotDispatched j # ts)"
    using assms(1) by (intro rc_start[of j]) (simp add: select_dispatched_def)
  moreover have "rc_step lib cv (d, [] @ NotDispatched j # ts) (d, [] @ select_pending j d # ts)" by (rule rc_select)
  ultimately show ?thesis using assms(2) by (simp add: select_pending_def)
qed

lemma rc_inserted:
  assumes "\<not> has_dispatched_run d j" and "pending_run d j = None"
  shows "(rc_step lib cv)\<^sup>*\<^sup>* (d, ts) (snd (write_dependency now j d), ts)"
proof -
  have "rc_step lib cv (d, ts) (d, NotDispatched j # ts)"
    using assms(1) by (intro rc_start[of j]) (simp add: select_dispatched_def)
  moreover have "rc_step lib cv (d, [] @ NotDispatched j # ts) (d, [] @ select_pending j d # ts)" by (rule rc_select)
  moreover have "rc_step lib cv (d, [] @ Inserting j # ts) (snd (write_dependency now j d), [] @ ts)"
    by (rule rc_insert) (rule prod.collapse[symmetric])
  ultimately show ?thesis using assms(2) by (simp add: select_pending_def)
qed

text \<open>Its update lands on whatever the row has become, and makes it claimable.\<close>

lemma promotion_lands:
  assumes w: "wf_db d" and r: "get_run_row d i = Some r"
  shows "rc_step lib cv (d, us @ Promoting i # vs) (promote_pending i d, us @ vs)"
    and "get_run_row (promote_pending i d) i = Some (r\<lparr>r_status := QUEUED\<rparr>)"
    and "\<exists>c d'. claim_run now i wid False (promote_pending i d) = (Some c, d') \<and>
           get_run_row d' i = Some (claim_set now wid (r\<lparr>r_status := QUEUED\<rparr>))"
proof -
  show "rc_step lib cv (d, us @ Promoting i # vs) (promote_pending i d, us @ vs)"
    by (rule rc_promote[of i d "Inr (Some i)"]) (simp add: write_promote_def r)
  show row: "get_run_row (promote_pending i d) i = Some (r\<lparr>r_status := QUEUED\<rparr>)"
    by (simp add: promote_pending_row r)
  have "wf_db (promote_pending i d)" using w by (simp add: promote_pending_def wf_update_runs)
  from claim_run_granted[OF this row, of False now wid]
  obtain job where "fst (claim_run now i wid False (promote_pending i d)) = Some (claimed_of (r\<lparr>r_status := QUEUED\<rparr>) job)"
      "get_run_row (snd (claim_run now i wid False (promote_pending i d))) i = Some (claim_set now wid (r\<lparr>r_status := QUEUED\<rparr>))"
    by (auto simp: claim_allowed_def)
  then show "\<exists>c d'. claim_run now i wid False (promote_pending i d) = (Some c, d') \<and>
         get_run_row d' i = Some (claim_set now wid (r\<lparr>r_status := QUEUED\<rparr>))"
    by (metis prod.collapse)
qed


lemma cancel_pending_row:
  assumes "wf_db d" and "get_run_row d i = Some r" and "r_status r = PENDING"
  shows "store_cancel_run now i d = (True, snd (store_cancel_run now i d))"
    and "get_run_row (snd (store_cancel_run now i d)) i = Some (cancel_set now r)"
  using cancel_row[of d i r now] assms get_run_row_iff[OF assms(1), of i r]
  by (auto simp: store_cancel_run_def ACTIVE_def filter_empty_conv prod_eq_iff Let_def)

text \<open>
  Two fan-outs select the same pending run. The first one queues it, a worker claims it and
  ends it; then the second one queues it again, and the next message executes it once more.
\<close>

lemma second_execution:
  assumes w: "wf_db d" and nd: "\<not> has_dispatched_run d j" and p: "pending_run d j = Some p"
  obtains d1 c1 d2 d3 c2 d4 where "(rc_step lib cv)\<^sup>*\<^sup>* (d, []) (d1, [Promoting (r_id p)])"
    and "claim_run t1 (r_id p) w1 False d1 = (Some c1, d2)"
    and "(rc_step lib cv)\<^sup>*\<^sup>* (finish_run t2 (r_id p) SUCCEEDED ec res None d2, [Promoting (r_id p)]) (d3, [])"
    and "claim_run t3 (r_id p) w2 False d3 = (Some c2, d4)"
proof -
  let ?i = "r_id p" and ?q = "p\<lparr>r_status := QUEUED\<rparr>"
  let ?d1 = "promote_pending ?i d"
  have row: "get_run_row d ?i = Some p" using pending_run_SomeD[OF p] by (simp add: get_run_row_iff[OF w])
  note first = promotion_lands[OF w row]
  have "(rc_step lib cv)\<^sup>*\<^sup>* (d, []) (d, [Promoting ?i, Promoting ?i])"
    using rc_selected[OF nd p, of lib cv "[]"] rc_selected[OF nd p, of lib cv "[Promoting ?i]"] by simp
  then have s1: "(rc_step lib cv)\<^sup>*\<^sup>* (d, []) (?d1, [Promoting ?i])"
    using first(1)[of lib cv "[]" "[Promoting ?i]"] by simp
  obtain c1 d2 where c1: "claim_run t1 ?i w1 False ?d1 = (Some c1, d2)"
    and r2: "get_run_row d2 ?i = Some (claim_set t1 w1 ?q)" using first(3) by blast
  let ?f = "finish_run t2 ?i SUCCEEDED ec res None d2"
  have "wf_db ?d1" using w by (simp add: promote_pending_def wf_update_runs)
  then have "wf_db d2" using run_ok_claim[of ?d1 t1 ?i w1 False] c1 by (simp add: run_ok_def)
  then have wf: "wf_db ?f" by (simp add: finish_run_def wf_update_runs)
  have "get_run_row ?f ?i = Some (finish_set t2 SUCCEEDED ec res None (claim_set t1 w1 ?q))"
    by (rule finish_run_row[OF r2]) (simp add: claim_set_def)
  note again = promotion_lands[OF wf this]
  obtain c2 d4 where "claim_run t3 ?i w2 False (promote_pending ?i ?f) = (Some c2, d4)" using again(3) by blast
  moreover have "(rc_step lib cv)\<^sup>*\<^sup>* (?f, [Promoting ?i]) (promote_pending ?i ?f, [])"
    using again(1)[of lib cv "[]" "[]"] by simp
  ultimately show thesis using s1 c1 by (intro that)
qed

section \<open>The statements of \<^verbatim>\<open>update_job\<close>\<close>

text \<open>
  The request reads the job, checks the dependencies and validates the merged values; the
  result is what it will write. The flush of the ORM writes the columns whose value
  differs from the one that was read, and \<^verbatim>\<open>updated_at\<close> with them; an update that finds
  no row raises \<^verbatim>\<open>StaleDataError\<close>, a dependency on a deleted job \<^verbatim>\<open>IntegrityError\<close>.
  The writes up to the commit are one step.
\<close>

type_synonym update_plan = "job \<times> job_base \<times> int list option"

definition update_read ::
  "(string \<Rightarrow> bool) \<Rightarrow> (job_base option \<Rightarrow> string) \<Rightarrow> int \<Rightarrow> job_update \<Rightarrow> int \<Rightarrow> db \<Rightarrow> exn + update_plan" where
  "update_read cron_valid error_text job_id payload user_id d =
     (case owned_job job_id user_id d of
        Inl e \<Rightarrow> Inl e
      | Inr job \<Rightarrow>
          let depends_on = (case up_depends_on payload of None \<Rightarrow> None | Some v \<Rightarrow> v) in
          (case (case depends_on of None \<Rightarrow> Inr ()
                 | Some ds \<Rightarrow> validate_dependencies (Some (j_id job)) (j_owner_user_id job) ds d) of
             Inl e \<Rightarrow> Inl (crud_error_to 400 e)
           | Inr _ \<Rightarrow>
               let mb = merged job payload (case depends_on of None \<Rightarrow> [] | Some ds \<Rightarrow> ds) in
               (case (case mb of None \<Rightarrow> Inl ValueError | Some b \<Rightarrow> JobBase_validate cron_valid b) of
                  Inl _ \<Rightarrow> Inl (HTTPException 400 (error_text mb))
                | Inr b \<Rightarrow> Inr (job, b, depends_on))))"

definition flushed :: "'a \<Rightarrow> 'a \<Rightarrow> 'a \<Rightarrow> 'a" where
  "flushed read new stored = (if new = read then stored else new)"

definition write_columns :: "time \<Rightarrow> job \<Rightarrow> job_base \<Rightarrow> job \<Rightarrow> job" where
  "write_columns now old b j =
     (if with_values b old = old then j
      else j\<lparr>j_description := flushed (j_description old) (b_description b) (j_description j),
             j_category := flushed (j_category old) (b_category b) (j_category j),
             j_task_type := flushed (j_task_type old) (b_task_type b) (j_task_type j),
             j_task_spec := flushed (j_task_spec old) (b_task_spec b) (j_task_spec j),
             j_schedule_type := flushed (j_schedule_type old) (b_schedule_type b) (j_schedule_type j),
             j_schedule_expr := flushed (j_schedule_expr old) (b_schedule_expr b) (j_schedule_expr j),
             j_timezone := flushed (j_timezone old) (b_timezone b) (j_timezone j),
             j_enabled := flushed (j_enabled old) (b_enabled b) (j_enabled j),
             j_max_retries := flushed (j_max_retries old) (b_max_retries b) (j_max_retries j),
             j_retry_backoff_sec := flushed (j_retry_backoff_sec old) (b_retry_backoff_sec b) (j_retry_backoff_sec j),
             j_timeout_sec := flushed (j_timeout_sec old) (b_timeout_sec b) (j_timeout_sec j),
             j_updated_at := now\<rparr>)"

definition update_write :: "time \<Rightarrow> update_plan \<Rightarrow> (db, unit) eff" where
  "update_write now u d =
     (case u of (old, b, depends_on) \<Rightarrow>
        if with_values b old \<noteq> old \<and> get_job_row d (j_id old) = None then (Inl StaleDataError, d)
        else
          let d1 = update_jobs (\<lambda>j. j_id j = j_id old) (write_columns now old b) d in
          (case depends_on of
             None \<Rightarrow> (Inr (), d1)
           | Some ds \<Rightarrow>
               if ds \<noteq> [] \<and> \<not> set (j_id old # ds) \<subseteq> j_id ` set (jobs d) then (Inl IntegrityError, d)
               else (Inr (), set_dependencies (j_id old) ds d1)))"

lemma write_columns_read: "write_columns now j b j = touch now b j"
  by (simp add: write_columns_def touch_def with_values_def flushed_def Let_def)

lemma write_columns_keys: "keeps_job_keys (write_columns now old b)"
  by (simp add: keeps_job_keys_def write_columns_def)

lemma validated_dependencies:
  "validate_dependencies self owner ds d = Inr () \<Longrightarrow> set ds \<subseteq> j_id ` set (jobs d)"
  by (fastforce simp: validate_dependencies_def filter_empty_conv Let_def split: if_splits)

text \<open>Undisturbed, the statements are the handler.\<close>

lemma update_alone:
  assumes w: "wf_db d"
  shows "case update_read cv et i u uid d of
      Inl e \<Rightarrow> api_update_job cv et now i u uid d = (Inl e, d)
    | Inr x \<Rightarrow> update_write now x d = (Inr (), snd (api_update_job cv et now i u uid d)) \<and>
        (\<exists>out. fst (api_update_job cv et now i u uid d) = Inr out)"
proof (cases "owned_job i uid d")
  case (Inl e)
  then show ?thesis by (simp add: update_read_def api_update_job_def)
next
  case (Inr j)
  then have j: "get_job_row d i = Some j" by (simp add: owned_job_iff[OF w])
  then have mem: "j \<in> set (jobs d)" "j_id j = i" using get_job_row_SomeD by blast+
  have eq: "update_jobs (\<lambda>x. j_id x = k) (write_columns now j b) d = update_jobs (\<lambda>x. j_id x = k) (touch now b) d"
    if "k = j_id j" for k b
    using update_jobs_row[OF w j[folded mem(2)]] write_columns_read that by metis
  show ?thesis using Inr mem j
    by (auto dest: subsetD[OF validated_dependencies] simp: update_read_def api_update_job_def crud_update_job_def update_write_def eq crud_error_to_def
        Let_def split: sum.splits option.splits)
qed

text \<open>Two partial updates: one turns a job into a cron job, one replaces its schedule expression.\<close>

definition to_cron :: job_update where
  "to_cron = empty_update\<lparr>up_schedule_type := Some (Some ScheduleType_CRON)\<rparr>"

definition with_expr :: "string \<Rightarrow> job_update" where
  "with_expr e = empty_update\<lparr>up_schedule_expr := Some (Some e)\<rparr>"

lemma update_read_job:
  assumes "owned_job i uid d = Inr j" and "up_depends_on u = None" and "merged j u [] = Some b"
  shows "update_read cv et i u uid d =
    (case JobBase_validate cv b of Inl _ \<Rightarrow> Inl (HTTPException 400 (et (Some b))) | Inr b' \<Rightarrow> Inr (j, b', None))"
  using assms by (simp add: update_read_def)

lemma merged_parts:
  "merged j to_cron [] = Some ((row_base j)\<lparr>b_schedule_type := ScheduleType_CRON\<rparr>)"
  "merged j (with_expr e) [] = Some ((row_base j)\<lparr>b_schedule_expr := Some e\<rparr>)"
  by (simp_all add: merged_def to_cron_def with_expr_def empty_update_def row_base_def pick_def pick_null_def)

lemma validate_parts:
  assumes v: "job_valid cv j" and m: "j_schedule_type j = ScheduleType_MANUAL"
  shows "cv e \<Longrightarrow> e \<noteq> [] \<Longrightarrow> j_schedule_expr j = Some e \<Longrightarrow>
      JobBase_validate cv ((row_base j)\<lparr>b_schedule_type := ScheduleType_CRON\<rparr>) =
        Inr ((row_base j)\<lparr>b_schedule_type := ScheduleType_CRON\<rparr>)"
    and "JobBase_validate cv ((row_base j)\<lparr>b_schedule_expr := Some e'\<rparr>) = Inr ((row_base j)\<lparr>b_schedule_expr := Some e'\<rparr>)"
  using v m
  by (auto simp: job_valid_def validate_defs row_base_def Let_def ScheduleType_ALL_def ScheduleType_CRON_def
      ScheduleType_INTERVAL_def ScheduleType_MANUAL_def split: if_splits sum.splits)

lemma invalid_cron: "j_schedule_type j = ScheduleType_CRON \<Longrightarrow> j_schedule_expr j = Some e \<Longrightarrow> \<not> cv e \<Longrightarrow> \<not> job_valid cv j"
  by (auto simp: job_valid_def validate_defs row_base_def Let_def split: if_splits sum.splits)

lemma written_row:
  assumes "get_job_row d (j_id old) = Some j"
  shows "update_write t (old, b, None) d = (Inr (), update_jobs (\<lambda>x. j_id x = j_id old) (write_columns t old b) d)"
    and "get_job_row (update_jobs (\<lambda>x. j_id x = j_id old) (write_columns t old b) d) (j_id old) =
      Some (write_columns t old b j)"
proof -
  have "j_id j = j_id old" using get_job_row_SomeD[OF assms] by simp
  then show "get_job_row (update_jobs (\<lambda>x. j_id x = j_id old) (write_columns t old b) d) (j_id old) =
      Some (write_columns t old b j)"
    unfolding get_job_row_update_jobs[OF write_columns_keys] assms by simp
qed (simp add: update_write_def assms)

text \<open>The columns of the two updates are disjoint: each keeps what the other wrote.\<close>

lemma written_parts:
  assumes m: "j_schedule_type j = ScheduleType_MANUAL" and e: "j_schedule_expr j = Some e" "e' \<noteq> e"
    and c: "j' = j\<lparr>j_schedule_type := ScheduleType_CRON, j_updated_at := t1\<rparr>"
  shows "write_columns t1 j ((row_base j)\<lparr>b_schedule_type := ScheduleType_CRON\<rparr>) j = j'"
    and "write_columns t2 j ((row_base j)\<lparr>b_schedule_expr := Some e'\<rparr>) j' = j'\<lparr>j_schedule_expr := Some e', j_updated_at := t2\<rparr>"
proof -
  let ?b1 = "(row_base j)\<lparr>b_schedule_type := ScheduleType_CRON\<rparr>" and ?b2 = "(row_base j)\<lparr>b_schedule_expr := Some e'\<rparr>"
  have "j_schedule_type (with_values ?b1 j) \<noteq> j_schedule_type j" "j_schedule_expr (with_values ?b2 j) \<noteq> j_schedule_expr j"
    using m e by (simp_all add: with_values_def ScheduleType_CRON_def ScheduleType_MANUAL_def)
  then have "with_values ?b1 j \<noteq> j" "with_values ?b2 j \<noteq> j" by metis+
  then show "write_columns t1 j ?b1 j = j'" "write_columns t2 j ?b2 j' = j'\<lparr>j_schedule_expr := Some e', j_updated_at := t2\<rparr>"
    using m e c by (simp_all add: write_columns_def row_base_def flushed_def ScheduleType_CRON_def ScheduleType_MANUAL_def)
qed

text \<open>A cron job on whose expression croniter raises stops every pass of the scheduler.\<close>

lemma bad_cron_stops:
  assumes "j \<in> set (jobs d)" "j_enabled j" "j_schedule_type j = ScheduleType_CRON" "j_schedule_expr j = Some e" "e \<noteq> []"
    and "zone_of lib (j_timezone j) = Inr z" and "\<And>t. croniter_next lib e z t = Inl ex"
  shows "schedule_due_jobs lib ck d \<noteq> Some (Inr ids, d')"
proof -
  have "job_due lib (sk_now ck) j = Some (Inl ex)"
    using assms(3-) by (simp add: job_due_def due_tick_def due_from_def next_run_time_def)
  moreover have "j \<in> set (schedulable d)" using assms(1-3) by (simp add: schedulable_def)
  ultimately show ?thesis
    using schedule_loop_no_error[of lib ck "schedulable d" "[]" d ids d' j ex] by (auto simp: schedule_due_jobs_def)
qed

section \<open>Properties of the interleavings\<close>

text \<open>
  Claim C7: a started run stays started, statement by statement. Once a run is running or
  ended and no fan-out transaction that selected it is still open, no interleaving of
  statements of any number of workers, ticks and requests brings it back: no ordinary
  delivery is granted it again, a terminal run stays terminal, and a canceled run stays
  exactly as the cancellation left it (or is deleted with its job).
\<close>

theorem started_is_final:
  assumes w: "wf_db d" and r: "get_run_row d i = Some r" "\<not> is_waiting (r_status r)"
    and t: "Promoting i \<notin> set ts" and s: "(rc_step lib cv)\<^sup>*\<^sup>* (d, ts) (d', ts')"
  shows "claim_run now i wid False d' = (None, d') \<and>
    (\<forall>r'. get_run_row d' i = Some r' \<longrightarrow> \<not> is_waiting (r_status r') \<and>
       (is_terminal (r_status r) \<longrightarrow> is_terminal (r_status r')) \<and> (r_status r = CANCELED \<longrightarrow> r' = r))"
proof -
  have "rc_settled i (d, ts)" using r t run_id_bound[OF w r(1)] by (simp add: rc_settled_def started_def)
  then have k: "run_kept i d d'" "rc_settled i (d', ts')" using rc_steps_settled[OF s] w by simp_all
  then have "claim_run now i wid False d' = (None, d')"
    by (intro claim_run_started) (auto simp: run_kept_def rc_settled_def)
  then show ?thesis using k(1) r by (auto simp: run_kept_def row_ok_def)
qed

text \<open>A pending run is canceled; afterwards a fan-out of its job opens, finds nothing pending and creates a new run.\<close>

definition sample_pending_canceled :: db where
  "sample_pending_canceled = snd (store_cancel_run 6 2 sample_db)"

theorem started_is_final_witness:
  "\<exists>d'. (rc_step sample_lib sample_cv)\<^sup>*\<^sup>* (sample_pending_canceled, []) (d', []) \<and> length (runs d') = 3 \<and>
     get_run_row d' 2 = Some (cancel_set 6 (mk_run 2 2 MANUAL PENDING 0)) \<and> claim_run 9 2 ''w'' False d' = (None, d')"
proof -
  let ?d = sample_pending_canceled and ?r = "cancel_set 6 (mk_run 2 2 MANUAL PENDING 0)"
  let ?d' = "snd (write_dependency 8 2 ?d)"
  have w: "wf_db ?d" unfolding sample_pending_canceled_def by (rule cancel_op.op_wf[OF sample_wf])
  have r: "get_run_row ?d 2 = Some ?r" "\<not> is_waiting (r_status ?r)" by code_simp+
  have s: "(rc_step sample_lib sample_cv)\<^sup>*\<^sup>* (?d, []) (?d', [])" by (rule rc_inserted) code_simp+
  have "get_run_row ?d' 2 \<noteq> None" "length (runs ?d') = 3" by code_simp+
  then show ?thesis using started_is_final[OF w r _ s, of 9 "''w''"] s by (auto simp: cancel_set_def)
qed


text \<open>
  Claim C37: a fan-out overwrites what happens to the run it selected. Between the select of
  the pending run and its update by primary key other transactions may commit; if the row
  still exists then, whatever it has become (canceled, running, ended), the update makes it
  queued again, with all its other columns, and the next ordinary delivery is granted it.
\<close>

theorem promotion_overwrites:
  assumes w: "wf_db d" and nd: "\<not> has_dispatched_run d j" and p: "pending_run d j = Some p"
    and s: "(rc_step lib cv)\<^sup>*\<^sup>* (d, [Promoting (r_id p)]) (d1, us @ Promoting (r_id p) # vs)"
    and r: "get_run_row d1 (r_id p) = Some r"
  shows "\<exists>d2. (rc_step lib cv)\<^sup>*\<^sup>* (d, []) (d2, us @ vs) \<and>
    create_dependency_stmts now (\<lambda>x. x) (\<lambda>x. d1) j d = (Inr (Some (r_id p)), d2) \<and>
    get_run_row d2 (r_id p) = Some (r\<lparr>r_status := QUEUED\<rparr>) \<and>
    (\<exists>c d3. claim_run t (r_id p) wid False d2 = (Some c, d3))"
proof -
  have "wf_db d1" using rc_steps_wf[OF s] w by simp
  note lands = promotion_lands[OF this r]
  have "(rc_step lib cv)\<^sup>*\<^sup>* (d, []) (d1, us @ Promoting (r_id p) # vs)"
    using rc_selected[OF nd p, of lib cv "[]"] s by (rule rtranclp_trans)
  then have "(rc_step lib cv)\<^sup>*\<^sup>* (d, []) (promote_pending (r_id p) d1, us @ vs)"
    using lands(1)[of lib cv us vs] by (rule rtranclp.rtrancl_into_rtrancl)
  moreover have "create_dependency_stmts now (\<lambda>x. x) (\<lambda>x. d1) j d = (Inr (Some (r_id p)), promote_pending (r_id p) d1)"
    using nd p r by (simp add: create_dependency_stmts_def select_dispatched_def select_pending_def write_promote_def Let_def)
  ultimately show ?thesis using lands(2,3) by blast
qed

text \<open>The user cancels the pending run in this window; the answer is that the run is canceled, and it is queued again.\<close>

theorem promotion_overwrites_witness:
  "\<exists>d2. fst (store_cancel_run 6 2 sample_db) \<and> (rc_step sample_lib sample_cv)\<^sup>*\<^sup>* (sample_db, []) (d2, []) \<and>
     get_run_row d2 2 = Some ((cancel_set 6 (mk_run 2 2 MANUAL PENDING 0))\<lparr>r_status := QUEUED\<rparr>) \<and>
     (\<exists>c d3. claim_run 9 2 ''w'' False d2 = (Some c, d3))"
proof -
  let ?p = "mk_run 2 2 MANUAL PENDING 0"
  have nd: "\<not> has_dispatched_run sample_db 2" and p: "pending_run sample_db 2 = Some ?p" by code_simp+
  have row: "get_run_row sample_db 2 = Some ?p" by code_simp
  note c = cancel_pending_row[OF sample_wf row, of 6]
  have "rc_step sample_lib sample_cv (sample_db, [Promoting 2]) (sample_pending_canceled, [Promoting 2])"
    unfolding sample_pending_canceled_def using c(1) by (intro rc_commit step_cancel) (auto simp: mk_run_def)
  then have s: "(rc_step sample_lib sample_cv)\<^sup>*\<^sup>* (sample_db, [Promoting (r_id ?p)])
      (sample_pending_canceled, [] @ Promoting (r_id ?p) # [])" by (simp add: mk_run_def)
  have "get_run_row sample_pending_canceled (r_id ?p) = Some (cancel_set 6 ?p)"
    using c(2) by (simp add: sample_pending_canceled_def mk_run_def)
  from promotion_overwrites[OF sample_wf nd p s this, of 7 9 "''w''"] c(1)
  show ?thesis by (simp add: mk_run_def) (metis fst_conv)
qed


text \<open>
  Claim C38: concurrent updates are validated one by one, not together. Of two updates of a
  manual job with a valid cron expression, one makes it a cron job and one replaces the
  expression by an invalid one. Each is accepted on the row it read, and the flush writes
  only the changed columns, so both commit and the stored job is invalid; from then on
  croniter raises and no tick schedules any job of any user. One after the other the
  second update is refused with 400.
\<close>

theorem update_skew:
  assumes w: "wf_db d" and o: "owned_job i uid d = Inr j" and v: "job_valid cv j" and en: "j_enabled j"
    and m: "j_schedule_type j = ScheduleType_MANUAL" and e: "j_schedule_expr j = Some e" "e \<noteq> []" "cv e"
    and e': "e' \<noteq> []" "\<not> cv e'" and z: "zone_of lib (j_timezone j) = Inr z" and x: "\<And>t. croniter_next lib e' z t = Inl ex"
  shows "\<exists>u1 u2 d1 d2. update_read cv et i to_cron uid d = Inr u1 \<and> update_read cv et i (with_expr e') uid d = Inr u2 \<and>
    update_write t1 u1 d = (Inr (), d1) \<and> update_write t2 u2 d1 = (Inr (), d2) \<and>
    \<not> jobs_valid cv d2 \<and> (\<forall>ck ids d3. schedule_due_jobs lib ck d2 \<noteq> Some (Inr ids, d3)) \<and>
    (\<exists>msg. update_read cv et i (with_expr e') uid d1 = Inl (HTTPException 400 msg))"
proof -
  let ?b1 = "(row_base j)\<lparr>b_schedule_type := ScheduleType_CRON\<rparr>" and ?b2 = "(row_base j)\<lparr>b_schedule_expr := Some e'\<rparr>"
  let ?j1 = "j\<lparr>j_schedule_type := ScheduleType_CRON, j_updated_at := t1\<rparr>"
  let ?j2 = "?j1\<lparr>j_schedule_expr := Some e', j_updated_at := t2\<rparr>"
  let ?d1 = "update_jobs (\<lambda>x. j_id x = j_id j) (write_columns t1 j ?b1) d"
  let ?d2 = "update_jobs (\<lambda>x. j_id x = j_id j) (write_columns t2 j ?b2) ?d1"
  have j: "get_job_row d i = Some j" "j_owner_user_id j = Some uid" using o by (simp_all add: owned_job_iff[OF w])
  have id: "j_id j = i" using get_job_row_SomeD[OF j(1)] by simp
  have ne: "e' \<noteq> e" using e(3) e'(2) by blast
  note p1 = written_parts(1)[OF m e(1) ne refl, of t1] and p2 = written_parts(2)[OF m e(1) ne refl, of t2 t1]
  have r1: "update_read cv et i to_cron uid d = Inr (j, ?b1, None)"
    using update_read_job[OF o _ merged_parts(1)] validate_parts(1)[OF v m e(3,2,1)] by (simp add: to_cron_def empty_update_def)
  have r2: "update_read cv et i (with_expr e') uid d = Inr (j, ?b2, None)"
    using update_read_job[OF o _ merged_parts(2)] validate_parts(2)[OF v m] by (simp add: with_expr_def empty_update_def)
  have w1: "wf_db ?d1" by (rule wf_update_jobs[OF write_columns_keys w])
  note s1 = written_row[OF j(1)[folded id], of t1 ?b1, unfolded p1]
  note s2 = written_row[OF s1(2), of t2 ?b2, unfolded p2]
  have bad: "?j2 \<in> set (jobs ?d2)" using get_job_row_SomeD[OF s2(2)] by blast
  moreover have "\<not> job_valid cv ?j2" using e'(2) by (intro invalid_cron[of _ e']) simp_all
  ultimately have inv: "\<not> jobs_valid cv ?d2" by (auto simp: jobs_valid_def list_all_iff)
  have stuck: "schedule_due_jobs lib ck ?d2 \<noteq> Some (Inr ids, d3)" for ck ids d3
    by (rule bad_cron_stops[OF bad]) (use en e'(1) z x in simp_all)
  have o1: "owned_job i uid ?d1 = Inr ?j1" using s1(2)[unfolded id] j(2) by (simp add: owned_job_iff(1)[OF w1[unfolded id]] id)
  have "\<not> job_valid cv (?j1\<lparr>j_schedule_expr := Some e'\<rparr>)" using e'(2) by (intro invalid_cron[of _ e']) simp_all
  then have "\<exists>y. JobBase_validate cv ((row_base ?j1)\<lparr>b_schedule_expr := Some e'\<rparr>) = Inl y"
    by (simp add: job_valid_def row_base_def split: sum.splits)
  then have "\<exists>msg. update_read cv et i (with_expr e') uid ?d1 = Inl (HTTPException 400 msg)"
    using update_read_job[OF o1 _ merged_parts(2), of e' cv et] by (auto simp: with_expr_def empty_update_def)
  then show ?thesis using r1 r2 s1(1) s2(1) inv stuck by blast
qed


text \<open>A manual job with a schedule expression, and a croniter that raises on what is not a cron expression.\<close>

definition skew_db :: db where
  "skew_db = sample_db\<lparr>jobs := [mk_job 1 1 ''extract'' ''manual'' (Some ''* * * * *'') 2, mk_job 2 1 ''load'' ''manual'' None 0]\<rparr>"

definition skew_lib :: "unit cron_lib" where
  "skew_lib = sample_lib\<lparr>croniter_next := (\<lambda>e z t. if sample_cv e then Inr (t + sec 60) else Inl CroniterError)\<rparr>"

theorem update_skew_witness:
  "\<exists>u1 u2 d1 d2. update_read sample_cv (\<lambda>_. ''invalid'') 1 to_cron 1 skew_db = Inr u1 \<and>
     update_read sample_cv (\<lambda>_. ''invalid'') 1 (with_expr ''x'') 1 skew_db = Inr u2 \<and>
     update_write 5 u1 skew_db = (Inr (), d1) \<and> update_write 6 u2 d1 = (Inr (), d2) \<and> jobs_valid sample_cv skew_db \<and>
     \<not> jobs_valid sample_cv d2 \<and> (\<forall>ck ids d3. schedule_due_jobs skew_lib ck d2 \<noteq> Some (Inr ids, d3))"
proof -
  let ?j = "mk_job 1 1 ''extract'' ''manual'' (Some ''* * * * *'') 2"
  have w: "wf_db skew_db" by (simp add: skew_db_def sample_defs wf_all_defs)
  have o: "owned_job 1 1 skew_db = Inr ?j" and v: "job_valid sample_cv ?j" and en: "j_enabled ?j"
    and m: "j_schedule_type ?j = ScheduleType_MANUAL" and e: "j_schedule_expr ?j = Some ''* * * * *''" by code_simp+
  have cv: "sample_cv ''* * * * *''" "\<not> sample_cv ''x''" and z: "zone_of skew_lib (j_timezone ?j) = Inr ()"
    and valid: "jobs_valid sample_cv skew_db" by code_simp+
  have x: "croniter_next skew_lib ''x'' () t = Inl CroniterError" for t by (simp add: skew_lib_def sample_cv_def)
  from update_skew[OF w o v en m e _ cv(1) _ cv(2) z x, of "\<lambda>_. ''invalid''" 5 6] valid show ?thesis by blast
qed

end
