(* ===== verification/Migrations.thy ===== *)
theory Migrations
  imports Models
begin

text \<open>
  The schema: the four migrations under \<^verbatim>\<open>migrations/versions\<close> as lists of the
  operations they call, the meaning of these operations on a schema with rows, and
  the tables that \<^verbatim>\<open>backend/common/models.py\<close> declares. A migration runs in one
  transaction, so an operation that fails leaves nothing behind. PostgreSQL names a
  constraint without a name after its table and columns.
\<close>

section \<open>Schemas and operations\<close>

datatype col_type = BigInteger | Integer | Boolean | String nat | Text | JSONB | DateTime

datatype sql_value = VNull | VInt int | VBool bool | VText string | VTime time | VJson json

record column =
  cl_name :: string
  cl_type :: col_type
  cl_nullable :: bool
  cl_server_default :: "sql_value option"

datatype on_delete = CASCADE | SET_NULL

datatype constr =
    PrimaryKey "string list"
  | Unique "string list"
  | ForeignKey "string list" string "string list" on_delete

type_synonym row = "string \<Rightarrow> sql_value"

record table =
  tb_name :: string
  tb_columns :: "column list"
  tb_constraints :: "(string \<times> constr) list"
  tb_indexes :: "(string \<times> string list) list"
  tb_rows :: "row list"

type_synonym schema = "table list"

datatype ddl_error = UndefinedObject | DuplicateObject | DependentObjects | UniqueViolation | ForeignKeyViolation | StringTooLong

text \<open>
  The calls of \<^verbatim>\<open>alembic.op\<close>. The last one is \<^verbatim>\<open>UPDATE t SET c = e, ... WHERE p\<close>;
  the statements here assign to columns without constraints.
\<close>

datatype ddl =
    create_table string "column list" "(string option \<times> constr) list"
  | drop_table string
  | create_index string string "string list"
  | drop_index string string
  | add_column string column
  | drop_column string string
  | add_constraint string string constr
  | drop_constraint string string
  | update_rows string "(string \<times> (row \<Rightarrow> sql_value)) list" "row \<Rightarrow> bool"

section \<open>What the operations do\<close>

fun joined :: "string list \<Rightarrow> string" where
  "joined [] = []"
| "joined (c # cs) = ''_'' @ c @ joined cs"

definition default_name :: "string \<Rightarrow> constr \<Rightarrow> string" where
  "default_name t c = (case c of
     PrimaryKey cs \<Rightarrow> t @ ''_pkey''
   | Unique cs \<Rightarrow> t @ joined cs @ ''_key''
   | ForeignKey cs _ _ _ \<Rightarrow> t @ joined cs @ ''_fkey'')"

definition constr_cols :: "constr \<Rightarrow> string list" where
  "constr_cols c = (case c of PrimaryKey cs \<Rightarrow> cs | Unique cs \<Rightarrow> cs | ForeignKey cs _ _ _ \<Rightarrow> cs)"

definition find_table :: "string \<Rightarrow> schema \<Rightarrow> table option" where
  "find_table t s = get_by tb_name t s"

text \<open>A unique constraint ignores rows with a null in its columns.\<close>

definition key_values :: "string list \<Rightarrow> row list \<Rightarrow> sql_value list list" where
  "key_values cs rs = filter (\<lambda>vs. VNull \<notin> set vs) (map (\<lambda>r. map r cs) rs)"

definition constr_holds :: "schema \<Rightarrow> row list \<Rightarrow> constr \<Rightarrow> ddl_error option" where
  "constr_holds s rs c = (case c of
     PrimaryKey cs \<Rightarrow> if distinct (map (\<lambda>r. map r cs) rs) then None else Some UniqueViolation
   | Unique cs \<Rightarrow> if distinct (key_values cs rs) then None else Some UniqueViolation
   | ForeignKey cs t tcs _ \<Rightarrow>
       (case find_table t s of None \<Rightarrow> Some UndefinedObject
        | Some tb \<Rightarrow> if list_all (\<lambda>vs. vs \<in> set (key_values tcs (tb_rows tb))) (key_values cs rs)
                     then None else Some ForeignKeyViolation))"

definition fits :: "column \<Rightarrow> sql_value \<Rightarrow> bool" where
  "fits c v = (case (cl_type c, v) of (String n, VText s) \<Rightarrow> length s \<le> n | _ \<Rightarrow> True)"

definition assigned_fits :: "column list \<Rightarrow> row \<Rightarrow> string \<times> (row \<Rightarrow> sql_value) \<Rightarrow> bool" where
  "assigned_fits cols r = (\<lambda>(c, e). list_all (\<lambda>cl. cl_name cl = c \<longrightarrow> fits cl (e r)) cols)"

text \<open>All right-hand sides are evaluated in the old row.\<close>

definition assign :: "(string \<times> (row \<Rightarrow> sql_value)) list \<Rightarrow> row \<Rightarrow> row" where
  "assign sets r = (\<lambda>c. case map_of sets c of None \<Rightarrow> r c | Some e \<Rightarrow> e r)"

definition refers_to :: "string \<Rightarrow> table \<Rightarrow> bool" where
  "refers_to t tb \<longleftrightarrow> tb_name tb \<noteq> t \<and>
     list_ex (\<lambda>(_, c). case c of ForeignKey _ t' _ _ \<Rightarrow> t' = t | _ \<Rightarrow> False) (tb_constraints tb)"

definition on_table :: "string \<Rightarrow> (table \<Rightarrow> ddl_error + table) \<Rightarrow> schema \<Rightarrow> ddl_error + schema" where
  "on_table t f s =
     (case find_table t s of None \<Rightarrow> Inl UndefinedObject
      | Some tb \<Rightarrow> (case f tb of Inl e \<Rightarrow> Inl e
          | Inr tb' \<Rightarrow> Inr (map (\<lambda>x. if tb_name x = t then tb' else x) s)))"

definition has_columns :: "table \<Rightarrow> string list \<Rightarrow> bool" where
  "has_columns tb cs = list_all (\<lambda>c. c \<in> set (map cl_name (tb_columns tb))) cs"

definition apply_ddl :: "ddl \<Rightarrow> schema \<Rightarrow> ddl_error + schema" where
  "apply_ddl oper s = (case oper of
     create_table t cols cs \<Rightarrow>
       if find_table t s \<noteq> None then Inl DuplicateObject
       else if \<not> list_all (\<lambda>(_, c). case c of ForeignKey _ t' _ _ \<Rightarrow> find_table t' s \<noteq> None | _ \<Rightarrow> True) cs
       then Inl UndefinedObject
       else Inr (s @ [\<lparr>tb_name = t, tb_columns = cols,
              tb_constraints = map (\<lambda>(n, c). (case n of None \<Rightarrow> default_name t c | Some x \<Rightarrow> x, c)) cs,
              tb_indexes = [], tb_rows = []\<rparr>])
   | drop_table t \<Rightarrow>
       if find_table t s = None then Inl UndefinedObject
       else if list_ex (refers_to t) s then Inl DependentObjects
       else Inr (filter (\<lambda>x. tb_name x \<noteq> t) s)
   | create_index n t cs \<Rightarrow>
       if list_ex (\<lambda>x. n \<in> set (map fst (tb_indexes x))) s then Inl DuplicateObject
       else on_table t (\<lambda>tb. if has_columns tb cs then Inr (tb\<lparr>tb_indexes := tb_indexes tb @ [(n, cs)]\<rparr>)
                              else Inl UndefinedObject) s
   | drop_index n t \<Rightarrow>
       on_table t (\<lambda>tb. if n \<in> set (map fst (tb_indexes tb))
                         then Inr (tb\<lparr>tb_indexes := filter (\<lambda>x. fst x \<noteq> n) (tb_indexes tb)\<rparr>)
                         else Inl UndefinedObject) s
   | add_column t c \<Rightarrow>
       on_table t (\<lambda>tb. if cl_name c \<in> set (map cl_name (tb_columns tb)) then Inl DuplicateObject
                         else Inr (tb\<lparr>tb_columns := tb_columns tb @ [c],
                                tb_rows := map (\<lambda>r. r(cl_name c := case cl_server_default c of None \<Rightarrow> VNull | Some v \<Rightarrow> v)) (tb_rows tb)\<rparr>)) s
   | drop_column t c \<Rightarrow>
       on_table t (\<lambda>tb. if c \<notin> set (map cl_name (tb_columns tb)) then Inl UndefinedObject
                         else Inr (tb\<lparr>tb_columns := filter (\<lambda>x. cl_name x \<noteq> c) (tb_columns tb),
                                tb_constraints := filter (\<lambda>x. c \<notin> set (constr_cols (snd x))) (tb_constraints tb),
                                tb_indexes := filter (\<lambda>x. c \<notin> set (snd x)) (tb_indexes tb),
                                tb_rows := map (\<lambda>r. r(c := VNull)) (tb_rows tb)\<rparr>)) s
   | add_constraint n t c \<Rightarrow>
       on_table t (\<lambda>tb. if n \<in> set (map fst (tb_constraints tb)) then Inl DuplicateObject
                         else if \<not> has_columns tb (constr_cols c) then Inl UndefinedObject
                         else (case constr_holds s (tb_rows tb) c of
                                 Some e \<Rightarrow> Inl e
                               | None \<Rightarrow> Inr (tb\<lparr>tb_constraints := tb_constraints tb @ [(n, c)]\<rparr>))) s
   | drop_constraint n t \<Rightarrow>
       on_table t (\<lambda>tb. if n \<in> set (map fst (tb_constraints tb))
                         then Inr (tb\<lparr>tb_constraints := filter (\<lambda>x. fst x \<noteq> n) (tb_constraints tb)\<rparr>)
                         else Inl UndefinedObject) s
   | update_rows t sets p \<Rightarrow>
       on_table t (\<lambda>tb. if list_all (\<lambda>r. list_all (assigned_fits (tb_columns tb) r) sets) (filter p (tb_rows tb))
                         then Inr (tb\<lparr>tb_rows := map (\<lambda>r. if p r then assign sets r else r) (tb_rows tb)\<rparr>)
                         else Inl StringTooLong) s)"

fun run_ddl :: "ddl list \<Rightarrow> schema \<Rightarrow> ddl_error + schema" where
  "run_ddl [] s = Inr s"
| "run_ddl (p # ps) s = (case apply_ddl p s of Inl e \<Rightarrow> Inl e | Inr s' \<Rightarrow> run_ddl ps s')"

section \<open>The migrations\<close>

definition col :: "string \<Rightarrow> col_type \<Rightarrow> bool \<Rightarrow> column" where
  "col n t nullable = \<lparr>cl_name = n, cl_type = t, cl_nullable = nullable, cl_server_default = None\<rparr>"

text \<open>
  The regular expressions of the last migration: an opening bracket, one or more
  characters that are not a closing one, a closing bracket; then white space.
\<close>

definition bracket_prefix :: "string \<Rightarrow> (string \<times> string) option" where
  "bracket_prefix s = (case s of
     [] \<Rightarrow> None
   | c # cs \<Rightarrow>
       let cat = takeWhile (\<lambda>x. x \<noteq> CHR '']'') cs; rest = dropWhile (\<lambda>x. x \<noteq> CHR '']'') cs
       in if c = CHR ''['' \<and> cat \<noteq> [] \<and> rest \<noteq> [] then Some (cat, tl rest) else None)"

definition regex_space :: "char \<Rightarrow> bool" where
  "regex_space c \<longleftrightarrow> (let n = (of_char c :: nat) in n = 32 \<or> (9 \<le> n \<and> n \<le> 13))"

definition has_category :: "sql_value \<Rightarrow> bool" where
  "has_category v = (case v of VText s \<Rightarrow> bracket_prefix s \<noteq> None | _ \<Rightarrow> False)"

definition category_of :: "sql_value \<Rightarrow> sql_value" where
  "category_of v = (case v of VText s \<Rightarrow> (case bracket_prefix s of None \<Rightarrow> VNull | Some (cat, _) \<Rightarrow> VText cat) | _ \<Rightarrow> VNull)"

definition rest_of :: "sql_value \<Rightarrow> sql_value" where
  "rest_of v = (case v of
     VText s \<Rightarrow> VText (case bracket_prefix s of None \<Rightarrow> s | Some (_, rest) \<Rightarrow> dropWhile regex_space rest)
   | _ \<Rightarrow> v)"

definition upgrade_0001 :: "ddl list" where
  "upgrade_0001 =
     [create_table ''jobs''
        [col ''id'' BigInteger False,
         col ''name'' (String 255) False,
         col ''description'' Text True,
         col ''task_type'' (String 32) False,
         col ''task_spec'' JSONB False,
         col ''schedule_type'' (String 16) False,
         col ''schedule_expr'' (String 255) True,
         col ''timezone'' (String 64) False,
         col ''enabled'' Boolean False,
         col ''max_retries'' Integer False,
         col ''retry_backoff_sec'' Integer False,
         col ''timeout_sec'' Integer False,
         col ''last_scheduled_for'' DateTime True,
         col ''created_at'' DateTime False,
         col ''updated_at'' DateTime False]
        [(None, PrimaryKey [''id'']),
         (None, Unique [''name''])],
      create_table ''job_dependencies''
        [col ''id'' BigInteger False,
         col ''job_id'' BigInteger False,
         col ''depends_on_job_id'' BigInteger False]
        [(None, ForeignKey [''job_id''] ''jobs'' [''id''] CASCADE),
         (None, ForeignKey [''depends_on_job_id''] ''jobs'' [''id''] CASCADE),
         (None, PrimaryKey [''id'']),
         (Some ''uq_job_dependency'', Unique [''job_id'', ''depends_on_job_id''])],
      create_index ''ix_job_dependencies_job_id'' ''job_dependencies'' [''job_id''],
      create_index ''ix_job_dependencies_depends_on_job_id'' ''job_dependencies'' [''depends_on_job_id''],
      create_table ''job_runs''
        [col ''id'' BigInteger False,
         col ''job_id'' BigInteger False,
         col ''trigger_type'' (String 16) False,
         col ''status'' (String 16) False,
         col ''attempt'' Integer False,
         col ''scheduled_for'' DateTime True,
         col ''started_at'' DateTime True,
         col ''finished_at'' DateTime True,
         col ''exit_code'' Integer True,
         col ''result'' JSONB True,
         col ''error'' Text True,
         col ''worker_id'' (String 255) True,
         col ''created_at'' DateTime False]
        [(None, ForeignKey [''job_id''] ''jobs'' [''id''] CASCADE),
         (None, PrimaryKey [''id'']),
         (Some ''uq_job_run_tick'', Unique [''job_id'', ''scheduled_for''])],
      create_index ''ix_job_runs_job_id'' ''job_runs'' [''job_id''],
      create_index ''ix_job_runs_status'' ''job_runs'' [''status''],
      create_index ''ix_job_runs_job_id_created'' ''job_runs'' [''job_id'', ''created_at''],
      create_table ''job_run_logs''
        [col ''id'' BigInteger False,
         col ''run_id'' BigInteger False,
         col ''ts'' DateTime False,
         col ''stream'' (String 16) False,
         col ''line'' Text False]
        [(None, ForeignKey [''run_id''] ''job_runs'' [''id''] CASCADE),
         (None, PrimaryKey [''id''])],
      create_index ''ix_job_run_logs_run_id'' ''job_run_logs'' [''run_id''],
      create_index ''ix_job_run_logs_run_id_ts'' ''job_run_logs'' [''run_id'', ''ts'']]"

definition downgrade_0001 :: "ddl list" where
  "downgrade_0001 =
     [drop_index ''ix_job_run_logs_run_id_ts'' ''job_run_logs'',
      drop_index ''ix_job_run_logs_run_id'' ''job_run_logs'',
      drop_table ''job_run_logs'',
      drop_index ''ix_job_runs_job_id_created'' ''job_runs'',
      drop_index ''ix_job_runs_status'' ''job_runs'',
      drop_index ''ix_job_runs_job_id'' ''job_runs'',
      drop_table ''job_runs'',
      drop_index ''ix_job_dependencies_depends_on_job_id'' ''job_dependencies'',
      drop_index ''ix_job_dependencies_job_id'' ''job_dependencies'',
      drop_table ''job_dependencies'',
      drop_table ''jobs'']"

definition upgrade_0002 :: "ddl list" where
  "upgrade_0002 =
     [create_table ''users''
        [col ''id'' BigInteger False,
         col ''username'' (String 64) False,
         col ''email'' (String 255) True,
         col ''password_hash'' (String 255) False,
         (col ''is_active'' Boolean False)\<lparr>cl_server_default := Some (VBool True)\<rparr>,
         col ''created_at'' DateTime False,
         col ''updated_at'' DateTime False]
        [(None, PrimaryKey [''id'']),
         (None, Unique [''username'']),
         (None, Unique [''email''])],
      create_index ''ix_users_username'' ''users'' [''username''],
      create_index ''ix_users_email'' ''users'' [''email'']]"

definition downgrade_0002 :: "ddl list" where
  "downgrade_0002 =
     [drop_index ''ix_users_email'' ''users'',
      drop_index ''ix_users_username'' ''users'',
      drop_table ''users'']"

definition upgrade_0003 :: "ddl list" where
  "upgrade_0003 =
     [add_column ''jobs'' (col ''owner_user_id'' BigInteger True),
      create_index ''ix_jobs_owner_user_id'' ''jobs'' [''owner_user_id''],
      add_constraint ''fk_jobs_owner_user_id_users'' ''jobs'' (ForeignKey [''owner_user_id''] ''users'' [''id''] SET_NULL),
      drop_constraint ''jobs_name_key'' ''jobs'',
      add_constraint ''uq_jobs_owner_name'' ''jobs'' (Unique [''owner_user_id'', ''name'']),
      update_rows ''jobs'' [(''enabled'', \<lambda>r. VBool False)] (\<lambda>r. r ''owner_user_id'' = VNull)]"

definition downgrade_0003 :: "ddl list" where
  "downgrade_0003 =
     [drop_constraint ''uq_jobs_owner_name'' ''jobs'',
      add_constraint ''jobs_name_key'' ''jobs'' (Unique [''name'']),
      drop_constraint ''fk_jobs_owner_user_id_users'' ''jobs'',
      drop_index ''ix_jobs_owner_user_id'' ''jobs'',
      drop_column ''jobs'' ''owner_user_id'']"

definition upgrade_0004 :: "ddl list" where
  "upgrade_0004 =
     [add_column ''jobs'' (col ''category'' (String 64) True),
      create_index ''ix_jobs_category'' ''jobs'' [''category''],
      update_rows ''jobs'' [(''category'', \<lambda>r. category_of (r ''description'')),
         (''description'', \<lambda>r. rest_of (r ''description''))] (\<lambda>r. has_category (r ''description''))]"

definition downgrade_0004 :: "ddl list" where
  "downgrade_0004 =
     [drop_index ''ix_jobs_category'' ''jobs'',
      drop_column ''jobs'' ''category'']"


section \<open>Revisions\<close>

text \<open>
  The module variables by which Alembic orders the scripts: each names the revision it
  revises. Upgrading to a revision runs the scripts from the first one to it, found by
  following \<^verbatim>\<open>down_revision\<close>; a missing or circular reference gives no path.
\<close>

record migration =
  mg_revision :: string
  mg_down_revision :: "string option"
  mg_upgrade :: "ddl list"
  mg_downgrade :: "ddl list"

definition migration_0001 :: migration where
  "migration_0001 = \<lparr>mg_revision = ''0001'', mg_down_revision = None,
     mg_upgrade = upgrade_0001, mg_downgrade = downgrade_0001\<rparr>"

definition migration_0002 :: migration where
  "migration_0002 = \<lparr>mg_revision = ''0002'', mg_down_revision = Some ''0001'',
     mg_upgrade = upgrade_0002, mg_downgrade = downgrade_0002\<rparr>"

definition migration_0003 :: migration where
  "migration_0003 = \<lparr>mg_revision = ''0003'', mg_down_revision = Some ''0002'',
     mg_upgrade = upgrade_0003, mg_downgrade = downgrade_0003\<rparr>"

definition migration_0004 :: migration where
  "migration_0004 = \<lparr>mg_revision = ''0004'', mg_down_revision = Some ''0003'',
     mg_upgrade = upgrade_0004, mg_downgrade = downgrade_0004\<rparr>"

fun lineage :: "nat \<Rightarrow> migration list \<Rightarrow> string option \<Rightarrow> migration list option" where
  "lineage n ms None = Some []"
| "lineage 0 ms (Some r) = None"
| "lineage (Suc n) ms (Some r) =
     (case find (\<lambda>m. mg_revision m = r) ms of
        None \<Rightarrow> None
      | Some m \<Rightarrow> map_option (\<lambda>l. l @ [m]) (lineage n ms (mg_down_revision m)))"

section \<open>The tables of models.py\<close>

text \<open>
  The declared tables. A column with \<^verbatim>\<open>index=True\<close> has the index \<^verbatim>\<open>ix_table_column\<close>;
  one that is also \<^verbatim>\<open>unique=True\<close> has a unique index, here a key and an index.
\<close>

definition metadata :: schema where
  "metadata =
     [\<lparr>tb_name = ''users'',
       tb_columns = [col ''id'' BigInteger False, col ''username'' (String 64) False, col ''email'' (String 255) True,
         col ''password_hash'' (String 255) False, col ''is_active'' Boolean False, col ''created_at'' DateTime False,
         col ''updated_at'' DateTime False],
       tb_constraints = [(''users_pkey'', PrimaryKey [''id'']), (''ix_users_username'', Unique [''username'']),
         (''ix_users_email'', Unique [''email''])],
       tb_indexes = [(''ix_users_username'', [''username'']), (''ix_users_email'', [''email''])], tb_rows = []\<rparr>,
      \<lparr>tb_name = ''jobs'',
       tb_columns = [col ''id'' BigInteger False, col ''owner_user_id'' BigInteger True, col ''name'' (String 255) False,
         col ''description'' Text True, col ''category'' (String 64) True, col ''task_type'' (String 32) False,
         col ''task_spec'' JSONB False, col ''schedule_type'' (String 16) False, col ''schedule_expr'' (String 255) True,
         col ''timezone'' (String 64) False, col ''enabled'' Boolean False, col ''max_retries'' Integer False,
         col ''retry_backoff_sec'' Integer False, col ''timeout_sec'' Integer False, col ''last_scheduled_for'' DateTime True,
         col ''created_at'' DateTime False, col ''updated_at'' DateTime False],
       tb_constraints = [(''jobs_pkey'', PrimaryKey [''id'']),
         (''jobs_owner_user_id_fkey'', ForeignKey [''owner_user_id''] ''users'' [''id''] SET_NULL)],
       tb_indexes = [(''ix_jobs_owner_user_id'', [''owner_user_id'']), (''ix_jobs_category'', [''category''])], tb_rows = []\<rparr>,
      \<lparr>tb_name = ''job_dependencies'',
       tb_columns = [col ''id'' BigInteger False, col ''job_id'' BigInteger False, col ''depends_on_job_id'' BigInteger False],
       tb_constraints = [(''job_dependencies_pkey'', PrimaryKey [''id'']),
         (''uq_job_dependency'', Unique [''job_id'', ''depends_on_job_id'']),
         (''job_dependencies_job_id_fkey'', ForeignKey [''job_id''] ''jobs'' [''id''] CASCADE),
         (''job_dependencies_depends_on_job_id_fkey'', ForeignKey [''depends_on_job_id''] ''jobs'' [''id''] CASCADE)],
       tb_indexes = [(''ix_job_dependencies_job_id'', [''job_id'']),
         (''ix_job_dependencies_depends_on_job_id'', [''depends_on_job_id''])], tb_rows = []\<rparr>,
      \<lparr>tb_name = ''job_runs'',
       tb_columns = [col ''id'' BigInteger False, col ''job_id'' BigInteger False, col ''trigger_type'' (String 16) False,
         col ''status'' (String 16) False, col ''attempt'' Integer False, col ''scheduled_for'' DateTime True,
         col ''started_at'' DateTime True, col ''finished_at'' DateTime True, col ''exit_code'' Integer True,
         col ''result'' JSONB True, col ''error'' Text True, col ''worker_id'' (String 255) True, col ''created_at'' DateTime False],
       tb_constraints = [(''job_runs_pkey'', PrimaryKey [''id'']), (''uq_job_run_tick'', Unique [''job_id'', ''scheduled_for'']),
         (''job_runs_job_id_fkey'', ForeignKey [''job_id''] ''jobs'' [''id''] CASCADE)],
       tb_indexes = [(''ix_job_runs_status'', [''status'']), (''ix_job_runs_job_id_created'', [''job_id'', ''created_at'']),
         (''ix_job_runs_job_id'', [''job_id''])], tb_rows = []\<rparr>,
      \<lparr>tb_name = ''job_run_logs'',
       tb_columns = [col ''id'' BigInteger False, col ''run_id'' BigInteger False, col ''ts'' DateTime False,
         col ''stream'' (String 16) False, col ''line'' Text False],
       tb_constraints = [(''job_run_logs_pkey'', PrimaryKey [''id'']),
         (''job_run_logs_run_id_fkey'', ForeignKey [''run_id''] ''job_runs'' [''id''] CASCADE)],
       tb_indexes = [(''ix_job_run_logs_run_id_ts'', [''run_id'', ''ts'']), (''ix_job_run_logs_run_id'', [''run_id''])],
       tb_rows = []\<rparr>]"

section \<open>Comparing schemas\<close>

definition col_view :: "column \<Rightarrow> string \<times> col_type \<times> bool" where
  "col_view c = (cl_name c, cl_type c, cl_nullable c)"

definition same_set :: "'a list \<Rightarrow> 'a list \<Rightarrow> bool" where
  "same_set xs ys \<longleftrightarrow> list_all (\<lambda>x. x \<in> set ys) xs \<and> list_all (\<lambda>y. y \<in> set xs) ys"

text \<open>Columns, constraints (by what they say, with the given ones in addition) and indexes agree.\<close>

definition same_table :: "constr list \<Rightarrow> table \<Rightarrow> table \<Rightarrow> bool" where
  "same_table extra m t \<longleftrightarrow> same_set (map col_view (tb_columns m)) (map col_view (tb_columns t)) \<and>
     same_set (map snd (tb_constraints m) @ extra) (map snd (tb_constraints t)) \<and> same_set (tb_indexes m) (tb_indexes t)"

definition only_in_migrations :: "string \<Rightarrow> constr list" where
  "only_in_migrations t = (if t = ''jobs'' then [Unique [''owner_user_id'', ''name'']] else [])"

definition same_schema :: "schema \<Rightarrow> schema \<Rightarrow> bool" where
  "same_schema ms s \<longleftrightarrow> same_set (map tb_name ms) (map tb_name s) \<and>
     list_all (\<lambda>m. case find_table (tb_name m) s of None \<Rightarrow> False
       | Some t \<Rightarrow> same_table (only_in_migrations (tb_name m)) m t) ms"

definition revision :: "nat \<Rightarrow> schema" where
  "revision n = (case run_ddl (concat (take n [upgrade_0001, upgrade_0002, upgrade_0003, upgrade_0004])) [] of
     Inl _ \<Rightarrow> [] | Inr s \<Rightarrow> s)"

lemma col_simps [simp]: "cl_name (col n t b) = n" "cl_type (col n t b) = t" "cl_server_default (col n t b) = None"
  by (simp_all add: col_def)

lemma run_ddl_append: "run_ddl (ps @ qs) s = (case run_ddl ps s of Inl e \<Rightarrow> Inl e | Inr s' \<Rightarrow> run_ddl qs s')"
  by (induction ps arbitrary: s) (auto split: sum.splits)

section \<open>The jobs table before and after\<close>

definition jobs_cols :: "column list" where
  "jobs_cols = [col ''id'' BigInteger False, col ''name'' (String 255) False, col ''description'' Text True,
     col ''task_type'' (String 32) False, col ''task_spec'' JSONB False, col ''schedule_type'' (String 16) False,
     col ''schedule_expr'' (String 255) True, col ''timezone'' (String 64) False, col ''enabled'' Boolean False,
     col ''max_retries'' Integer False, col ''retry_backoff_sec'' Integer False, col ''timeout_sec'' Integer False,
     col ''last_scheduled_for'' DateTime True, col ''created_at'' DateTime False, col ''updated_at'' DateTime False]"

definition jobs_0002 :: "row list \<Rightarrow> table" where
  "jobs_0002 rows = \<lparr>tb_name = ''jobs'', tb_columns = jobs_cols,
     tb_constraints = [(''jobs_pkey'', PrimaryKey [''id'']), (''jobs_name_key'', Unique [''name''])],
     tb_indexes = [], tb_rows = rows\<rparr>"

definition jobs_0004 :: "row list \<Rightarrow> table" where
  "jobs_0004 rows = \<lparr>tb_name = ''jobs'',
     tb_columns = jobs_cols @ [col ''owner_user_id'' BigInteger True, col ''category'' (String 64) True],
     tb_constraints = [(''jobs_pkey'', PrimaryKey [''id'']),
       (''fk_jobs_owner_user_id_users'', ForeignKey [''owner_user_id''] ''users'' [''id''] SET_NULL),
       (''uq_jobs_owner_name'', Unique [''owner_user_id'', ''name''])],
     tb_indexes = [(''ix_jobs_owner_user_id'', [''owner_user_id'']), (''ix_jobs_category'', [''category''])], tb_rows = rows\<rparr>"

text \<open>The other tables, as far as the two migrations look at them.\<close>

definition other_tables :: "schema \<Rightarrow> bool" where
  "other_tables s \<longleftrightarrow> find_table ''jobs'' s = None \<and> find_table ''users'' s \<noteq> None \<and>
     \<not> list_ex (\<lambda>x. ''ix_jobs_owner_user_id'' \<in> set (map fst (tb_indexes x)) \<or> ''ix_jobs_category'' \<in> set (map fst (tb_indexes x))) s"

lemma other_tablesD:
  assumes "other_tables s"
  shows "map (\<lambda>x. if tb_name x = ''jobs'' then j else x) s = s" and "\<exists>u. find_table ''users'' s = Some u"
    and "\<not> list_ex (\<lambda>x. ''ix_jobs_owner_user_id'' \<in> fst ` set (tb_indexes x)) s"
    and "\<not> list_ex (\<lambda>x. ''ix_jobs_category'' \<in> fst ` set (tb_indexes x)) s"
proof -
  have "''jobs'' \<notin> tb_name ` set s" using assms by (simp add: other_tables_def find_table_def get_by_None_iff)
  then show "map (\<lambda>x. if tb_name x = ''jobs'' then j else x) s = s" by (auto simp: image_iff intro!: map_idI)
qed (use assms in \<open>auto simp: other_tables_def list_ex_iff\<close>)

lemma on_jobs:
  assumes "other_tables s" and "tb_name j = ''jobs''"
  shows "on_table ''jobs'' f (j # s) = (case f j of Inl e \<Rightarrow> Inl e | Inr j' \<Rightarrow> Inr (j' # s))"
  using assms other_tablesD(1)[OF assms(1)] by (simp add: on_table_def find_table_def split: sum.splits)

text \<open>A job from before the two migrations: it has neither of the new columns.\<close>

definition legacy :: "row \<Rightarrow> bool" where
  "legacy r \<longleftrightarrow> r ''owner_user_id'' = VNull \<and> r ''category'' = VNull"

definition migrate_row :: "row \<Rightarrow> row" where
  "migrate_row r = r(''enabled'' := VBool False, ''category'' := category_of (r ''description''),
     ''description'' := rest_of (r ''description''))"

definition category_fits :: "row \<Rightarrow> bool" where
  "category_fits r = (case category_of (r ''description'') of VText c \<Rightarrow> length c \<le> 64 | _ \<Rightarrow> True)"

lemma key_values_null: "list_all (\<lambda>r. r c = VNull) rows \<Longrightarrow> c \<in> set cs \<Longrightarrow> key_values cs rows = []"
  by (force simp: key_values_def list_all_iff filter_empty_conv)

lemma upgrade_0003_jobs:
  assumes s: "other_tables s" and l: "list_all legacy rows"
  shows "run_ddl upgrade_0003 (jobs_0002 rows # s) = Inr ((jobs_0004 (map (\<lambda>r. r(''enabled'' := VBool False)) rows))
     \<lparr>tb_columns := jobs_cols @ [col ''owner_user_id'' BigInteger True],
      tb_indexes := [(''ix_jobs_owner_user_id'', [''owner_user_id''])]\<rparr> # s)"
proof -
  obtain u where u: "find_table ''users'' s = Some u" using other_tablesD(2)[OF s] by blast
  have "find_table ''users'' (j # s) = Some u" if "tb_name j = ''jobs''" for j using u that by (simp add: find_table_def)
  moreover have "map ((\<lambda>r. if r ''owner_user_id'' = VNull then assign [(''enabled'', \<lambda>r. VBool False)] r else r) \<circ>
      (\<lambda>r. r(''owner_user_id'' := VNull))) rows = map (\<lambda>r. r(''enabled'' := VBool False)) rows"
    using l by (auto simp: list_all_iff legacy_def assign_def fun_eq_iff)
  ultimately show ?thesis
    using other_tablesD(3,4)[OF s] 
    by (simp add: upgrade_0003_def apply_ddl_def on_jobs[OF s] jobs_0002_def jobs_0004_def jobs_cols_def has_columns_def
        constr_cols_def constr_holds_def key_values_null[of "''owner_user_id''"] list_all_iff assigned_fits_def fits_def)
qed

lemma assigned_category:
  "assigned_fits (jobs_cols @ [col ''owner_user_id'' BigInteger True, col ''category'' (String 64) True]) r
     (''category'', \<lambda>r. category_of (r ''description'')) \<longleftrightarrow> category_fits r"
  "assigned_fits (jobs_cols @ [col ''owner_user_id'' BigInteger True, col ''category'' (String 64) True]) r
     (''description'', \<lambda>r. rest_of (r ''description''))"
  by (simp_all add: assigned_fits_def jobs_cols_def fits_def category_fits_def split: sql_value.splits)

lemma no_category: "\<not> has_category v \<Longrightarrow> category_of v = VNull \<and> rest_of v = v"
  by (auto simp: has_category_def category_of_def rest_of_def split: sql_value.splits)

lemma upgrade_0004_jobs:
  assumes s: "other_tables s" and l: "list_all legacy rows"
  shows "run_ddl upgrade_0004 ((jobs_0004 (map (\<lambda>r. r(''enabled'' := VBool False)) rows))
     \<lparr>tb_columns := jobs_cols @ [col ''owner_user_id'' BigInteger True],
      tb_indexes := [(''ix_jobs_owner_user_id'', [''owner_user_id''])]\<rparr> # s) =
    (if list_all category_fits rows then Inr (jobs_0004 (map migrate_row rows) # s) else Inl StringTooLong)"
proof -
  let ?old = "map ((\<lambda>r. r(''category'' := VNull)) \<circ> (\<lambda>r. r(''enabled'' := VBool False))) rows"
  let ?sets = "[(''category'', \<lambda>r. category_of (r ''description'')), (''description'', \<lambda>r. rest_of (r ''description''))]"
  have new: "map (\<lambda>r. if has_category (r ''description'') then assign ?sets r else r) ?old = map migrate_row rows"
    using l no_category by (auto simp: list_all_iff legacy_def assign_def migrate_row_def fun_eq_iff)
  have fit: "list_all (\<lambda>r. list_all (assigned_fits (jobs_cols @ [col ''owner_user_id'' BigInteger True, col ''category'' (String 64) True]) r)
      ?sets) (filter (\<lambda>r. has_category (r ''description'')) ?old) \<longleftrightarrow> list_all category_fits rows"
    using no_category by (fastforce simp: assigned_category list_all_iff category_fits_def)
  have c: "''category'' \<notin> set (map cl_name (jobs_cols @ [col ''owner_user_id'' BigInteger True]))" by (simp add: jobs_cols_def)
  show ?thesis
    using other_tablesD(3,4)[OF s] c new fit
    by (simp add: upgrade_0004_def apply_ddl_def on_jobs[OF s] jobs_0004_def has_columns_def)
qed

lemma downgrade_jobs:
  assumes s: "other_tables s" and o: "list_all (\<lambda>r. r ''owner_user_id'' = VNull) rows"
  shows "run_ddl (downgrade_0004 @ downgrade_0003) (jobs_0004 rows # s) =
    (if distinct (key_values [''name''] rows) then Inr (jobs_0002 (map (\<lambda>r. r(''category'' := VNull)) rows) # s)
     else Inl UniqueViolation)"
proof -
  have k: "key_values [''name''] (map (\<lambda>r. r(''category'' := VNull)) rows) = key_values [''name''] rows"
    by (simp add: key_values_def comp_def)
  have r: "map ((\<lambda>r. r(''owner_user_id'' := VNull)) \<circ> (\<lambda>r. r(''category'' := VNull))) rows = map (\<lambda>r. r(''category'' := VNull)) rows"
    using o by (auto simp: list_all_iff fun_eq_iff)
  show ?thesis
    using k r
    by (simp add: downgrade_0003_def downgrade_0004_def apply_ddl_def on_jobs[OF s] jobs_0004_def jobs_0002_def jobs_cols_def
        has_columns_def constr_cols_def constr_holds_def)
qed


section \<open>The revisions\<close>

lemma revision_2: "\<exists>s. revision 2 = jobs_0002 [] # s \<and> other_tables s"
proof -
  have "case revision 2 of [] \<Rightarrow> False
      | j # s \<Rightarrow> tb_name j = ''jobs'' \<and> tb_columns j = jobs_cols \<and>
         tb_constraints j = [(''jobs_pkey'', PrimaryKey [''id'']), (''jobs_name_key'', Unique [''name''])] \<and>
         tb_indexes j = [] \<and> tb_rows j = [] \<and> other_tables s"
    by code_simp
  then show ?thesis by (auto simp: jobs_0002_def split: list.splits)
qed

lemma revision_4: "revision 2 = jobs_0002 [] # s \<Longrightarrow> other_tables s \<Longrightarrow> revision 4 = jobs_0004 [] # s"
proof -
  assume s: "revision 2 = jobs_0002 [] # s" "other_tables s"
  have r: "run_ddl (upgrade_0001 @ upgrade_0002) [] = Inr (jobs_0002 [] # s)"
    using s(1) by (auto simp: revision_def split: sum.splits)
  have "run_ddl (upgrade_0001 @ upgrade_0002 @ upgrade_0003 @ upgrade_0004) [] = Inr (jobs_0004 [] # s)"
    using upgrade_0003_jobs[OF s(2), of "[]"] upgrade_0004_jobs[OF s(2), of "[]"] r
    by (simp add: append_assoc[symmetric] run_ddl_append del: append_assoc)
  then show ?thesis by (simp add: revision_def)
qed

text \<open>A schema whose jobs table holds the given rows.\<close>

definition with_jobs :: "row list \<Rightarrow> schema \<Rightarrow> schema" where
  "with_jobs rows s = map (\<lambda>t. if tb_name t = ''jobs'' then t\<lparr>tb_rows := rows\<rparr> else t) s"

lemma with_jobs_eq:
  assumes "other_tables s"
  shows "with_jobs rows (jobs_0002 [] # s) = jobs_0002 rows # s" and "with_jobs rows (jobs_0004 [] # s) = jobs_0004 rows # s"
proof -
  have "''jobs'' \<notin> tb_name ` set s" using assms by (simp add: other_tables_def find_table_def get_by_None_iff)
  then have "map (\<lambda>t. if tb_name t = ''jobs'' then t\<lparr>tb_rows := rows\<rparr> else t) s = s" by (auto simp: image_iff intro!: map_idI)
  then show "with_jobs rows (jobs_0002 [] # s) = jobs_0002 rows # s" "with_jobs rows (jobs_0004 [] # s) = jobs_0004 rows # s"
    by (simp_all add: with_jobs_def jobs_0002_def jobs_0004_def)
qed

section \<open>The path of the revisions\<close>

lemma migration_fields [simp]:
  "mg_revision migration_0001 = ''0001''" "mg_down_revision migration_0001 = None"
  "mg_revision migration_0002 = ''0002''" "mg_down_revision migration_0002 = Some ''0001''"
  "mg_revision migration_0003 = ''0003''" "mg_down_revision migration_0003 = Some ''0002''"
  "mg_revision migration_0004 = ''0004''" "mg_down_revision migration_0004 = Some ''0003''"
  by (simp_all add: migration_0001_def migration_0002_def migration_0003_def migration_0004_def)

lemma migrations_distinct: "distinct [migration_0001, migration_0002, migration_0003, migration_0004]"
proof -
  have "distinct (map mg_revision [migration_0001, migration_0002, migration_0003, migration_0004])" by simp
  then show ?thesis unfolding distinct_map by (rule conjunct1)
qed

lemma find_unique:
  assumes m: "P m" "m \<in> set ms" and u: "\<And>x. x \<in> set ms \<Longrightarrow> P x \<Longrightarrow> x = m"
  shows "find P ms = Some m"
proof (cases "find P ms")
  case None
  then show ?thesis using m by (simp add: find_None_iff)
next
  case (Some x)
  then obtain i where "i < length ms" "P x" "x = ms ! i" by (auto simp: find_Some_iff)
  then have "x = m" by (intro u) simp_all
  then show ?thesis using Some by simp
qed

lemma find_script:
  assumes "set ms = {migration_0001, migration_0002, migration_0003, migration_0004}"
  shows "find (\<lambda>m. mg_revision m = ''0001'') ms = Some migration_0001"
    "find (\<lambda>m. mg_revision m = ''0002'') ms = Some migration_0002"
    "find (\<lambda>m. mg_revision m = ''0003'') ms = Some migration_0003"
    "find (\<lambda>m. mg_revision m = ''0004'') ms = Some migration_0004"
  by (rule find_unique; auto simp: assms)+

lemma script_count:
  assumes "set ms = {migration_0001, migration_0002, migration_0003, migration_0004}" and "distinct ms"
  shows "length ms = Suc (Suc (Suc (Suc 0)))"
  using assms distinct_card[OF assms(2)] distinct_card[OF migrations_distinct] by simp

section \<open>Properties\<close>




definition sample_legacy :: row where
  "sample_legacy = (\<lambda>_. VNull)(''id'' := VInt 1, ''name'' := VText ''backup'', ''enabled'' := VBool True,
     ''description'' := VText ''[ops] nightly'')"


end
