(* ===== verification/Spec2Isabelle.thy ===== *)
theory Spec2Isabelle
  imports Isolation Migrations
begin

text \<open>
  \<^bold>\<open>A verification of the Distributed Asynchronous Job Scheduler.\<close>

  \<^bold>\<open>The program.\<close> Users register jobs through an HTTP API (\<^verbatim>\<open>src/backend/api\<close>). A scheduler
  with leader election (\<^verbatim>\<open>src/backend/scheduler\<close>) creates runs of jobs that are due. Workers
  (\<^verbatim>\<open>src/backend/worker\<close>) consume a Redis stream of run identifiers, claim the run in PostgreSQL,
  execute it over HTTP or as a local process, and record the result; a failure may be retried
  after a delay, a success may release jobs that depend on it. The three processes share
  the tables of \<^verbatim>\<open>src/backend/common/models.py\<close>, the Redis keys of \<^verbatim>\<open>redis_queue.py\<close> and nothing else.

  \<^bold>\<open>The theories\<close>, in the order in which they build on each other.

  \<^item> \<open>Prelude\<close>, \<open>Py_Strings\<close>, \<open>Py_Json\<close>: exceptions as values, effects
    (\<open>('s, 'a) eff\<close>: a state goes in, an exception or a value and a state come out), relations
    that effects keep (locale \<open>eff_preorder\<close>), Python's conversions of strings, integers and JSON.
  \<^item> \<open>Models\<close>: \<^verbatim>\<open>common/constants.py\<close>, \<^verbatim>\<open>common/config.py\<close>, \<^verbatim>\<open>common/models.py\<close>. A table is the list of
    its rows (one record type per class), \<open>db\<close> the record of tables and identifier sequences;
    \<open>wf_db\<close> collects the declared constraints.
  \<^item> \<open>Redis_Queue\<close>, \<open>Memory_Redis\<close>: \<^verbatim>\<open>common/redis_queue.py\<close> over the commands of a Redis server
    (record \<open>redis_api\<close>); what the code relies on is the locale \<open>redis_server\<close>, interpreted on
    an in-memory server. \<open>Sample\<close> holds the small database of the closed examples.
  \<^item> \<open>Dispatch\<close>, \<open>Store\<close>: \<^verbatim>\<open>common/dispatch.py\<close> and every transaction of \<^verbatim>\<open>worker/store.py\<close>. The locale
    \<open>run_op\<close> is the contract of a transaction (constraints kept, identifiers not reused, runs only
    move forward); every transaction interprets it.
  \<^item> \<open>Runner\<close>: \<^verbatim>\<open>worker/runner.py\<close>, \<^verbatim>\<open>executors/base.py\<close>, \<^verbatim>\<open>executors/retry.py\<close>, \<^verbatim>\<open>executors/__init__.py\<close>.
    The locale \<open>store_rel\<close> says that the runner touches the database through the store's transactions
    only; it is interpreted twice, on the contract of the transactions and (in \<open>System\<close>) on
    the reachable databases.
  \<^item> \<open>Http_Exec\<close>, \<open>Shell_Exec\<close>, \<open>Executors\<close>: \<^verbatim>\<open>executors/http.py\<close>, \<^verbatim>\<open>http_async.py\<close>, \<^verbatim>\<open>shell.py\<close> over an HTTP
    client with clock and sleep and over an operating system (locale \<open>http_world\<close>).
  \<^item> \<open>Worker\<close>: \<^verbatim>\<open>worker/main.py\<close> as a step relation on the state of the process (tasks waiting for the
    semaphore, running tasks, the table of runs in flight); locale \<open>redis_consumer\<close> for consumer groups.
  \<^item> \<open>Cron\<close>, \<open>Leader\<close>, \<open>Scheduler\<close>: \<^verbatim>\<open>scheduler/cron.py\<close> (locale \<open>ticker\<close>), \<^verbatim>\<open>scheduler/leader.py\<close> (locale
    \<open>lock_server\<close>, interleaving of replicas) and \<^verbatim>\<open>scheduler/main.py\<close>.
  \<^item> \<open>Schemas\<close>, \<open>Crud\<close>, \<open>Jobs_Api\<close>, \<open>Runs_Api\<close>, \<open>Drafts\<close>: \<^verbatim>\<open>common/schemas.py\<close>, \<^verbatim>\<open>api/crud.py\<close>,
    \<^verbatim>\<open>api/routers/jobs.py\<close>, \<^verbatim>\<open>api/routers/runs.py\<close>, every handler.
  \<^item> \<open>Base64\<close>, \<open>Auth\<close>: \<^verbatim>\<open>common/auth.py\<close>, \<^verbatim>\<open>api/routers/auth.py\<close>, \<^verbatim>\<open>api/deps.py\<close>.
  \<^item> \<open>Job_Types\<close>, \<open>Ownership\<close>, \<open>Lifecycle\<close>: three views of the database that the properties speak of:
    valid jobs, owners of rows, and the abstract board of runs with its permitted steps.
  \<^item> \<open>Metrics\<close>: \<^verbatim>\<open>common/metrics.py\<close> and the instrumented versions of the queue operations.
  \<^item> \<open>Api\<close>: \<^verbatim>\<open>common/db.py\<close>, \<^verbatim>\<open>api/main.py\<close>, \<^verbatim>\<open>api/routers/health.py\<close>: sessions, routing, middleware, and
    \<open>serve\<close>, which answers one request with all handlers behind it.
  \<^item> \<open>System\<close>: all transactions as one relation \<open>db_step\<close>, the actions of the processes as
    \<open>sys_step\<close>, and what holds in every interleaving.
  \<^item> \<open>Isolation\<close>: the two transactions that read first and write by primary key afterwards
    (\<^verbatim>\<open>create_dependency_run\<close>, \<^verbatim>\<open>update_job\<close>) statement by statement, interleaved with all others
    at READ COMMITTED (relation \<open>rc_step\<close>).
  \<^item> \<open>Migrations\<close>: \<^verbatim>\<open>src/migrations/versions\<close> against the declarations of \<^verbatim>\<open>models.py\<close>.

  \<^bold>\<open>What is shown.\<close>
  Runs: a processed run ends in a terminal state, a cancellation wins over every result, a
  failure within the budget is retried exactly once with the right delay, a success dispatches
  exactly the ready dependents (\<open>Runner\<close>); at most one ordinary delivery executes a run, canceled
  runs are final (also statement by statement, unless a fan-out had selected the run before, in
  \<open>Isolation\<close>, with what such a fan-out and two concurrent updates lose), every history of the processes refines the abstract lifecycle and keeps the
  constraints, the validity of jobs and the ownership of dependencies, and a queued run whose
  message was lost is enqueued again and started (\<open>System\<close>).
  Scheduling: a pass creates exactly the due runs, two leaders create no duplicates, the
  catch-up loop equals a closed formula and terminates, one leader at a time, a standby takes
  over (\<open>Scheduler\<close>, \<open>Cron\<close>, \<open>Leader\<close>).
  Worker: bounded concurrency, no message lost, what the end of a task means (\<open>Worker\<close>).
  Executors: termination of polling, containment of uploaded scripts, the logged command line
  parses back (\<open>Http_Exec\<close>, \<open>Shell_Exec\<close>, \<open>Drafts\<close>).
  API: tenants are isolated, failed requests leave no trace, every request reaches its handler (\<open>Api\<close>);
  what triggering, retrying, canceling, creating and updating do on every branch (\<open>Jobs_Api\<close>,
  \<open>Runs_Api\<close>, \<open>Crud\<close>); tokens and passwords (\<open>Auth\<close>).
  Instrumentation changes nothing else (\<open>Metrics\<close>); the migrations build the declared schema (\<open>Migrations\<close>).

  \<^bold>\<open>Conventions.\<close>
  An SQL statement has its relational meaning on the tables; a SELECT without ORDER BY returns rows in
  the order of the list, and the theorems hold for every database. Each function of \<^verbatim>\<open>store.py\<close>
  and each handler that leaves the commit to its session is one atomic transaction, which \<open>Api\<close> justifies
  from \<^verbatim>\<open>session_scope\<close> and \<^verbatim>\<open>get_session\<close>; handlers that commit and go on are split there, and \<open>Isolation\<close>
  drops the atomicity where the code writes what it decided on earlier reads. The unique
  constraint on owner and name of a job is the one of migration 0003. Time is an integer
  number of microseconds, the monotonic clock a rational number of seconds, floats are rationals.
  Integers are Python's, unbounded; characters are 8 bits wide. Clock readings, random salts and
  the texts of library errors are arguments.

  Code outside \<^verbatim>\<open>src/\<close> is a parameter: Redis, PostgreSQL's advisory locks and connection pool, croniter and
  the time zones, httpx, the operating system, HMAC, PBKDF2, \<^verbatim>\<open>json.loads\<close>, the UTF-8 decoder. What is relied
  on is a locale or a named hypothesis, and each has an instance on which the examples run.

  Loops: \<^verbatim>\<open>due_tick\<close> and the polling loop are partial functions, \<^term>\<open>None\<close> means that they do not
  return, and returning is proved; the recursion of \<^verbatim>\<open>_prepare_trigger_run\<close> takes the interpreter's recursion
  limit as an argument, and a limit above the number of jobs with dependencies is shown to be enough; the
  main loops of the processes run over the list of their turns or are step relations without a bound. A
  task of a worker takes effect when it ends; what others commit meanwhile is an arbitrary function in its
  environment that keeps the contract. The cancellation of a task strikes while its executor works; at another
  await of \<^verbatim>\<open>process_run\<close> it would end the sequence of transactions there, which the interleavings of
  \<open>System\<close> and \<open>Isolation\<close> cover.

  \<^bold>\<open>Not modelled.\<close> Log output (\<^verbatim>\<open>common/logging.py\<close>), reading settings from the environment, the creation of
  engines and clients, CORS headers and the OpenAPI pages, the decoding of request bodies and parameters,
  measured durations: framework or operating-system matters without effect on the shared state. \<^verbatim>\<open>migrations/env.py\<close>
  only connects Alembic to the database. Deadlocks and the order in which PostgreSQL grants row locks are
  outside the model. \<^verbatim>\<open>encode_payload\<close> is unused. The frontend, the deployment
  files and the tests are not part of the backend's logic.
\<close>

end
